(* ===== verification/Prelude.thy ===== *)
theory Prelude
  imports Main "HOL-Library.Word" "HOL-Library.List_Lexorder"
begin

text \<open>
  Shared vocabulary of the development: the machine types the sources use, the
  representation of C strings, the two ways an operation of the sources can fail
  (a fault that ends the process, or a value its caller sees), and the generic
  lemmas on lists and words that the components use.

  A byte is an \<open>8 word\<close>; a \<open>std::string\<close> or a \<open>Bytes\<close> view is the list of its
  bytes; \<open>uint32_t\<close> and \<open>uint64_t\<close> are words of that width; a \<open>size_t\<close> that
  only counts is a \<open>nat\<close>.
\<close>

type_synonym byte = "8 word"
type_synonym bytes = "8 word list"
type_synonym u16 = "16 word"
type_synonym u32 = "32 word"
type_synonym u64 = "64 word"

named_theorems coding_simps "encoders and decoders on closed arguments"
named_theorems fs_simps "file system operations"
named_theorems db_defs "operations of the storage engine"

section \<open>Faults\<close>

text \<open>
  What ends a run of the program instead of returning: undefined behaviour of
  C++ (by kind), a failed \<open>assert\<close>, a call of \<open>exit\<close> and an uncaught exception.
\<close>

datatype fault =
    NullDeref | OutOfBounds | BadShift | AssertFail | ExitCall | Uncaught | Deadlock | Stuck

datatype 'a outcome = Return 'a | Fault fault

definition bind_outcome :: "'a outcome \<Rightarrow> ('a \<Rightarrow> 'b outcome) \<Rightarrow> 'b outcome" where
  "bind_outcome m k = (case m of Return a \<Rightarrow> k a | Fault f \<Rightarrow> Fault f)"

lemma bind_outcome_simps [simp]:
  "bind_outcome (Return a) k = k a"
  "bind_outcome (Fault f) k = Fault f"
  by (simp_all add: bind_outcome_def)

lemma bind_outcome_Return_iff:
  "bind_outcome m k = Return b \<longleftrightarrow> (\<exists>a. m = Return a \<and> k a = Return b)"
  by (cases m) simp_all

text \<open>A value that may be missing where the source dereferences it.\<close>

definition deref :: "'a option \<Rightarrow> 'a outcome" where
  "deref p = (case p of Some a \<Rightarrow> Return a | None \<Rightarrow> Fault NullDeref)"

lemma deref_simps [simp]:
  "deref (Some a) = Return a"
  "deref None = Fault NullDeref"
  by (simp_all add: deref_def)

section \<open>C strings and literals\<close>

text \<open>
  Where the sources build a \<open>std::string\<close> from \<open>Bytes::data()\<close>, a
  \<open>const char*\<close>, the string ends at the first NUL byte of the buffer.
\<close>

definition cstr :: "bytes \<Rightarrow> bytes" where
  "cstr bs = takeWhile (\<lambda>b. b \<noteq> 0) bs"

text \<open>The bytes of a string literal.\<close>

definition str :: "string \<Rightarrow> bytes" where
  "str s = map (\<lambda>c. word_of_nat (of_char c)) s"

text \<open>And back, where the sources parse the characters of a stored string.\<close>

definition unstr :: "bytes \<Rightarrow> string" where
  "unstr bs = map (\<lambda>b. char_of (unat b)) bs"

lemma unstr_str [simp]: "unstr (str s) = s"
proof -
  have "unat (word_of_nat (of_char c) :: byte) = (of_char c :: nat)" for c
    using nat_of_char_less_256 [of c] by (simp add: unsigned_of_nat take_bit_nat_eq_self)
  then show ?thesis by (simp add: str_def unstr_def comp_def)
qed

lemma length_str [simp]: "length (str s) = length s"
  by (simp add: str_def)

lemma cstr_Nil [simp]: "cstr [] = []"
  by (simp add: cstr_def)

lemma cstr_Cons [simp]: "cstr (b # bs) = (if b = 0 then [] else b # cstr bs)"
  by (simp add: cstr_def)

lemma zero_notin_cstr [simp]: "0 \<notin> set (cstr bs)"
  by (induction bs) auto

lemma cstr_id: "0 \<notin> set bs \<Longrightarrow> cstr bs = bs"
  by (induction bs) auto

lemma cstr_cstr [simp]: "cstr (cstr bs) = cstr bs"
  by (simp add: cstr_id)

lemma cstr_id_iff: "cstr bs = bs \<longleftrightarrow> 0 \<notin> set bs"
  by (metis cstr_id zero_notin_cstr)

lemma length_cstr_le: "length (cstr bs) \<le> length bs"
  unfolding cstr_def by (rule length_takeWhile_le)

section \<open>Words\<close>

text \<open>A size that is converted to \<open>int\<close>.\<close>

definition as_int :: "nat \<Rightarrow> int" where
  "as_int n = sint (word_of_nat n :: u32)"

lemma as_int_small: "n < 2 ^ 31 \<Longrightarrow> as_int n = int n"
  by (simp add: as_int_def signed_of_nat signed_take_bit_int_eq_self)

lemma unat_ucast_byte [simp]:
  "unat (ucast (b :: byte) :: u32) = unat b"
  "unat (ucast (b :: byte) :: u64) = unat b"
  using unsigned_less [of b, where ?'a = nat]
  by (simp_all add: unsigned_ucast_eq take_bit_nat_eq_self)

lemma byte_unat_less [simp]: "unat (b :: byte) < 256"
  using unsigned_less [of b, where ?'a = nat] by simp

lemma ucast_of_nat_byte:
  assumes "n < 256"
  shows "(ucast (word_of_nat n :: byte) :: 'a::len word) = word_of_nat n"
  using assms by (simp add: unsigned_of_nat take_bit_nat_eq_self)

end
