(* ===== verification/Coding.thy ===== *)
theory Coding
  imports Prelude
begin

text \<open>
  \<^verbatim>\<open>utils/coding.h\<close> and \<^verbatim>\<open>utils/coding.cpp\<close>: variable-length and fixed-width
  integer encodings. An encoder returns the bytes it stores at \<open>dst\<close>; a decoder
  gets the bytes from \<open>src\<close> to the end of the readable memory and returns the
  value it stores and the number of bytes it consumed. Reading past that memory
  and shifting an \<open>int\<close> by 32 or more are faults.
\<close>

unbundle bit_operations_syntax

section \<open>Definitions\<close>

lemma unat_drop_bit7: "unat (drop_bit 7 (v :: 'a::len word)) = unat v div 128"
  by (simp only: unsigned_drop_bit_eq take_bit_nat_eq_self [OF unsigned_less])
    (simp add: drop_bit_eq_div)

subsection \<open>Variable-length encodings\<close>

definition K_MAX_VARINT32_LEN :: nat where
  "K_MAX_VARINT32_LEN = 4"

definition K_MAX_VARINT64_LEN :: nat where
  "K_MAX_VARINT64_LEN = 8"

function EncodeVarint32 :: "u32 \<Rightarrow> bytes" where
  "EncodeVarint32 value =
     (if value \<ge> 0x80
      then ucast (value OR 0x80) # EncodeVarint32 (drop_bit 7 value)
      else [ucast value])"
  by pat_completeness auto
termination
  by (relation "measure unat")
    (auto simp: word_le_nat_alt unat_drop_bit7)

function EncodeVarint64 :: "u64 \<Rightarrow> bytes" where
  "EncodeVarint64 value =
     (if value \<ge> 0x80
      then ucast (value OR 0x80) # EncodeVarint64 (drop_bit 7 value)
      else [ucast value])"
  by pat_completeness auto
termination
  by (relation "measure unat")
    (auto simp: word_le_nat_alt unat_drop_bit7)

declare EncodeVarint32.simps [simp del] EncodeVarint64.simps [simp del]

text \<open>
  \<open>uint8_t\<close> operands are promoted to \<open>int\<close>, so the shifted block is a 32-bit
  value in both decoders: the unsigned 32-bit result takes its bits as they are,
  the unsigned 64-bit result takes it sign-extended.
\<close>

definition int_shift :: "byte \<Rightarrow> nat \<Rightarrow> 32 word outcome" where
  "int_shift b bitsize =
     (if bitsize < 32 then Return (push_bit bitsize (ucast b)) else Fault BadShift)"

fun DecodeVarint32_loop :: "bytes \<Rightarrow> u32 \<Rightarrow> nat \<Rightarrow> nat \<Rightarrow> (u32 \<times> nat) outcome" where
  "DecodeVarint32_loop [] result bitsize n = Fault OutOfBounds"
| "DecodeVarint32_loop (b # buffer) result bitsize n =
     (if b AND 0x80 \<noteq> 0
      then bind_outcome (int_shift (b XOR 0x80) bitsize)
             (\<lambda>x. DecodeVarint32_loop buffer (result OR x) (bitsize + 7) (n + 1))
      else bind_outcome (int_shift b bitsize) (\<lambda>x. Return (result OR x, n + 1)))"

definition DecodeVarint32 :: "bytes \<Rightarrow> (u32 \<times> nat) outcome" where
  "DecodeVarint32 src = DecodeVarint32_loop src 0 0 0"

fun DecodeVarint64_loop :: "bytes \<Rightarrow> u64 \<Rightarrow> nat \<Rightarrow> nat \<Rightarrow> (u64 \<times> nat) outcome" where
  "DecodeVarint64_loop [] result bitsize n = Fault OutOfBounds"
| "DecodeVarint64_loop (b # buffer) result bitsize n =
     (if b AND 0x80 \<noteq> 0
      then bind_outcome (int_shift (b XOR 0x80) bitsize)
             (\<lambda>x. DecodeVarint64_loop buffer (result OR scast x) (bitsize + 7) (n + 1))
      else bind_outcome (int_shift b bitsize) (\<lambda>x. Return (result OR scast x, n + 1)))"

definition DecodeVarint64 :: "bytes \<Rightarrow> (u64 \<times> nat) outcome" where
  "DecodeVarint64 src = DecodeVarint64_loop src 0 0 0"

subsection \<open>Fixed-width encodings\<close>

definition EncodeFixed32 :: "u32 \<Rightarrow> bytes" where
  "EncodeFixed32 value =
     [ucast value, ucast (drop_bit 8 value), ucast (drop_bit 16 value), ucast (drop_bit 24 value)]"

definition EncodeFixed64 :: "u64 \<Rightarrow> bytes" where
  "EncodeFixed64 value =
     [ucast value, ucast (drop_bit 8 value), ucast (drop_bit 16 value), ucast (drop_bit 24 value),
      ucast (drop_bit 32 value), ucast (drop_bit 40 value), ucast (drop_bit 48 value),
      ucast (drop_bit 56 value)]"

fun DecodeFixed32 :: "bytes \<Rightarrow> u32 outcome" where
  "DecodeFixed32 (b0 # b1 # b2 # b3 # _) =
     Return (ucast b0 OR push_bit 8 (ucast b1) OR push_bit 16 (ucast b2) OR push_bit 24 (ucast b3))"
| "DecodeFixed32 _ = Fault OutOfBounds"

fun DecodeFixed64 :: "bytes \<Rightarrow> u64 outcome" where
  "DecodeFixed64 (b0 # b1 # b2 # b3 # b4 # b5 # b6 # b7 # _) =
     Return (ucast b0 OR push_bit 8 (ucast b1) OR push_bit 16 (ucast b2) OR push_bit 24 (ucast b3)
        OR push_bit 32 (ucast b4) OR push_bit 40 (ucast b5) OR push_bit 48 (ucast b6)
        OR push_bit 56 (ucast b7))"
| "DecodeFixed64 _ = Fault OutOfBounds"

text \<open>
  The reference: a number in base 128, least significant digit first, with the
  high bit set on every digit but the last.
\<close>

function base128 :: "nat \<Rightarrow> bytes" where
  "base128 n = (if n < 128 then [word_of_nat n] else word_of_nat (n mod 128 + 128) # base128 (n div 128))"
  by pat_completeness auto
termination by (relation "measure id") auto

declare base128.simps [simp del]

section \<open>Encoders against the reference\<close>


lemma bit_128: "bit (0x80 :: 'a::semiring_bit_operations) n \<longleftrightarrow> possible_bit TYPE('a) n \<and> n = 7"
proof -
  have "(0x80 :: 'a) = 2 ^ 7" by simp
  then show ?thesis by (simp only: bit_exp_iff)
qed

lemma add_high_bit:
  assumes "(m :: nat) < 128"
  shows "m + 128 = (m OR 128)"
proof -
  have "take_bit 7 m = m"
    using assms by (simp add: take_bit_nat_eq_self_iff)
  then have "\<not> bit m 7"
    by (metis bit_take_bit_iff less_irrefl)
  then have "m AND 128 = 0"
    by (intro bit_eqI) (auto simp: bit_and_iff bit_128)
  then show ?thesis
    by (simp add: disjunctive_add_eq_or [symmetric])
qed

lemma low7_or_high:
  assumes "LENGTH('a::len) \<ge> 8"
  shows "ucast ((v :: 'a word) OR 0x80) = (word_of_nat (unat v mod 128 + 128) :: byte)"
proof -
  have "unat v mod 128 + 128 = (take_bit 7 (unat v) OR 128)"
    by (subst add_high_bit [symmetric]) (simp_all add: take_bit_eq_mod)
  moreover have "ucast (v OR 0x80) = (word_of_nat (take_bit 7 (unat v) OR 128) :: byte)"
    using assms by (intro bit_word_eqI) (auto simp: bit_simps bit_128)
  ultimately show ?thesis by simp
qed

theorem EncodeVarint32_base128: "EncodeVarint32 v = base128 (unat v)"
proof (induction v rule: EncodeVarint32.induct)
  case (1 v)
  show ?case
  proof (cases "v \<ge> 0x80")
    case True
    then have "128 \<le> unat v" by (simp add: word_le_nat_alt)
    with True 1 show ?thesis
      by (simp add: EncodeVarint32.simps [of v] base128.simps [of "unat v"] low7_or_high unat_drop_bit7)
  next
    case False
    then have "unat v < 128" by (simp add: word_le_nat_alt)
    with False show ?thesis
      by (simp add: EncodeVarint32.simps [of v] base128.simps [of "unat v"])
  qed
qed

theorem EncodeVarint64_base128: "EncodeVarint64 v = base128 (unat v)"
proof (induction v rule: EncodeVarint64.induct)
  case (1 v)
  show ?case
  proof (cases "v \<ge> 0x80")
    case True
    then have "128 \<le> unat v" by (simp add: word_le_nat_alt)
    with True 1 show ?thesis
      by (simp add: EncodeVarint64.simps [of v] base128.simps [of "unat v"] low7_or_high unat_drop_bit7)
  next
    case False
    then have "unat v < 128" by (simp add: word_le_nat_alt)
    with False show ?thesis
      by (simp add: EncodeVarint64.simps [of v] base128.simps [of "unat v"])
  qed
qed

section \<open>Length of an encoding\<close>

lemma length_base128: "n < 128 ^ Suc k \<Longrightarrow> length (base128 n) \<le> Suc k"
proof (induction k arbitrary: n)
  case 0
  then show ?case by (simp add: base128.simps [of n])
next
  case (Suc k)
  have "n div 128 < 128 ^ Suc k"
    using Suc.prems by (simp add: less_mult_imp_div_less mult.commute)
  then show ?case using Suc.IH [of "n div 128"] by (simp add: base128.simps [of n])
qed

lemma length_base128_ge: "128 ^ k \<le> n \<Longrightarrow> Suc k \<le> length (base128 n)"
proof (induction k arbitrary: n)
  case 0
  then show ?case by (simp add: base128.simps [of n])
next
  case (Suc k)
  have "128 * 128 ^ k \<le> n" using Suc.prems by simp
  then have "128 ^ k \<le> n div 128"
    using div_le_mono [of "128 * 128 ^ k" n 128] by simp
  moreover have "128 \<le> n"
    using \<open>128 * 128 ^ k \<le> n\<close> by (rule order_trans [rotated]) simp
  ultimately show ?case using Suc.IH [of "n div 128"] by (simp add: base128.simps [of n])
qed

lemma base128_nonempty [simp]: "base128 n \<noteq> []"
  by (simp add: base128.simps [of n])

lemma EncodeVarint32_nonempty [simp]: "EncodeVarint32 v \<noteq> []"
  by (simp add: EncodeVarint32_base128)

lemma EncodeVarint64_nonempty [simp]: "EncodeVarint64 v \<noteq> []"
  by (simp add: EncodeVarint64_base128)

lemma length_EncodeVarint32: "length (EncodeVarint32 v) \<le> 5"
  using length_base128 [of "unat v" 4] unsigned_less [of v, where ?'a = nat]
  by (simp add: EncodeVarint32_base128)

section \<open>Round trips\<close>

lemma high_block:
  assumes "m < 128"
  shows "(word_of_nat (m + 128) :: byte) AND 0x80 \<noteq> 0"
    and "(word_of_nat (m + 128) :: byte) XOR 0x80 = word_of_nat m"
    and "(word_of_nat m :: byte) AND 0x80 = 0"
proof -
  have "take_bit 7 m = m"
    using assms by (simp add: take_bit_nat_eq_self_iff)
  then have m7: "\<not> bit m 7"
    by (metis bit_take_bit_iff less_irrefl)
  have "bit ((word_of_nat (m OR 128) :: byte) AND 0x80) 7"
    by (simp add: bit_simps bit_128)
  then have "(word_of_nat (m OR 128) :: byte) AND 0x80 \<noteq> 0"
    by (metis bit_0_eq bot_apply bot_bool_def bit_word_eqI)
  then show "(word_of_nat (m + 128) :: byte) AND 0x80 \<noteq> 0"
    unfolding add_high_bit [OF assms] .
  have "(word_of_nat (m OR 128) :: byte) XOR 0x80 = word_of_nat m"
    using m7 by (intro bit_word_eqI) (auto simp: bit_simps bit_128)
  then show "(word_of_nat (m + 128) :: byte) XOR 0x80 = word_of_nat m"
    unfolding add_high_bit [OF assms] .
  show "(word_of_nat m :: byte) AND 0x80 = 0"
    using m7 by (intro bit_word_eqI) (auto simp: bit_simps bit_128)
qed

lemma or_push_bit:
  assumes "unat (r :: 'a::len word) < 2 ^ k"
  shows "(r OR push_bit k y) = r + push_bit k y"
proof -
  have "unat (take_bit k r) = unat r"
    using assms by (simp only: unsigned_take_bit_eq take_bit_nat_eq_self)
  then have "take_bit k r = r"
    by (rule word_unat_eq_iff [THEN iffD2])
  then have "bit r n \<Longrightarrow> n < k" for n
    by (metis bit_take_bit_iff)
  then have "r AND push_bit k y = 0"
    by (intro bit_word_eqI) (auto simp: bit_simps dest: leD)
  then show ?thesis
    by (simp add: disjunctive_add_eq_or [symmetric])
qed

text \<open>One block of either decoder, on numbers.\<close>

lemma or_block:
  assumes "R < 2 ^ k" and "m < 128"
  shows "(word_of_nat R OR push_bit k (ucast (word_of_nat m :: byte)) :: 'a::len word)
       = word_of_nat (R + m * 2 ^ k)"
proof -
  have "unat (word_of_nat R :: 'a word) \<le> R"
    by (simp add: unsigned_of_nat take_bit_nat_less_eq_self)
  with assms(1) have "unat (word_of_nat R :: 'a word) < 2 ^ k" by simp
  then have "(word_of_nat R OR push_bit k (ucast (word_of_nat m :: byte)) :: 'a word)
    = word_of_nat R + push_bit k (ucast (word_of_nat m :: byte))"
    by (rule or_push_bit)
  then show ?thesis
    using assms(2) by (simp only: ucast_of_nat_byte [of m]) (simp add: push_bit_eq_mult)
qed

lemma block_bounds:
  fixes R k n :: nat
  assumes "R < 2 ^ k"
  shows "R + n mod 128 * 2 ^ k < 2 ^ (k + 7)"
    and "R + n mod 128 * 2 ^ k + n div 128 * 2 ^ (k + 7) = R + n * 2 ^ k"
    and "n div 128 * 2 ^ (k + 7) \<le> n * 2 ^ k"
proof -
  have "n mod 128 * 2 ^ k \<le> 127 * 2 ^ k"
    by (rule mult_le_mono1) (simp add: less_Suc_eq_le [symmetric])
  moreover have "(2::nat) ^ (k + 7) = 128 * 2 ^ k"
    by (simp add: power_add)
  ultimately show "R + n mod 128 * 2 ^ k < 2 ^ (k + 7)"
    using assms by linarith
  have "n mod 128 * 2 ^ k + n div 128 * 2 ^ (k + 7) = (n mod 128 + n div 128 * 128) * 2 ^ k"
    by (simp only: power_add add_mult_distrib) simp
  then show eq: "R + n mod 128 * 2 ^ k + n div 128 * 2 ^ (k + 7) = R + n * 2 ^ k"
    by (simp only: mod_div_mult_eq add.assoc)
  then show "n div 128 * 2 ^ (k + 7) \<le> n * 2 ^ k" by linarith
qed

lemma shift_bound:
  assumes "(n :: nat) * 2 ^ k < 2 ^ w" and "k = 0 \<or> 0 < n" and "0 < w"
  shows "k < w"
proof (cases "k = 0")
  case False
  with assms(2) have "1 * 2 ^ k \<le> n * 2 ^ k" by (intro mult_le_mono1) simp
  with assms(1) have "(2::nat) ^ k < 2 ^ w" by linarith
  then show ?thesis by (simp add: power_strict_increasing_iff)
qed (use assms in simp)

lemma DecodeVarint32_loop_base128:
  assumes "R < 2 ^ k" and "n * 2 ^ k < 2 ^ 32" and "k = 0 \<or> 0 < n"
  shows "DecodeVarint32_loop (base128 n @ rest) (word_of_nat R) k c
       = Return (word_of_nat (R + n * 2 ^ k), c + length (base128 n))"
  using assms
proof (induction n arbitrary: R k c rule: base128.induct)
  case (1 n)
  have k: "k < 32"
    using shift_bound [OF "1.prems"(2,3)] by simp
  show ?case
  proof (cases "n < 128")
    case True
    then show ?thesis
      using k "1.prems"(1)
      by (simp add: base128.simps [of n] high_block int_shift_def or_block del: of_nat_add)
  next
    case False
    note b = block_bounds [OF "1.prems"(1), of n]
    have "DecodeVarint32_loop (base128 (n div 128) @ rest) (word_of_nat (R + n mod 128 * 2 ^ k)) (k + 7) (c + 1)
        = Return (word_of_nat (R + n mod 128 * 2 ^ k + n div 128 * 2 ^ (k + 7)), c + 1 + length (base128 (n div 128)))"
    proof (rule "1.IH" [OF False b(1)])
      show "n div 128 * 2 ^ (k + 7) < 2 ^ 32"
        using b(3) "1.prems"(2) by (rule le_less_trans)
      show "k + 7 = 0 \<or> 0 < n div 128"
        using False by simp
    qed
    then show ?thesis
      using k False "1.prems"(1) b(2)
      by (simp add: base128.simps [of n] high_block int_shift_def or_block del: of_nat_add)
  qed
qed

lemma DecodeVarint32_EncodeVarint32:
  "DecodeVarint32 (EncodeVarint32 v @ rest) = Return (v, length (EncodeVarint32 v))"
  using DecodeVarint32_loop_base128 [of 0 0 "unat v" rest 0] unsigned_less [of v, where ?'a = nat]
  by (simp add: DecodeVarint32_def EncodeVarint32_base128)

lemma scast_block:
  assumes "m < 128" and "m * 2 ^ k < 2 ^ 31"
  shows "scast (push_bit k (ucast (word_of_nat m :: byte)) :: 32 word)
       = (push_bit k (ucast (word_of_nat m :: byte)) :: u64)"
proof -
  have eq: "push_bit k (ucast (word_of_nat m :: byte)) = (word_of_nat (m * 2 ^ k) :: 32 word)"
    "push_bit k (ucast (word_of_nat m :: byte)) = (word_of_nat (m * 2 ^ k) :: u64)"
    using assms(1) by (simp_all add: ucast_of_nat_byte push_bit_eq_mult)
  have "scast (word_of_nat (m * 2 ^ k) :: 32 word) = (word_of_nat (m * 2 ^ k) :: u64)"
    using assms(2) by (simp add: signed_of_nat signed_take_bit_int_eq_self del: of_nat_mult)
  then show ?thesis by (simp only: eq)
qed

lemma DecodeVarint64_loop_base128:
  assumes "R < 2 ^ k" and "n * 2 ^ k < 2 ^ 31" and "k = 0 \<or> 0 < n"
  shows "DecodeVarint64_loop (base128 n @ rest) (word_of_nat R) k c
       = Return (word_of_nat (R + n * 2 ^ k), c + length (base128 n))"
  using assms
proof (induction n arbitrary: R k c rule: base128.induct)
  case (1 n)
  have k: "k < 32"
    using shift_bound [OF "1.prems"(2,3)] by simp
  have "n mod 128 * 2 ^ k \<le> n * 2 ^ k" by (rule mult_le_mono1) simp
  with "1.prems"(2) have sb: "n mod 128 * 2 ^ k < 2 ^ 31" by linarith
  show ?case
  proof (cases "n < 128")
    case True
    then show ?thesis
      using k sb "1.prems"(1)
      by (simp add: base128.simps [of n] high_block int_shift_def scast_block or_block del: of_nat_add)
  next
    case False
    note b = block_bounds [OF "1.prems"(1), of n]
    have "DecodeVarint64_loop (base128 (n div 128) @ rest) (word_of_nat (R + n mod 128 * 2 ^ k)) (k + 7) (c + 1)
        = Return (word_of_nat (R + n mod 128 * 2 ^ k + n div 128 * 2 ^ (k + 7)), c + 1 + length (base128 (n div 128)))"
    proof (rule "1.IH" [OF False b(1)])
      show "n div 128 * 2 ^ (k + 7) < 2 ^ 31"
        using b(3) "1.prems"(2) by (rule le_less_trans)
      show "k + 7 = 0 \<or> 0 < n div 128"
        using False by simp
    qed
    then show ?thesis
      using k sb False "1.prems"(1) b(2)
      by (simp add: base128.simps [of n] high_block int_shift_def scast_block or_block del: of_nat_add)
  qed
qed

lemma DecodeVarint64_EncodeVarint64:
  assumes "unat v < 2 ^ 31"
  shows "DecodeVarint64 (EncodeVarint64 v @ rest) = Return (v, length (EncodeVarint64 v))"
  using DecodeVarint64_loop_base128 [of 0 0 "unat v" rest 0] assms
  by (simp add: DecodeVarint64_def EncodeVarint64_base128)

lemma bit_byte_at:
  "bit (push_bit k (ucast (ucast (drop_bit k v) :: byte)) :: 'a::len word) n
   \<longleftrightarrow> k \<le> n \<and> n < k + 8 \<and> bit (v :: 'a word) n"
  by (auto simp: bit_simps dest: bit_imp_le_length)

lemma bit_byte_at_0:
  "bit (ucast (ucast v :: byte) :: 'a::len word) n \<longleftrightarrow> n < 8 \<and> bit (v :: 'a word) n"
  by (auto simp: bit_simps dest: bit_imp_le_length)

lemma DecodeFixed32_EncodeFixed32: "DecodeFixed32 (EncodeFixed32 v @ rest) = Return v"
proof -
  have "(ucast (ucast v :: byte) OR push_bit 8 (ucast (ucast (drop_bit 8 v) :: byte))
     OR push_bit 16 (ucast (ucast (drop_bit 16 v) :: byte))
     OR push_bit 24 (ucast (ucast (drop_bit 24 v) :: byte))) = v" (is "?l = v")
  proof (rule bit_word_eqI)
    fix n assume "n < LENGTH(32)"
    then have "n < 8 \<or> 8 \<le> n \<and> n < 16 \<or> 16 \<le> n \<and> n < 24 \<or> 24 \<le> n \<and> n < 32"
      by auto
    then show "bit ?l n = bit v n"
      unfolding bit_or_iff bit_byte_at bit_byte_at_0 by auto
  qed
  then show ?thesis by (simp add: EncodeFixed32_def)
qed

lemma DecodeFixed64_EncodeFixed64: "DecodeFixed64 (EncodeFixed64 v @ rest) = Return v"
proof -
  have "(ucast (ucast v :: byte) OR push_bit 8 (ucast (ucast (drop_bit 8 v) :: byte))
     OR push_bit 16 (ucast (ucast (drop_bit 16 v) :: byte))
     OR push_bit 24 (ucast (ucast (drop_bit 24 v) :: byte))
     OR push_bit 32 (ucast (ucast (drop_bit 32 v) :: byte))
     OR push_bit 40 (ucast (ucast (drop_bit 40 v) :: byte))
     OR push_bit 48 (ucast (ucast (drop_bit 48 v) :: byte))
     OR push_bit 56 (ucast (ucast (drop_bit 56 v) :: byte))) = v" (is "?l = v")
  proof (rule bit_word_eqI)
    fix n assume "n < LENGTH(64)"
    then have "n < 8 \<or> 8 \<le> n \<and> n < 16 \<or> 16 \<le> n \<and> n < 24 \<or> 24 \<le> n \<and> n < 32
      \<or> 32 \<le> n \<and> n < 40 \<or> 40 \<le> n \<and> n < 48 \<or> 48 \<le> n \<and> n < 56 \<or> 56 \<le> n \<and> n < 64"
      by auto
    then show "bit ?l n = bit v n"
      unfolding bit_or_iff bit_byte_at bit_byte_at_0 by auto
  qed
  then show ?thesis by (simp add: EncodeFixed64_def)
qed

section \<open>Where the 64-bit round trip stops\<close>

lemma DecodeVarint64_loop_step:
  assumes "128 \<le> n" and "R < 2 ^ k" and "k \<le> 21"
  shows "DecodeVarint64_loop (base128 n @ rest) (word_of_nat R) k c
       = DecodeVarint64_loop (base128 (n div 128) @ rest) (word_of_nat (R + n mod 128 * 2 ^ k)) (k + 7) (c + 1)"
proof -
  have "(2::nat) ^ k \<le> 2 ^ 21" using assms(3) by (intro power_increasing) simp_all
  then have "n mod 128 * 2 ^ k \<le> 127 * 2 ^ 21"
    by (intro mult_le_mono) (simp_all add: less_Suc_eq_le [symmetric])
  then have "n mod 128 * 2 ^ k < 2 ^ 31" by simp
  then show ?thesis
    using assms by (simp add: base128.simps [of n] high_block int_shift_def scast_block or_block del: of_nat_add)
qed

lemma DecodeVarint64_loop_steps:
  assumes "j \<le> 4" and "128 ^ j \<le> n"
  shows "\<exists>R c. R < 2 ^ (7 * j) \<and> DecodeVarint64_loop (base128 n @ rest) 0 0 0
     = DecodeVarint64_loop (base128 (n div 128 ^ j) @ rest) (word_of_nat R) (7 * j) c"
  using assms
proof (induction j)
  case 0
  show ?case by (rule exI [of _ 0], rule exI [of _ 0]) simp
next
  case (Suc j)
  have le: "128 ^ j * 128 \<le> n" using Suc.prems by simp
  then have "128 ^ j \<le> n" by (rule order_trans [rotated]) simp
  with Suc obtain R c where R: "R < 2 ^ (7 * j)"
    and eq: "DecodeVarint64_loop (base128 n @ rest) 0 0 0
     = DecodeVarint64_loop (base128 (n div 128 ^ j) @ rest) (word_of_nat R) (7 * j) c"
    by auto
  have ge: "128 \<le> n div 128 ^ j"
    using div_le_mono [OF le, of "128 ^ j"] by simp
  have "n div 128 ^ j div 128 = n div 128 ^ Suc j"
    by (simp only: div_mult2_eq [symmetric] power_Suc2)
  moreover have "7 * j \<le> 21" and e: "7 * Suc j = 7 * j + 7" using Suc.prems(1) by simp_all
  ultimately show ?case
    using DecodeVarint64_loop_step [OF ge R, of rest c] block_bounds(1) [OF R, of "n div 128 ^ j"]
    unfolding e eq by metis
qed

text \<open>The fifth block: its high bits reach bit 31 of an \<open>int\<close>.\<close>

lemma bit_scast_high:
  assumes "31 \<le> i" and "i < 64"
  shows "bit (scast (x :: 32 word) :: u64) i = bit x 31"
  using assms by (auto simp: bit_simps min_def)

lemma nat_bit_bound: "(m :: nat) < 2 ^ k \<Longrightarrow> k \<le> i \<Longrightarrow> \<not> bit m i"
  by (metis bit_take_bit_iff not_le take_bit_nat_eq_self)

lemma DecodeVarint64_loop_fifth:
  assumes "8 \<le> m" and "R < 2 ^ 28" and "unat v div 2 ^ 28 = m"
  shows "DecodeVarint64_loop (base128 m @ rest) (word_of_nat R) 28 c \<noteq> Return (v, l)"
proof (cases "m < 128")
  case False
  obtain b bs where "base128 (m div 128) = b # bs"
    by (cases "base128 (m div 128)") simp_all
  with False show ?thesis
    by (simp add: base128.simps [of m] high_block int_shift_def del: of_nat_add)
next
  case True
  let ?x = "push_bit 28 (ucast (word_of_nat m :: byte)) :: 32 word"
  let ?r = "(word_of_nat R OR scast ?x) :: u64"
  have r: "bit ?r i = bit m 3" if "31 \<le> i" "i < 64" for i
  proof -
    have "\<not> bit (word_of_nat R :: u64) i"
      using nat_bit_bound [OF assms(2), of i] that by (simp add: bit_simps)
    moreover have "bit ?x 31 = bit m 3"
      by (simp add: bit_simps)
    ultimately show ?thesis using that by (simp add: bit_or_iff bit_scast_high)
  qed
  have v: "bit v (28 + i) = bit m i" for i
  proof -
    have "bit (unat v div 2 ^ 28) i = bit (unat v) (28 + i)"
      by (simp only: bit_drop_bit_eq comp_def flip: drop_bit_eq_div)
    then show ?thesis using assms(3) by (simp add: bit_unsigned_iff)
  qed
  have "?r \<noteq> v"
  proof
    assume eq: "?r = v"
    have "m < 2 ^ 7" using True by simp
    note high = nat_bit_bound [OF this]
    have "\<not> bit m 3" using r [of 63] v [of 35] high [of 35] eq by simp
    then have "\<not> bit m i" if "3 \<le> i" for i
      using r [of "28 + i"] v [of i] high [of i] eq that by (cases "i < 36") simp_all
    then have "take_bit 3 m = m"
      by (intro bit_eqI) (auto simp: bit_take_bit_iff not_le [symmetric])
    then show False using assms(1) by (simp add: take_bit_nat_eq_self_iff)
  qed
  then show ?thesis
    using True by (simp add: base128.simps [of m] high_block int_shift_def)
qed

lemma DecodeVarint64_EncodeVarint64_large:
  assumes "2 ^ 31 \<le> unat v"
  shows "DecodeVarint64 (EncodeVarint64 v @ rest) \<noteq> Return (v, l)"
proof -
  have p: "(128::nat) ^ 4 = 2 ^ 28" by simp
  obtain R c where "R < 2 ^ (7 * 4)" and "DecodeVarint64_loop (base128 (unat v) @ rest) 0 0 0
     = DecodeVarint64_loop (base128 (unat v div 128 ^ 4) @ rest) (word_of_nat R) (7 * 4) c"
    using DecodeVarint64_loop_steps [of 4 "unat v" rest] assms by auto
  moreover have "8 \<le> unat v div 2 ^ 28"
    using assms by (simp add: less_eq_div_iff_mult_less_eq)
  ultimately show ?thesis
    using DecodeVarint64_loop_fifth [of "unat v div 2 ^ 28" R v rest c l]
    by (simp add: DecodeVarint64_def EncodeVarint64_base128 p)
qed

section \<open>Properties\<close>

text \<open>C26. A 32-bit varint takes one to five bytes, and decoding it, whatever follows it in the
  buffer, gives back the value and the number of bytes it took.\<close>

theorem varint32_roundtrip:
  "DecodeVarint32 (EncodeVarint32 v @ rest) = Return (v, length (EncodeVarint32 v))
   \<and> length (EncodeVarint32 v) \<in> {1..5}"
proof -
  have "EncodeVarint32 v \<noteq> []" by simp
  then have "1 \<le> length (EncodeVarint32 v)" by (simp add: Suc_le_eq)
  then show ?thesis using length_EncodeVarint32 [of v] DecodeVarint32_EncodeVarint32 [of v rest] by simp
qed

text \<open>C27. The 64-bit varint decoder gives back an encoded value exactly when it is below
  \<open>2 ^ 31\<close>: above, the shifts are done in the 32-bit type \<open>int\<close>.\<close>

theorem varint64_roundtrip_iff:
  "DecodeVarint64 (EncodeVarint64 v @ rest) = Return (v, length (EncodeVarint64 v)) \<longleftrightarrow> unat v < 2 ^ 31"
  using DecodeVarint64_EncodeVarint64 [of v rest] DecodeVarint64_EncodeVarint64_large [of v rest]
  by (meson not_le)

text \<open>Fixed-width encoding is little-endian and lossless, for 32 and for 64 bits.\<close>

theorem fixed_roundtrip:
  "DecodeFixed32 (EncodeFixed32 v @ rest) = Return v \<and> DecodeFixed64 (EncodeFixed64 u @ rest) = Return u"
  by (simp add: DecodeFixed32_EncodeFixed32 DecodeFixed64_EncodeFixed64)

end
