(* ===== verification/Log_Record.thy ===== *)
theory Log_Record
  imports Coding
begin

text \<open>
  \<^verbatim>\<open>data/log_record.h\<close>, \<^verbatim>\<open>data/log_record.cpp\<close> and
  \<^verbatim>\<open>data/transaction_record.h\<close>, \<^verbatim>\<open>data/transaction_record.cpp\<close>: the records of
  the log, their byte layout and the transaction number in front of a key.

  The CRC-32C routine comes from a third-party package. It is the parameter \<open>crc\<close>
  of the definitions: \<open>crc c data\<close> is \<open>crc32c::Extend(c, data, n)\<close>, and
  \<open>crc32c::Crc32c(data, n)\<close> is \<open>crc 0 data\<close>. What the sources rely on is that
  extending by two pieces is extending by their concatenation (\<open>crc_extends\<close>).
\<close>

type_synonym crc_fun = "u32 \<Rightarrow> bytes \<Rightarrow> u32"

definition crc_extends :: "crc_fun \<Rightarrow> bool" where
  "crc_extends crc \<longleftrightarrow> (\<forall>c xs ys. crc (crc c xs) ys = crc c (xs @ ys))"

section \<open>Definitions\<close>

record LogRecordPst =
  fid :: u32
  offset :: u64

text \<open>An \<open>enum : int8_t\<close> holds any 8-bit value.\<close>

type_synonym LogRecordType = byte

definition NormalLogRecord :: LogRecordType where
  "NormalLogRecord = 1"

definition DeletedLogRecord :: LogRecordType where
  "DeletedLogRecord = 2"

definition TxnFinishedLogRecord :: LogRecordType where
  "TxnFinishedLogRecord = 3"

definition K_CRC_SIZE :: nat where
  "K_CRC_SIZE = 4"

definition K_LOG_RECORD_TYPE_SIZE :: nat where
  "K_LOG_RECORD_TYPE_SIZE = 1"

definition K_MAX_LOG_RECORD_HEADER_SIZE :: nat where
  "K_MAX_LOG_RECORD_HEADER_SIZE = 5 * 2 + 5"

record LogRecordHeader =
  hdr_crc :: u32
  record_type :: LogRecordType
  key_size :: u32
  value_size :: u32

record LogRecord =
  lr_key :: bytes
  lr_value :: bytes
  lr_type :: LogRecordType

definition header_rest :: "LogRecord \<Rightarrow> bytes" where
  "header_rest log_record =
     lr_type log_record # EncodeVarint32 (word_of_nat (length (lr_key log_record)))
       @ EncodeVarint32 (word_of_nat (length (lr_value log_record)))"

definition EncodeLogRecord :: "crc_fun \<Rightarrow> LogRecord \<Rightarrow> bytes" where
  "EncodeLogRecord crc log_record =
     (if lr_key log_record = [] then []
      else let body = header_rest log_record @ lr_key log_record @ lr_value log_record
           in EncodeFixed32 (crc 0 body) @ body)"

definition empty_header :: LogRecordHeader where
  "empty_header = \<lparr>hdr_crc = 0, record_type = 0, key_size = 0, value_size = 0\<rparr>"

definition DecodeLogRecordHeader :: "bytes \<Rightarrow> (LogRecordHeader \<times> nat) outcome" where
  "DecodeLogRecordHeader bs =
     (if length bs < K_CRC_SIZE then Return (empty_header, 0)
      else bind_outcome (DecodeFixed32 bs) (\<lambda>c.
        if length bs \<le> K_CRC_SIZE then Fault AssertFail
        else let idx = K_CRC_SIZE + K_LOG_RECORD_TYPE_SIZE
        in bind_outcome (DecodeVarint32 (drop idx (bs @ [0]))) (\<lambda>(ks, n).
           bind_outcome (DecodeVarint32 (drop (idx + n) (bs @ [0]))) (\<lambda>(vs, m).
             Return (\<lparr>hdr_crc = c, record_type = bs ! K_CRC_SIZE, key_size = ks, value_size = vs\<rparr>,
                     idx + n + m)))))"

definition GetLogRecordCRC :: "crc_fun \<Rightarrow> LogRecord \<Rightarrow> bytes \<Rightarrow> u32" where
  "GetLogRecordCRC crc log_record header =
     (if header = [] then 0
      else crc (crc (crc 0 (drop K_CRC_SIZE header)) (lr_key log_record)) (lr_value log_record))"

text \<open>The local buffer has \<open>K_MAX_VARINT32_LEN + K_MAX_VARINT64_LEN\<close> bytes.\<close>

definition EncodeLogRecordPosition :: "LogRecordPst \<Rightarrow> bytes outcome" where
  "EncodeLogRecordPosition pst =
     (let buffer = EncodeVarint32 (fid pst) @ EncodeVarint64 (offset pst)
      in if length buffer \<le> K_MAX_VARINT32_LEN + K_MAX_VARINT64_LEN then Return buffer
         else Fault OutOfBounds)"

definition DecodeLogRecordPosition :: "bytes \<Rightarrow> LogRecordPst outcome" where
  "DecodeLogRecordPosition bs =
     bind_outcome (DecodeVarint32 (bs @ [0])) (\<lambda>(f, n).
     bind_outcome (DecodeVarint64 (drop n (bs @ [0]))) (\<lambda>(ofs, m).
       Return \<lparr>fid = f, offset = ofs\<rparr>))"

record TxnRecord =
  txn_log_record :: LogRecord
  txn_pst :: LogRecordPst

definition K_NON_TXN_ID :: u64 where
  "K_NON_TXN_ID = 0"

definition K_TXN_FINISHED_KEY :: bytes where
  "K_TXN_FINISHED_KEY = str ''Txn-finished''"

text \<open>The local buffer has \<open>K_MAX_VARINT32_LEN\<close> bytes.\<close>

definition EncodeLogRecordWithTxnID :: "bytes \<Rightarrow> u64 \<Rightarrow> bytes outcome" where
  "EncodeLogRecordWithTxnID key txn_id =
     (let buf = EncodeVarint64 txn_id
      in if length buf \<le> K_MAX_VARINT32_LEN then Return (buf @ cstr key) else Fault OutOfBounds)"

definition DecodeLogRecordWithTxnID :: "bytes \<Rightarrow> (bytes \<times> u64) outcome" where
  "DecodeLogRecordWithTxnID key =
     bind_outcome (DecodeVarint64 (key @ [0])) (\<lambda>(txn_id, len).
       if len \<le> length key then Return (drop len key, txn_id) else Fault AssertFail)"

lemmas layout_consts = K_CRC_SIZE_def K_LOG_RECORD_TYPE_SIZE_def K_MAX_LOG_RECORD_HEADER_SIZE_def
  K_MAX_VARINT32_LEN_def K_MAX_VARINT64_LEN_def

section \<open>Transaction numbers\<close>

lemma length_EncodeVarint64_le4: "unat t < 2 ^ 28 \<longleftrightarrow> length (EncodeVarint64 t) \<le> 4"
proof
  assume "unat t < 2 ^ 28"
  then show "length (EncodeVarint64 t) \<le> 4"
    using length_base128 [of "unat t" 3] by (simp add: EncodeVarint64_base128)
next
  assume le: "length (EncodeVarint64 t) \<le> 4"
  show "unat t < 2 ^ 28"
  proof (rule ccontr)
    assume "\<not> unat t < 2 ^ 28"
    then have "128 ^ 4 \<le> unat t" by simp
    from length_base128_ge [OF this] le show False by (simp add: EncodeVarint64_base128)
  qed
qed

lemma EncodeLogRecordWithTxnID_Return:
  "unat t < 2 ^ 28 \<Longrightarrow> EncodeLogRecordWithTxnID key t = Return (EncodeVarint64 t @ cstr key)"
  using length_EncodeVarint64_le4 [of t] by (simp add: EncodeLogRecordWithTxnID_def layout_consts Let_def)

lemma EncodeLogRecordWithTxnID_Fault:
  "2 ^ 28 \<le> unat t \<Longrightarrow> EncodeLogRecordWithTxnID key t = Fault OutOfBounds"
  using length_EncodeVarint64_le4 [of t] by (simp add: EncodeLogRecordWithTxnID_def layout_consts Let_def)

lemma DecodeLogRecordWithTxnID_enc:
  assumes "unat t < 2 ^ 31"
  shows "DecodeLogRecordWithTxnID (EncodeVarint64 t @ key) = Return (key, t)"
  using DecodeVarint64_EncodeVarint64 [OF assms, of "key @ [0]"]
  by (simp add: DecodeLogRecordWithTxnID_def)

section \<open>Positions\<close>

lemma position_roundtrip:
  assumes "unat (offset pst) < 2 ^ 31"
  shows "EncodeLogRecordPosition pst = Return (EncodeVarint32 (fid pst) @ EncodeVarint64 (offset pst))"
    and "DecodeLogRecordPosition (EncodeVarint32 (fid pst) @ EncodeVarint64 (offset pst)) = Return pst"
proof -
  have "length (EncodeVarint64 (offset pst)) \<le> 5"
    using assms length_base128 [of "unat (offset pst)" 4] by (simp add: EncodeVarint64_base128)
  then show "EncodeLogRecordPosition pst = Return (EncodeVarint32 (fid pst) @ EncodeVarint64 (offset pst))"
    using length_EncodeVarint32 [of "fid pst"] by (simp add: EncodeLogRecordPosition_def layout_consts)
  show "DecodeLogRecordPosition (EncodeVarint32 (fid pst) @ EncodeVarint64 (offset pst)) = Return pst"
    using DecodeVarint32_EncodeVarint32 [of "fid pst" "EncodeVarint64 (offset pst) @ [0]"]
      DecodeVarint64_EncodeVarint64 [OF assms, of "[0]"]
    by (simp add: DecodeLogRecordPosition_def)
qed

section \<open>Headers\<close>

abbreviation header_len :: "LogRecord \<Rightarrow> nat" where
  "header_len lr \<equiv> K_CRC_SIZE + length (header_rest lr)"

lemma header_len_bounds: "7 \<le> header_len lr" "header_len lr \<le> K_MAX_LOG_RECORD_HEADER_SIZE"
proof -
  have "EncodeVarint32 v \<noteq> []" for v by simp
  then have "1 \<le> length (EncodeVarint32 v)" for v
    by (simp add: Suc_le_eq)
  note this [of "word_of_nat (length (lr_key lr))"] this [of "word_of_nat (length (lr_value lr))"]
  then show "7 \<le> header_len lr" by (simp add: header_rest_def layout_consts)
  show "header_len lr \<le> K_MAX_LOG_RECORD_HEADER_SIZE"
    using length_EncodeVarint32 [of "word_of_nat (length (lr_key lr))"]
      length_EncodeVarint32 [of "word_of_nat (length (lr_value lr))"]
    by (simp add: header_rest_def layout_consts)
qed

lemma length_EncodeFixed32 [simp]: "length (EncodeFixed32 v) = K_CRC_SIZE"
  by (simp add: EncodeFixed32_def layout_consts)

lemma length_EncodeLogRecord:
  "lr_key lr \<noteq> [] \<Longrightarrow>
   length (EncodeLogRecord crc lr) = header_len lr + length (lr_key lr) + length (lr_value lr)"
  by (simp add: EncodeLogRecord_def Let_def)

lemma DecodeLogRecordHeader_prefix:
  "DecodeLogRecordHeader (EncodeFixed32 c @ header_rest lr @ rest) =
     Return (\<lparr>hdr_crc = c, record_type = lr_type lr, key_size = word_of_nat (length (lr_key lr)),
              value_size = word_of_nat (length (lr_value lr))\<rparr>, header_len lr)"
proof -
  let ?k = "EncodeVarint32 (word_of_nat (length (lr_key lr)))"
  let ?v = "EncodeVarint32 (word_of_nat (length (lr_value lr)))"
  have nth: "(EncodeFixed32 c @ lr_type lr # xs) ! K_CRC_SIZE = lr_type lr" for xs
    by (simp add: nth_append)
  have d5: "drop (K_CRC_SIZE + K_LOG_RECORD_TYPE_SIZE + n) (EncodeFixed32 c @ lr_type lr # xs) = drop n xs" for n xs
  proof -
    have "drop (5 + n) ys = drop n (drop 5 ys)" for ys :: bytes by (simp add: add.commute)
    then show ?thesis by (simp only: layout_consts) (simp add: EncodeFixed32_def del: drop_drop)
  qed
  note d0 = d5 [of 0, simplified]
  show ?thesis
    using DecodeVarint32_EncodeVarint32 [of "word_of_nat (length (lr_key lr))" "?v @ rest @ [0]"]
      DecodeVarint32_EncodeVarint32 [of "word_of_nat (length (lr_value lr))" "rest @ [0]"]
      DecodeFixed32_EncodeFixed32 [of c "header_rest lr @ rest"]
    by (simp add: DecodeLogRecordHeader_def header_rest_def Let_def nth [unfolded layout_consts]
        d5 [unfolded layout_consts] d0 [unfolded layout_consts] layout_consts)
qed

section \<open>Properties\<close>

text \<open>A checksum with the extension law, to instantiate the parameter in examples.\<close>

definition sum_crc :: crc_fun where
  "sum_crc c bs = foldl (\<lambda>a b. a + ucast b) c bs"

lemma sum_crc_extends: "crc_extends sum_crc"
  by (simp add: crc_extends_def sum_crc_def)

text \<open>C28. Prefixing a key with its transaction number overruns the four-byte buffer exactly
  when the number is at least \<open>2 ^ 28\<close>; below, decoding gives back the key, up to its first
  NUL byte, and the number.\<close>

theorem txn_key_roundtrip:
  "if unat t < 2 ^ 28
   then \<exists>k. EncodeLogRecordWithTxnID key t = Return k \<and> DecodeLogRecordWithTxnID k = Return (cstr key, t)
   else EncodeLogRecordWithTxnID key t = Fault OutOfBounds"
  using EncodeLogRecordWithTxnID_Return [of t key] EncodeLogRecordWithTxnID_Fault [of t key]
    DecodeLogRecordWithTxnID_enc [of t "cstr key"] by auto

text \<open>The position of a record survives being stored in the hint file, as long as its offset is
  below \<open>2 ^ 31\<close>.\<close>

theorem position_codec:
  assumes "unat (offset pst) < 2 ^ 31"
  shows "\<exists>bs. EncodeLogRecordPosition pst = Return bs \<and> DecodeLogRecordPosition bs = Return pst"
  using position_roundtrip [OF assms] by blast

theorem position_codec_witness:
  "\<exists>bs. EncodeLogRecordPosition \<lparr>fid = 7, offset = 300\<rparr> = Return bs
      \<and> DecodeLogRecordPosition bs = Return \<lparr>fid = 7, offset = 300\<rparr>"
  by (rule position_codec) simp

end
