(* ===== verification/Str_Utils.thy ===== *)
theory Str_Utils
  imports Prelude
begin

text \<open>
  \<^verbatim>\<open>common/string_utils.cpp\<close>, \<^verbatim>\<open>common/format.h\<close> and the path helper of
  \<^verbatim>\<open>utils/os_utils.h\<close>, with the functions of the C++ string library they call:
  \<open>find\<close>, \<open>substr\<close>, \<open>std::to_string\<close> and \<open>std::stoi\<close>. The string utilities do
  not look at the characters they move, so they are stated for lists of any type.
\<close>

section \<open>The string library\<close>

text \<open>\<open>s.find(d)\<close>: the first position where \<open>d\<close> occurs; \<open>None\<close> is \<open>npos\<close>.\<close>

fun find_sub :: "'a list \<Rightarrow> 'a list \<Rightarrow> nat option" where
  "find_sub [] d = (if d = [] then Some 0 else None)"
| "find_sub (x # s) d =
     (if take (length d) (x # s) = d then Some 0 else map_option Suc (find_sub s d))"

definition find_from :: "'a list \<Rightarrow> 'a list \<Rightarrow> nat \<Rightarrow> nat option" where
  "find_from s d pos =
     (if pos \<le> length s then map_option ((+) pos) (find_sub (drop pos s) d) else None)"

text \<open>\<open>std::to_string\<close> of an unsigned number and \<open>std::stoi\<close>.\<close>

definition digit :: "nat \<Rightarrow> char" where
  "digit n = char_of (48 + n)"

fun to_string :: "nat \<Rightarrow> string" where
  "to_string n = (if n < 10 then [digit n] else to_string (n div 10) @ [digit (n mod 10)])"

declare to_string.simps [simp del]

definition int_str :: "int \<Rightarrow> string" where
  "int_str i = (if i < 0 then CHR ''-'' # to_string (nat (- i)) else to_string (nat i))"

definition isdigit :: "char \<Rightarrow> bool" where
  "isdigit c \<longleftrightarrow> 48 \<le> (of_char c :: nat) \<and> (of_char c :: nat) \<le> 57"

definition isspace :: "char \<Rightarrow> bool" where
  "isspace c \<longleftrightarrow> of_char c = (32 :: nat) \<or> 9 \<le> (of_char c :: nat) \<and> (of_char c :: nat) \<le> 13"

definition digit_val :: "char \<Rightarrow> nat" where
  "digit_val c = of_char c - 48"

definition dec_val :: "string \<Rightarrow> nat" where
  "dec_val s = foldl (\<lambda>n c. 10 * n + digit_val c) 0 s"

text \<open>The longest numeric prefix, as \<open>strtol\<close> reads it: sign and digits.\<close>

definition strtol :: "string \<Rightarrow> (int \<times> nat) option" where
  "strtol s =
     (let t = dropWhile isspace s;
          neg = (t \<noteq> [] \<and> hd t = CHR ''-'');
          u = (if t \<noteq> [] \<and> (hd t = CHR ''-'' \<or> hd t = CHR ''+'') then tl t else t);
          ds = takeWhile isdigit u
      in if ds = [] then None
         else Some (if neg then - int (dec_val ds) else int (dec_val ds),
                    length s - length u + length ds))"

text \<open>\<open>std::stoi\<close> throws \<open>invalid_argument\<close> without a number and \<open>out_of_range\<close>.\<close>

definition stoi :: "string \<Rightarrow> int outcome" where
  "stoi s = (case strtol s of None \<Rightarrow> Fault Uncaught
     | Some (n, _) \<Rightarrow> if - (2 ^ 31) \<le> n \<and> n < 2 ^ 31 then Return n else Fault Uncaught)"

section \<open>\<open>bitdb::String\<close>\<close>

fun Join_rest :: "'a list list \<Rightarrow> 'a list \<Rightarrow> 'a list" where
  "Join_rest [] delim = []"
| "Join_rest (p # parts) delim = delim @ p @ Join_rest parts delim"

definition Join :: "'a list list \<Rightarrow> 'a list \<Rightarrow> 'a list" where
  "Join parts delim =
     (if sum_list (map (\<lambda>item. length item + length delim) parts) = 0 then []
      else case parts of [] \<Rightarrow> [] | p # ps \<Rightarrow> p @ Join_rest ps delim)"

definition StartsWith :: "'a list \<Rightarrow> 'a list \<Rightarrow> bool" where
  "StartsWith s prfx \<longleftrightarrow> length s \<ge> length prfx \<and> take (length prfx) s = prfx"

definition EndsWith :: "'a list \<Rightarrow> 'a list \<Rightarrow> bool" where
  "EndsWith s sfx \<longleftrightarrow> length s \<ge> length sfx \<and> drop (length s - length sfx) s = sfx"

fun Replace_loop :: "'a list \<Rightarrow> 'a list \<Rightarrow> 'a list \<Rightarrow> nat option \<Rightarrow> nat \<Rightarrow> 'a list" where
  "Replace_loop target from to None count = target"
| "Replace_loop target from to (Some p) 0 = target"
| "Replace_loop target from to (Some p) (Suc count) =
     (let target' = take p target @ to @ drop (p + length from) target
      in Replace_loop target' from to (find_from target' from (p + length to)) count)"

definition Replace :: "'a list \<Rightarrow> 'a list \<Rightarrow> 'a list \<Rightarrow> nat \<Rightarrow> 'a list" where
  "Replace target from to count = Replace_loop target from to (find_sub target from) count"

definition find_first_not_of :: "'a list \<Rightarrow> 'a \<Rightarrow> nat option" where
  "find_first_not_of s c =
     (if list_all ((=) c) s then None else Some (length (takeWhile ((=) c) s)))"

definition find_last_not_of :: "'a list \<Rightarrow> 'a \<Rightarrow> nat option" where
  "find_last_not_of s c =
     (if list_all ((=) c) s then None else Some (length s - 1 - length (takeWhile ((=) c) (rev s))))"

definition Trim :: "string \<Rightarrow> string" where
  "Trim s =
     (if s = [] then []
      else let start = (if hd s = CHR '' '' then find_first_not_of s CHR '' '' else Some 0)
           in case start of None \<Rightarrow> []
              | Some st \<Rightarrow>
                  let e = (if last s = CHR '' '' then the (find_last_not_of s CHR '' '') else length s)
                  in take (e - st + 1) (drop st s))"

text \<open>
  The loop of \<open>Split\<close> for a delimiter \<open>d # ds\<close>. With an empty delimiter \<open>find\<close>
  returns 0 for ever, so \<open>Split\<close> does not return then (unless the string is empty).
\<close>

lemma find_sub_bound: "find_sub s d = Some p \<Longrightarrow> p + length d \<le> length s"
proof (induction s d arbitrary: p rule: find_sub.induct)
  case (1 d)
  then show ?case by (simp split: if_splits)
next
  case (2 x s d)
  then show ?case
    by (auto split: if_splits) (metis length_take length_Cons min.cobounded1)
qed

function Split_loop :: "'a list \<Rightarrow> 'a \<Rightarrow> 'a list \<Rightarrow> bool \<Rightarrow> 'a list list" where
  "Split_loop current d ds keep_empty =
     (case find_sub current (d # ds) of
        None \<Rightarrow> [current]
      | Some pos \<Rightarrow>
          (if pos \<noteq> 0 \<or> keep_empty then [take pos current] else []) @
          (let rest = drop (pos + length (d # ds)) current
           in if rest = [] then (if keep_empty then [[]] else [])
              else Split_loop rest d ds keep_empty))"
  by pat_completeness auto
termination
  by (relation "measure (\<lambda>(c, d, ds, k). length c)") (auto dest: find_sub_bound)

declare Split_loop.simps [simp del]

definition Split :: "'a list \<Rightarrow> 'a list \<Rightarrow> bool \<Rightarrow> 'a list list outcome" where
  "Split s delim keep_empty =
     (if s = [] then Return []
      else case delim of [] \<Rightarrow> Fault Stuck | d # ds \<Rightarrow> Return (Split_loop s d ds keep_empty))"

definition Contains :: "'a list \<Rightarrow> 'a list \<Rightarrow> bool" where
  "Contains s target =
     (if s = target then True else if s = [] then False else if target = [] then True
      else find_sub s target \<noteq> None)"

section \<open>\<open>bitdb::Format\<close>\<close>

text \<open>The arguments are the texts \<open>operator<<\<close> prints for them.\<close>

definition FormatHelper :: "string \<times> string \<Rightarrow> string \<Rightarrow> string \<times> string" where
  "FormatHelper = (\<lambda>(oss, s) value.
     case find_sub s ''{'' of None \<Rightarrow> (oss, s)
     | Some op \<Rightarrow> (case find_from s ''}'' (op + 1) of None \<Rightarrow> (oss, s)
        | Some cl \<Rightarrow> (oss @ take op s @ value, drop (cl + 1) s)))"

definition Format :: "string \<Rightarrow> string list \<Rightarrow> string" where
  "Format s args = (let (oss, r) = foldl FormatHelper ([], s) args in oss @ r)"

definition PathBase :: "string \<Rightarrow> string" where
  "PathBase full_path =
     (if CHR ''/'' \<in> set full_path then rev (takeWhile (\<lambda>c. c \<noteq> CHR ''/'') (rev full_path))
      else full_path)"

section \<open>\<open>find\<close>\<close>

lemma find_sub_Some: "find_sub s d = Some p \<Longrightarrow> s = take p s @ d @ drop (p + length d) s"
proof (induction s d arbitrary: p rule: find_sub.induct)
  case (1 d)
  then show ?case by (simp split: if_splits)
next
  case (2 x s d)
  show ?case
  proof (cases "take (length d) (x # s) = d")
    case True
    with "2.prems" have "p = 0" by simp
    with True show ?thesis by (metis add_0 append_Nil append_take_drop_id take0)
  next
    case False
    with "2.prems" obtain q where "find_sub s d = Some q" and "p = Suc q" by auto
    with "2.IH" [OF False] show ?thesis by simp
  qed
qed

lemma find_sub_None: "find_sub s d = None \<longleftrightarrow> (\<nexists>p. p + length d \<le> length s \<and> take (length d) (drop p s) = d)"
proof (induction s d rule: find_sub.induct)
  case (1 d)
  then show ?case by auto
next
  case (2 x s d)
  show ?case
  proof (cases "take (length d) (x # s) = d")
    case True
    then have "length d \<le> length (x # s)"
      by (metis length_take min.cobounded1)
    with True show ?thesis by (auto intro!: exI [of _ 0])
  next
    case False
    have "(\<exists>p. p + length d \<le> length (x # s) \<and> take (length d) (drop p (x # s)) = d)
      \<longleftrightarrow> (\<exists>p. p + length d \<le> length s \<and> take (length d) (drop p s) = d)"
    proof (intro iffI; elim exE conjE)
      fix p assume "p + length d \<le> length (x # s)" "take (length d) (drop p (x # s)) = d"
      with False show "\<exists>p. p + length d \<le> length s \<and> take (length d) (drop p s) = d"
        by (cases p) auto
    next
      fix p assume "p + length d \<le> length s" "take (length d) (drop p s) = d"
      then show "\<exists>p. p + length d \<le> length (x # s) \<and> take (length d) (drop p (x # s)) = d"
        by (intro exI [of _ "Suc p"]) simp
    qed
    with False "2.IH" show ?thesis by auto
  qed
qed

section \<open>\<open>Split\<close> and \<open>Join\<close>\<close>

lemma Split_loop_nonempty: "Split_loop s d ds True \<noteq> []"
  by (subst Split_loop.simps) (simp add: Let_def split: option.splits)

lemma Join_Cons:
  "delim \<noteq> [] \<Longrightarrow> Join (p # parts) delim = p @ Join_rest parts delim"
  by (simp add: Join_def)

lemma Join_rest_nonempty: "parts \<noteq> [] \<Longrightarrow> delim \<noteq> [] \<Longrightarrow> Join_rest parts delim = delim @ Join parts delim"
  by (cases parts) (simp_all add: Join_Cons)

lemma Join_Split_loop: "Join (Split_loop s d ds True) (d # ds) = s"
proof (induction s d ds True rule: Split_loop.induct)
  case (1 s d ds)
  show ?case
  proof (cases "find_sub s (d # ds)")
    case None
    then show ?thesis by (simp add: Split_loop.simps [of s] Join_Cons)
  next
    case (Some pos)
    let ?rest = "drop (pos + length (d # ds)) s"
    have s: "s = take pos s @ (d # ds) @ ?rest" by (rule find_sub_Some [OF Some])
    show ?thesis
    proof (cases "?rest = []")
      case True
      with s Some show ?thesis
        by (simp add: Split_loop.simps [of s] Join_Cons)
    next
      case False
      have "Join (Split_loop ?rest d ds True) (d # ds) = ?rest"
        using "1" [OF Some refl False] .
      then have "Join (Split_loop s d ds True) (d # ds) = take pos s @ (d # ds) @ ?rest"
        using Some False
        by (simp add: Split_loop.simps [of s] Join_Cons Join_rest_nonempty Split_loop_nonempty)
      then show ?thesis using s by simp
    qed
  qed
qed

section \<open>Numbers in decimal\<close>

lemma of_char_digit [simp]: "n < 10 \<Longrightarrow> of_char (digit n) = 48 + n"
  by (simp add: digit_def)

lemma isdigit_digit [simp]: "n < 10 \<Longrightarrow> isdigit (digit n)"
  by (simp add: isdigit_def)

lemma digit_val_digit [simp]: "n < 10 \<Longrightarrow> digit_val (digit n) = n"
  by (simp add: digit_val_def)

lemma dec_val_snoc: "dec_val (s @ [c]) = 10 * dec_val s + digit_val c"
  by (simp add: dec_val_def)

lemma to_string_digits: "list_all isdigit (to_string n)"
  by (induction n rule: to_string.induct) (subst to_string.simps, simp)

lemma to_string_nonempty [simp]: "to_string n \<noteq> []"
  by (subst to_string.simps) simp

lemma dec_val_to_string [simp]: "dec_val (to_string n) = n"
proof (induction n rule: to_string.induct)
  case (1 n)
  then show ?case
    by (subst to_string.simps) (auto simp: dec_val_snoc dec_val_def)
qed

lemma to_string_inject [simp]: "to_string m = to_string n \<longleftrightarrow> m = n"
  by (metis dec_val_to_string)

lemma digit_not_space: "isdigit c \<Longrightarrow> \<not> isspace c"
  by (auto simp: isdigit_def isspace_def)

lemma digit_not_sign: "isdigit c \<Longrightarrow> c \<noteq> CHR ''-'' \<and> c \<noteq> CHR ''+''"
  by (auto simp: isdigit_def)

lemma stoi_digits:
  assumes "list_all isdigit ds" "ds \<noteq> []" "r = [] \<or> \<not> isdigit (hd r)" "dec_val ds < 2 ^ 31"
  shows "stoi (ds @ r) = Return (int (dec_val ds))"
proof -
  obtain c cs where ds: "ds = c # cs" using assms(2) by (cases ds) auto
  have c: "isdigit c" using assms(1) ds by simp
  have "dropWhile isspace (ds @ r) = ds @ r" using c ds by (simp add: digit_not_space)
  moreover have "takeWhile isdigit (ds @ r) = ds"
    using assms(1,3) by (cases r) (simp_all add: takeWhile_append2 list_all_iff)
  ultimately show ?thesis
    using c ds digit_not_sign [OF c] assms(4) by (simp add: stoi_def strtol_def Let_def)
qed

lemma stoi_to_string: "n < 2 ^ 31 \<Longrightarrow> stoi (to_string n) = Return (int n)"
  using stoi_digits [of "to_string n" "[]"] by (simp add: to_string_digits)

section \<open>\<open>Trim\<close>, prefixes, suffixes and formats\<close>

lemma EndsWith_iff: "EndsWith s sfx \<longleftrightarrow> (\<exists>t. s = t @ sfx)"
  unfolding EndsWith_def
  by (metis append_eq_conv_conj append_take_drop_id diff_diff_cancel length_append length_drop
      add_diff_cancel_right' le_add2)

lemma StartsWith_iff: "StartsWith s prfx \<longleftrightarrow> (\<exists>t. s = prfx @ t)"
  unfolding StartsWith_def by (metis append_eq_conv_conj append_take_drop_id length_append le_add1)

lemma Format_path2: "Format ''{}/{}'' [a, b] = a @ ''/'' @ b"
  by (simp add: Format_def FormatHelper_def find_from_def)

lemma Format_path3: "Format ''{}/{}{}'' [a, b, c] = a @ ''/'' @ b @ c"
  by (simp add: Format_def FormatHelper_def find_from_def)

section \<open>Properties\<close>

text \<open>Splitting a string at a non-empty delimiter with empty pieces kept, and joining the
  pieces with the same delimiter, gives the string back.\<close>

theorem Join_Split:
  assumes "delim \<noteq> []"
  shows "\<exists>pieces. Split s delim True = Return pieces \<and> Join pieces delim = s"
proof (cases "s = []")
  case True
  then show ?thesis by (simp add: Split_def Join_def)
next
  case False
  obtain d dl where d: "delim = d # dl" using assms by (cases delim) auto
  then have "Split s delim True = Return (Split_loop s d dl True)" using False by (simp add: Split_def)
  then show ?thesis using Join_Split_loop [of s d dl] d by blast
qed

theorem Join_Split_witness: "\<exists>pieces. Split ''a.b..c'' ''.'' True = Return pieces \<and> Join pieces ''.'' = ''a.b..c''"
  by (rule Join_Split) simp

end
