(* ===== verification/Status.thy ===== *)
theory Status
  imports Prelude Str_Utils
begin

text \<open>
  \<^verbatim>\<open>status.h\<close> and \<^verbatim>\<open>status.cpp\<close>: the result of every operation of the storage
  engine. The engine's own definitions carry the code only; the text of a status is
  for a reader and no operation branches on it.
\<close>

section \<open>Definitions\<close>

datatype StatusCode =
    kOk | kNotFound | kCorruption | kInvalidArgument | kNotSupported | kIOError
  | kInternalError | kCheckError

record Status =
  code :: StatusCode
  state :: string

definition Status_init :: "StatusCode \<Rightarrow> string \<Rightarrow> string \<Rightarrow> Status" where
  "Status_init c msg msg2 =
     \<lparr>code = c, state = (if msg2 \<noteq> [] then msg @ '': '' @ msg2 else msg)\<rparr>"

definition Status_Ok :: Status where
  "Status_Ok = \<lparr>code = kOk, state = []\<rparr>"

fun CodeToString :: "StatusCode \<Rightarrow> string" where
  "CodeToString kOk = ''Ok: ''"
| "CodeToString kNotFound = ''Not Found: ''"
| "CodeToString kCorruption = ''Corruption: ''"
| "CodeToString kInvalidArgument = ''Invalid argument: ''"
| "CodeToString kNotSupported = ''Not implemented: ''"
| "CodeToString kIOError = ''IO error: ''"
| "CodeToString kInternalError = ''Internal Error in system: ''"
| "CodeToString kCheckError = ''Check failed: ''"

definition Status_ToString :: "Status \<Rightarrow> string" where
  "Status_ToString s = (if state s = [] then ''OK'' else CodeToString (code s) @ state s)"

text \<open>
  \<open>GetDebugStr\<close> builds its string from \<open>str.data()\<close>. The default argument is an
  empty view with a null pointer (\<open>None\<close> here), from which \<open>std::string\<close> cannot be
  built: the library throws \<open>std::logic_error\<close>.
\<close>

definition GetDebugStr :: "string option \<Rightarrow> string outcome" where
  "GetDebugStr s = (case s of None \<Rightarrow> Fault Uncaught | Some m \<Rightarrow> Return m)"

text \<open>
  An operation that returns a \<open>Status\<close> and stores a result through a pointer. It
  runs on a state. It ends with an ok status and the stored value, with an error
  status, or not at all (undefined behaviour, an exception nobody catches, \<open>exit\<close>);
  in each case the state carries what it has done so far.
\<close>

datatype 'a result = Ok 'a | Err StatusCode | Crash fault

type_synonym ('s, 'a) cmd = "'s \<Rightarrow> 'a result \<times> 's"

definition ok :: "'a \<Rightarrow> ('s, 'a) cmd" where
  "ok a s = (Ok a, s)"

definition err :: "StatusCode \<Rightarrow> ('s, 'a) cmd" where
  "err c s = (Err c, s)"

definition crash :: "fault \<Rightarrow> ('s, 'a) cmd" where
  "crash f s = (Crash f, s)"

definition run_outcome :: "'a outcome \<Rightarrow> ('s, 'a) cmd" where
  "run_outcome m = (case m of Return a \<Rightarrow> ok a | Fault f \<Rightarrow> crash f)"

definition update_state :: "('s \<Rightarrow> 's) \<Rightarrow> ('s, unit) cmd" where
  "update_state f s = (Ok (), f s)"

text \<open>\<open>CHECK_OK(expression)\<close> followed by the rest of the function.\<close>

definition CHECK_OK :: "('s, 'a) cmd \<Rightarrow> ('a \<Rightarrow> ('s, 'b) cmd) \<Rightarrow> ('s, 'b) cmd" where
  "CHECK_OK m k s =
     (case m s of (Ok a, s') \<Rightarrow> k a s' | (Err c, s') \<Rightarrow> (Err c, s') | (Crash f, s') \<Rightarrow> (Crash f, s'))"

text \<open>\<open>CHECK_TRUE(expression, msg)\<close>; the message is optional in the source.\<close>

definition CHECK_TRUE :: "bool \<Rightarrow> string option \<Rightarrow> ('s, 'b) cmd \<Rightarrow> ('s, 'b) cmd" where
  "CHECK_TRUE b msg k =
     (if b then k else CHECK_OK (run_outcome (GetDebugStr msg)) (\<lambda>m. err kCheckError))"

text \<open>A command of a part of the state, given how to read and to write that part.\<close>

definition zoom :: "('s \<Rightarrow> 't) \<Rightarrow> ('t \<Rightarrow> 's \<Rightarrow> 's) \<Rightarrow> ('t, 'a) cmd \<Rightarrow> ('s, 'a) cmd" where
  "zoom get put m s = (let (r, t) = m (get s) in (r, put t s))"

section \<open>Lemmas\<close>

lemma CHECK_OK_simps [simp]:
  "CHECK_OK (ok a) k = k a"
  "CHECK_OK (err c) k = err c"
  "CHECK_OK (crash f) k = crash f"
  by (simp_all add: CHECK_OK_def ok_def err_def crash_def fun_eq_iff)

lemma run_outcome_simps [simp]:
  "run_outcome (Return a) = ok a"
  "run_outcome (Fault f) = crash f"
  by (simp_all add: run_outcome_def)

lemma CHECK_TRUE_simps [simp]:
  "CHECK_TRUE True msg k = k"
  "CHECK_TRUE False None k = crash Uncaught"
  "CHECK_TRUE False (Some m) k = err kCheckError"
  by (simp_all add: CHECK_TRUE_def GetDebugStr_def)

lemma CHECK_OK_Ok: "m s = (Ok a, s') \<Longrightarrow> CHECK_OK m k s = k a s'"
  by (simp add: CHECK_OK_def)

lemma CHECK_OK_Err: "m s = (Err c, s') \<Longrightarrow> CHECK_OK m k s = (Err c, s')"
  by (simp add: CHECK_OK_def)

lemma CHECK_OK_Crash: "m s = (Crash f, s') \<Longrightarrow> CHECK_OK m k s = (Crash f, s')"
  by (simp add: CHECK_OK_def)

lemma CHECK_OK_eq_Ok:
  "CHECK_OK m k s = (Ok b, s') \<longleftrightarrow> (\<exists>a t. m s = (Ok a, t) \<and> k a t = (Ok b, s'))"
  by (auto simp: CHECK_OK_def split: result.splits prod.splits)

lemma CHECK_OK_assoc: "CHECK_OK (CHECK_OK m f) g = CHECK_OK m (\<lambda>a. CHECK_OK (f a) g)"
  by (rule ext) (auto simp: CHECK_OK_def split: result.splits prod.splits)

lemma zoom_simps [simp]:
  "zoom get put (ok a) s = (Ok a, put (get s) s)"
  "zoom get put (err c) s = (Err c, put (get s) s)"
  "zoom get put (crash f) s = (Crash f, put (get s) s)"
  by (simp_all add: zoom_def ok_def err_def crash_def)

lemma zoom_eq: "m (get s) = (r, t) \<Longrightarrow> zoom get put m s = (r, put t s)"
  by (simp add: zoom_def)

end
