(* ===== verification/File_IO.thy ===== *)
theory File_IO
  imports Status "HOL-Library.AList"
begin

text \<open>
  \<^verbatim>\<open>io/file_io.h\<close>, \<^verbatim>\<open>io/file_io.cpp\<close>, \<^verbatim>\<open>io/io_interface.cpp\<close> and
  \<^verbatim>\<open>utils/os_utils.h\<close> over a model of the POSIX calls they make.

  The world holds the regular files (path and content), the directories, the order
  in which \<open>readdir\<close> lists the names of a directory, and what the coming \<open>write\<close>
  and \<open>fsync\<close> calls return: an empty script means that every call succeeds in full, a
  negative entry is a failed call, and a small entry of the write script is a short
  write. A path is the string the sources build; its directory is what stands before
  the last slash. An open file is named by its path: no operation renames or removes a file
  while it has it open.
\<close>

section \<open>The POSIX calls\<close>

record world =
  files :: "(string \<times> bytes) list"
  dirs :: "string list"
  dir_order :: "string list \<Rightarrow> string list"
  wr_script :: "int list"
  sync_script :: "int list"

definition content :: "world \<Rightarrow> string \<Rightarrow> bytes option" where
  "content w p = map_of (files w) p"

definition set_content :: "string \<Rightarrow> bytes \<Rightarrow> world \<Rightarrow> world" where
  "set_content p c w = w\<lparr>files := AList.update p c (files w)\<rparr>"

definition dirname :: "string \<Rightarrow> string" where
  "dirname p = rev (drop 1 (dropWhile (\<lambda>c. c \<noteq> CHR ''/'') (rev p)))"

definition basename :: "string \<Rightarrow> string" where
  "basename p = rev (takeWhile (\<lambda>c. c \<noteq> CHR ''/'') (rev p))"

text \<open>\<open>open(p, O_CREAT | O_RDWR | O_APPEND)\<close>: the file is there afterwards if its directory is.\<close>

definition open_create :: "string \<Rightarrow> world \<Rightarrow> world" where
  "open_create p w =
     (if content w p \<noteq> None then w
      else if dirname p \<in> set (dirs w) then w\<lparr>files := files w @ [(p, [])]\<rparr> else w)"

definition unlink :: "string \<Rightarrow> world \<Rightarrow> int \<times> world" where
  "unlink p w =
     (if content w p = None then (-1, w) else (0, w\<lparr>files := AList.delete p (files w)\<rparr>))"

text \<open>\<open>rename\<close> of a regular file; renaming \<open>.\<close> or \<open>..\<close> of a directory fails.\<close>

definition rename :: "string \<Rightarrow> string \<Rightarrow> world \<Rightarrow> int \<times> world" where
  "rename src dst w =
     (case content w src of None \<Rightarrow> (-1, w)
      | Some c \<Rightarrow> (0, w\<lparr>files := AList.update dst c (AList.delete src (files w))\<rparr>))"

definition mkdir :: "string \<Rightarrow> world \<Rightarrow> int \<times> world" where
  "mkdir d w = (if dirname d \<in> set (dirs w) then (0, w\<lparr>dirs := dirs w @ [d]\<rparr>) else (-1, w))"

definition subnames :: "string \<Rightarrow> string list \<Rightarrow> string list" where
  "subnames d ps = map basename (filter (\<lambda>p. dirname p = d) ps)"

text \<open>\<open>opendir\<close> and the loop of \<open>readdir\<close>: \<open>None\<close> when the directory cannot be opened.\<close>

definition readdir :: "string \<Rightarrow> world \<Rightarrow> string list option" where
  "readdir d w =
     (if d \<in> set (dirs w)
      then Some (dir_order w (''.'' # ''..'' # subnames d (map fst (files w)) @ subnames d (dirs w)))
      else None)"

definition rmdir :: "string \<Rightarrow> world \<Rightarrow> int \<times> world" where
  "rmdir d w =
     (if d \<in> set (dirs w) \<and> subnames d (map fst (files w)) = [] \<and> subnames d (dirs w) = []
      then (0, w\<lparr>dirs := removeAll d (dirs w)\<rparr>) else (-1, w))"

section \<open>\<open>bitdb::io::FileIO\<close>\<close>

text \<open>\<open>Read\<close>: the result and the bytes \<open>pread\<close> stored. The results of \<open>Read\<close> and \<open>Write\<close> are converted to \<open>int\<close>.\<close>

definition FileIO_Read :: "string \<Rightarrow> nat \<Rightarrow> nat \<Rightarrow> world \<Rightarrow> int \<times> bytes" where
  "FileIO_Read p count ofs w =
     (case content w p of None \<Rightarrow> (-1, [])
      | Some c \<Rightarrow> let bs = take count (drop ofs c) in (as_int (length bs), bs))"

definition FileIO_Write :: "string \<Rightarrow> bytes \<Rightarrow> world \<Rightarrow> int \<times> world" where
  "FileIO_Write p bs w =
     (case content w p of None \<Rightarrow> (-1, w)
      | Some c \<Rightarrow>
         (case wr_script w of [] \<Rightarrow> (as_int (length bs), set_content p (c @ bs) w)
          | r # rs \<Rightarrow>
             (if r < 0 then (-1, w\<lparr>wr_script := rs\<rparr>)
              else let n = min (nat r) (length bs)
                   in (as_int n, set_content p (c @ take n bs) (w\<lparr>wr_script := rs\<rparr>)))))"

definition FileIO_Sync :: "string \<Rightarrow> world \<Rightarrow> int \<times> world" where
  "FileIO_Sync p w =
     (case content w p of None \<Rightarrow> (-1, w)
      | Some c \<Rightarrow> (case sync_script w of [] \<Rightarrow> (0, w) | r # rs \<Rightarrow> (r, w\<lparr>sync_script := rs\<rparr>)))"

definition FileIO_Size :: "string \<Rightarrow> world \<Rightarrow> nat" where
  "FileIO_Size p w = (case content w p of None \<Rightarrow> 0 | Some c \<Rightarrow> length c)"

definition NewIOHandler :: "string \<Rightarrow> world \<Rightarrow> string \<times> world" where
  "NewIOHandler file_name w = (file_name, open_create file_name w)"

section \<open>\<open>utils/os_utils.h\<close>\<close>

definition CheckOrCreateDirectory :: "string \<Rightarrow> world \<Rightarrow> bool \<times> world" where
  "CheckOrCreateDirectory dir_path w =
     (if dir_path \<in> set (dirs w) then (True, w)
      else if content w dir_path \<noteq> None then (False, w)
      else let (r, w') = mkdir dir_path w in (r = 0, w'))"

definition IsFileExist :: "string \<Rightarrow> world \<Rightarrow> bool" where
  "IsFileExist p w \<longleftrightarrow> content w p \<noteq> None \<or> p \<in> set (dirs w)"

text \<open>The environment variables are a parameter.\<close>

definition GetTempDir :: "(string \<Rightarrow> string option) \<Rightarrow> string" where
  "GetTempDir getenv =
     (case getenv ''TMPDIR'' of Some d \<Rightarrow> d
      | None \<Rightarrow> (case getenv ''TEMP'' of Some d \<Rightarrow> d
                | None \<Rightarrow> (case getenv ''TMP'' of Some d \<Rightarrow> d | None \<Rightarrow> ''/tmp/'')))"

definition RemoveFile :: "string \<Rightarrow> world \<Rightarrow> world outcome" where
  "RemoveFile file_name w =
     (let (r, w') = unlink file_name w in if r \<noteq> 0 then Fault ExitCall else Return w')"

text \<open>
  \<open>RemoveDir\<close> descends into subdirectories. Nested directories cannot be deeper
  than the number of directories, which bounds the recursion.
\<close>

fun RemoveDir_rec :: "nat \<Rightarrow> string \<Rightarrow> world \<Rightarrow> world outcome"
and RemoveDir_loop :: "nat \<Rightarrow> string \<Rightarrow> string list \<Rightarrow> world \<Rightarrow> world outcome" where
  "RemoveDir_rec 0 d w = Fault Stuck"
| "RemoveDir_rec (Suc depth) d w =
     (case readdir d w of None \<Rightarrow> Fault ExitCall
      | Some names \<Rightarrow>
         bind_outcome (RemoveDir_loop depth d names w) (\<lambda>w'.
           let (r, w'') = rmdir d w' in if r \<noteq> 0 then Fault ExitCall else Return w''))"
| "RemoveDir_loop depth d [] w = Return w"
| "RemoveDir_loop depth d (name # names) w =
     (if name = ''.'' \<or> name = ''..'' then RemoveDir_loop depth d names w
      else let full = Format ''{}/{}'' [d, name]
           in if \<not> IsFileExist full w then RemoveDir_loop depth d names w
              else bind_outcome
                     (if full \<in> set (dirs w) then RemoveDir_rec depth full w else RemoveFile full w)
                     (RemoveDir_loop depth d names))"

definition RemoveDir :: "string \<Rightarrow> world \<Rightarrow> world outcome" where
  "RemoveDir dir_name w = RemoveDir_rec (Suc (length (dirs w))) dir_name w"

section \<open>Lemmas\<close>

lemma content_set_content [fs_simps]: "content (set_content p c w) q = (if q = p then Some c else content w q)"
  by (simp add: content_def set_content_def update_conv')

lemma set_content_frame [simp]:
  "dirs (set_content p c w) = dirs w"
  "dir_order (set_content p c w) = dir_order w"
  "wr_script (set_content p c w) = wr_script w"
  "sync_script (set_content p c w) = sync_script w"
  by (simp_all add: set_content_def)

lemma content_frame [simp]:
  "content (w\<lparr>dirs := ds\<rparr>) p = content w p"
  "content (w\<lparr>wr_script := rs\<rparr>) p = content w p"
  "content (w\<lparr>sync_script := ss\<rparr>) p = content w p"
  by (simp_all add: content_def)

lemma content_open_create [fs_simps]:
  "content (open_create p w) q =
     (if q = p \<and> content w p = None \<and> dirname p \<in> set (dirs w) then Some [] else content w q)"
  by (auto simp: open_create_def content_def map_add_def split: option.splits)

lemma open_create_frame [simp]:
  "dirs (open_create p w) = dirs w"
  "dir_order (open_create p w) = dir_order w"
  "wr_script (open_create p w) = wr_script w"
  "sync_script (open_create p w) = sync_script w"
  by (simp_all add: open_create_def)

lemma dirname_path: "CHR ''/'' \<notin> set n \<Longrightarrow> dirname (d @ CHR ''/'' # n) = d"
  by (simp add: dirname_def dropWhile_append takeWhile_append)

lemma basename_path: "CHR ''/'' \<notin> set n \<Longrightarrow> basename (d @ CHR ''/'' # n) = n"
  by (simp add: basename_def takeWhile_append)

end
