(* ===== verification/Data_File.thy ===== *)
theory Data_File
  imports Log_Record File_IO
begin

text \<open>
  \<^verbatim>\<open>data/data_file.h\<close> and \<^verbatim>\<open>data/data_file.cpp\<close>: the files of the log, their
  names, and reading and appending records.

  A \<open>DataFile\<close> carries the path its \<open>IOHandler\<close> was opened with. A command on a data
  file runs on the file's state paired with the world.
\<close>

section \<open>Definitions\<close>

definition K_DATA_FILE_SUFFIX :: string where
  "K_DATA_FILE_SUFFIX = ''.bitdb-data''"

definition K_HINT_FILE_NAME :: string where
  "K_HINT_FILE_NAME = ''hint-index''"

definition K_MERGED_FILE_NAME :: string where
  "K_MERGED_FILE_NAME = ''merged''"

definition K_MERGENCE_FOLDER_SUFFIX :: string where
  "K_MERGENCE_FOLDER_SUFFIX = ''-merge''"

definition K_MERGED_LOG_RECORD_KEY :: bytes where
  "K_MERGED_LOG_RECORD_KEY = str ''merged''"

record DataFile =
  file_id :: u32
  write_off :: nat
  io_handler :: string

definition GetDataFileName :: "string \<Rightarrow> u32 \<Rightarrow> string" where
  "GetDataFileName path n =
     Format ''{}/{}{}'' [path, to_string (unat n), K_DATA_FILE_SUFFIX]"

definition GetHintFileName :: "string \<Rightarrow> string" where
  "GetHintFileName path = Format ''{}/{}'' [path, K_HINT_FILE_NAME]"

definition GetMergedFileName :: "string \<Rightarrow> string" where
  "GetMergedFileName path = Format ''{}/{}'' [path, K_MERGED_FILE_NAME]"

definition GetMergenceDirectory :: "string \<Rightarrow> string" where
  "GetMergenceDirectory db_path =
     Format ''{}/{}'' [db_path, PathBase db_path @ K_MERGENCE_FOLDER_SUFFIX]"

definition NewDataFile :: "string \<Rightarrow> u32 \<Rightarrow> (world, DataFile) cmd" where
  "NewDataFile file_name n w =
     (let (h, w') = NewIOHandler file_name w
      in ok \<lparr>file_id = n, write_off = 0, io_handler = h\<rparr> w')"

definition OpenDataFile :: "string \<Rightarrow> u32 \<Rightarrow> (world, DataFile) cmd" where
  "OpenDataFile path n = NewDataFile (GetDataFileName path n) n"

definition OpenHintFile :: "string \<Rightarrow> (world, DataFile) cmd" where
  "OpenHintFile path = NewDataFile (GetHintFileName path) 0"

definition OpenMergedFile :: "string \<Rightarrow> (world, DataFile) cmd" where
  "OpenMergedFile path = NewDataFile (GetMergedFileName path) 0"

text \<open>The buffer has \<open>n + 1\<close> bytes; a negative size is undefined behaviour.\<close>

definition ReadNBytes :: "DataFile \<Rightarrow> int \<Rightarrow> nat \<Rightarrow> world \<Rightarrow> bytes outcome" where
  "ReadNBytes df n ofs w =
     (if n < 0 then Fault OutOfBounds
      else case FileIO_Read (io_handler df) (nat n) ofs w of
             (res, buffer) \<Rightarrow> if res < 0 then Return [] else Return (take (nat res) buffer))"

text \<open>The record a caller declares without an initialiser, with its type byte.\<close>

definition fresh_record :: LogRecord where
  "fresh_record = \<lparr>lr_key = [], lr_value = [], lr_type = 0\<rparr>"

text \<open>
  The part of \<open>ReadLogRecord\<close> after the header was decoded: the key and the value,
  the checksum, and the size. The sizes are 32-bit and their sums wrap.
\<close>

definition ReadLogRecord_body ::
    "crc_fun \<Rightarrow> DataFile \<Rightarrow> nat \<Rightarrow> bytes \<Rightarrow> LogRecordHeader \<Rightarrow> nat \<Rightarrow> (world, LogRecord \<times> nat) cmd" where
  "ReadLogRecord_body crc df ofs header_buf header header_size w =
     (let ks = key_size header; vs = value_size header;
          record_size = word_of_nat header_size + ks + vs;
          lr = fresh_record\<lparr>lr_type := record_type header\<rparr>;
          finish = (\<lambda>lr. if length header_buf < header_size then crash OutOfBounds w
                         else if GetLogRecordCRC crc lr (take header_size header_buf) \<noteq> hdr_crc header
                         then err kCorruption w else ok (lr, unat record_size) w)
      in if ks > 0 \<or> vs > 0 then
           (if \<not> unat (ks + vs) < FileIO_Size (io_handler df) w then crash AssertFail w
            else case ReadNBytes df (int (unat (ks + vs))) (ofs + header_size) w of
                   Fault f \<Rightarrow> crash f w
                 | Return kv_buf \<Rightarrow>
                     if kv_buf = [] then err kIOError w
                     else if length kv_buf < unat ks + unat vs then crash OutOfBounds w
                     else finish (lr\<lparr>lr_key := take (unat ks) kv_buf,
                                    lr_value := take (unat vs) (drop (unat ks) kv_buf)\<rparr>))
         else finish lr)"

text \<open>The result is the record with its size, which is 0 at the end of the file.\<close>

definition ReadLogRecord :: "crc_fun \<Rightarrow> DataFile \<Rightarrow> nat \<Rightarrow> (world, LogRecord \<times> nat) cmd" where
  "ReadLogRecord crc df ofs w =
     (let file_size = FileIO_Size (io_handler df) w
      in if file_size = 0 then err kIOError w
         else if file_size = ofs then ok (fresh_record, 0) w
         else let try_read_header_size =
                    (if ofs + K_MAX_LOG_RECORD_HEADER_SIZE > file_size then int file_size - int ofs
                     else int K_MAX_LOG_RECORD_HEADER_SIZE)
              in case ReadNBytes df try_read_header_size ofs w of
                   Fault f \<Rightarrow> crash f w
                 | Return header_buf \<Rightarrow>
                     if header_buf = [] then err kIOError w
                     else case DecodeLogRecordHeader header_buf of
                            Fault f \<Rightarrow> crash f w
                          | Return (header, header_size) \<Rightarrow>
                              if header_size = 0 then err kIOError w
                              else if hdr_crc header = 0 \<and> key_size header = 0 \<and> value_size header = 0
                              then err kIOError w
                              else ReadLogRecord_body crc df ofs header_buf header header_size w)"

definition DataFile_Write :: "bytes \<Rightarrow> (DataFile \<times> world, unit) cmd" where
  "DataFile_Write buf = (\<lambda>(df, w).
     let (size, w') = FileIO_Write (io_handler df) buf w
     in if size < 0 then err kIOError (df, w')
        else ok () (df\<lparr>write_off := write_off df + nat size\<rparr>, w'))"

definition DataFile_Sync :: "(DataFile \<times> world, unit) cmd" where
  "DataFile_Sync = (\<lambda>(df, w).
     let (res, w') = FileIO_Sync (io_handler df) w
     in if res < 0 then err kIOError (df, w') else ok () (df, w'))"

definition WriteHintRecord :: "crc_fun \<Rightarrow> bytes \<Rightarrow> LogRecordPst \<Rightarrow> (DataFile \<times> world, unit) cmd" where
  "WriteHintRecord crc key pst =
     CHECK_OK (run_outcome (EncodeLogRecordPosition pst)) (\<lambda>v.
       DataFile_Write (EncodeLogRecord crc \<lparr>lr_key = cstr key, lr_value = v, lr_type = 0\<rparr>))"

section \<open>Names\<close>

lemmas file_names = K_DATA_FILE_SUFFIX_def K_HINT_FILE_NAME_def K_MERGED_FILE_NAME_def
  K_MERGENCE_FOLDER_SUFFIX_def

lemma digits_no_slash: "CHR ''/'' \<notin> set (to_string n)"
  using to_string_digits [of n] by (auto simp: list_all_iff isdigit_def)

lemma GetDataFileName_eq: "GetDataFileName d i = d @ CHR ''/'' # to_string (unat i) @ K_DATA_FILE_SUFFIX"
  by (simp add: GetDataFileName_def Format_path3)

lemma dirname_GetDataFileName [fs_simps]: "dirname (GetDataFileName d i) = d"
  using digits_no_slash by (simp add: GetDataFileName_eq dirname_path file_names)

lemma basename_GetDataFileName [fs_simps]:
  "basename (GetDataFileName d i) = to_string (unat i) @ K_DATA_FILE_SUFFIX"
  using digits_no_slash by (simp add: GetDataFileName_eq basename_path file_names)

lemma GetDataFileName_inject [simp]: "GetDataFileName d i = GetDataFileName d j \<longleftrightarrow> i = j"
  by (simp add: GetDataFileName_eq to_string_inject word_unat_eq_iff)

section \<open>Reading what was written\<close>

lemma FileIO_Size_Some [fs_simps]: "content w p = Some c \<Longrightarrow> FileIO_Size p w = length c"
  by (simp add: FileIO_Size_def)

lemma ReadNBytes_Some [fs_simps]:
  "content w (io_handler df) = Some c \<Longrightarrow> n < 2 ^ 31 \<Longrightarrow> ReadNBytes df (int n) ofs w = Return (take n (drop ofs c))"
proof -
  assume c: "content w (io_handler df) = Some c" and n: "n < 2 ^ 31"
  have "as_int (length (take n (drop ofs c))) = int (length (take n (drop ofs c)))" by (rule as_int_small) (use n in simp)
  moreover have "take (length bs) bs = bs" for bs :: bytes by simp
  ultimately show ?thesis using c unfolding ReadNBytes_def FileIO_Read_def by (simp add: Let_def del: length_take length_drop take_take)
qed

text \<open>A record whose size fits into the \<open>int\<close> that reading and writing it return.\<close>

definition record_fits :: "LogRecord \<Rightarrow> bool" where
  "record_fits lr \<longleftrightarrow> lr_key lr \<noteq> []
     \<and> K_MAX_LOG_RECORD_HEADER_SIZE + length (lr_key lr) + length (lr_value lr) < 2 ^ 31"

lemma length_EncodeLogRecord_le:
  "length (EncodeLogRecord crc lr) \<le> K_MAX_LOG_RECORD_HEADER_SIZE + length (lr_key lr) + length (lr_value lr)"
proof (cases "lr_key lr = []")
  case False
  then show ?thesis using length_EncodeLogRecord [OF False, of crc] header_len_bounds(2) [of lr] by simp
qed (simp add: EncodeLogRecord_def Let_def)

lemma record_fits_length: "record_fits lr \<Longrightarrow> length (EncodeLogRecord crc lr) < 2 ^ 31"
  using length_EncodeLogRecord_le [of crc lr] by (simp add: record_fits_def)

lemma record_fits_sizes:
  assumes "record_fits lr"
  shows "unat (word_of_nat (length (lr_key lr)) :: u32) = length (lr_key lr)"
    and "unat (word_of_nat (length (lr_value lr)) :: u32) = length (lr_value lr)"
    and "unat (word_of_nat (length (lr_key lr)) + word_of_nat (length (lr_value lr)) :: u32)
           = length (lr_key lr) + length (lr_value lr)"
    and "unat (word_of_nat (header_len lr) + word_of_nat (length (lr_key lr))
               + word_of_nat (length (lr_value lr)) :: u32)
           = header_len lr + length (lr_key lr) + length (lr_value lr)"
proof -
  have u: "unat (word_of_nat n :: u32) = n" if "n < 2 ^ 32" for n
    using that by (simp add: unsigned_of_nat take_bit_nat_eq_self)
  note h = header_len_bounds(2) [of lr]
  have lt: "header_len lr + length (lr_key lr) + length (lr_value lr) < 2 ^ 32"
    using assms h by (simp add: record_fits_def)
  show "unat (word_of_nat (length (lr_key lr)) :: u32) = length (lr_key lr)"
    and "unat (word_of_nat (length (lr_value lr)) :: u32) = length (lr_value lr)"
    using u lt by simp_all
  show "unat (word_of_nat (length (lr_key lr)) + word_of_nat (length (lr_value lr)) :: u32)
           = length (lr_key lr) + length (lr_value lr)"
    using u [of "length (lr_key lr) + length (lr_value lr)"] lt by simp
  show "unat (word_of_nat (header_len lr) + word_of_nat (length (lr_key lr))
               + word_of_nat (length (lr_value lr)) :: u32)
           = header_len lr + length (lr_key lr) + length (lr_value lr)"
    using u [OF lt] by simp
qed

lemma header_rest_nonempty: "header_rest lr \<noteq> []"
  by (simp add: header_rest_def)

lemma GetLogRecordCRC_header:
  assumes "crc_extends crc"
  shows "GetLogRecordCRC crc lr (EncodeFixed32 c @ header_rest lr)
           = crc 0 (header_rest lr @ lr_key lr @ lr_value lr)"
proof -
  have "drop K_CRC_SIZE (EncodeFixed32 c @ header_rest lr) = header_rest lr"
    by (simp add: length_EncodeFixed32 [of c, symmetric] del: length_EncodeFixed32)
  moreover have "header_rest lr \<noteq> []"
    by (simp add: header_rest_def)
  ultimately show ?thesis
    using assms by (simp add: GetLogRecordCRC_def crc_extends_def)
qed

lemma ReadLogRecord_written:
  assumes c: "content w (io_handler df) = Some (pre @ EncodeLogRecord crc lr @ post)"
    and fits: "record_fits lr" and crc: "crc_extends crc"
  shows "ReadLogRecord crc df (length pre) w = (Ok (lr, length (EncodeLogRecord crc lr)), w)"
proof -
  let ?enc = "EncodeLogRecord crc lr"
  let ?body = "header_rest lr @ lr_key lr @ lr_value lr"
  let ?c = "crc 0 ?body"
  let ?n = "min K_MAX_LOG_RECORD_HEADER_SIZE (length ?enc + length post)"
  have ne: "lr_key lr \<noteq> []" using fits by (simp add: record_fits_def)
  have enc: "?enc = EncodeFixed32 ?c @ ?body" using ne by (simp add: EncodeLogRecord_def Let_def)
  have len: "length ?enc = header_len lr + length (lr_key lr) + length (lr_value lr)"
    using ne by (rule length_EncodeLogRecord)
  have hn: "header_len lr \<le> ?n" using len header_len_bounds [of lr] by simp
  define buf where "buf = take ?n (?enc @ post)"
  have buf: "buf = (EncodeFixed32 ?c @ header_rest lr) @ take (?n - header_len lr) (lr_key lr @ lr_value lr @ post)"
    using hn by (simp add: buf_def enc)
  have take_buf: "take (header_len lr) buf = EncodeFixed32 ?c @ header_rest lr"
    unfolding buf by simp
  have hdr: "DecodeLogRecordHeader buf = Return (\<lparr>hdr_crc = ?c, record_type = lr_type lr,
      key_size = word_of_nat (length (lr_key lr)), value_size = word_of_nat (length (lr_value lr))\<rparr>, header_len lr)"
    unfolding buf append_assoc by (rule DecodeLogRecordHeader_prefix)
  have kv: "take (length (lr_key lr) + length (lr_value lr)) (drop (length pre + header_len lr) (pre @ ?enc @ post))
              = lr_key lr @ lr_value lr"
    by (simp add: enc)
  have size: "FileIO_Size (io_handler df) w = length pre + length ?enc + length post"
    using c by (simp add: fs_simps)
  have try_size: "(if length pre + K_MAX_LOG_RECORD_HEADER_SIZE > FileIO_Size (io_handler df) w
      then int (FileIO_Size (io_handler df) w) - int (length pre) else int K_MAX_LOG_RECORD_HEADER_SIZE) = int ?n"
    unfolding size by auto
  have read: "ReadNBytes df (int ?n) (length pre) w = Return buf"
    using c ReadNBytes_Some [OF c, of ?n "length pre"] by (simp add: buf_def K_MAX_LOG_RECORD_HEADER_SIZE_def)
  have read_kv: "ReadNBytes df (int (length (lr_key lr) + length (lr_value lr))) (length pre + header_len lr) w
      = Return (lr_key lr @ lr_value lr)"
  proof -
    have "length (lr_key lr) + length (lr_value lr) < 2 ^ 31" using fits by (simp add: record_fits_def)
    from ReadNBytes_Some [OF c this, of "length pre + header_len lr"] show ?thesis unfolding kv .
  qed
  have pos: "word_of_nat (length (lr_key lr)) \<noteq> (0 :: u32)"
    using record_fits_sizes(1) [OF fits] ne by (metis length_0_conv unsigned_0)
  have lb: "\<not> length buf < header_len lr" using hn by (simp add: buf)
  moreover have hl: "header_len lr \<noteq> 0" using header_len_bounds(1) [of lr] by linarith
  ultimately have nb: "buf \<noteq> []" by auto
  have size_kv: "length (lr_key lr) + length (lr_value lr) < FileIO_Size (io_handler df) w"
    using len header_len_bounds(1) [of lr] unfolding size by linarith
  have eta: "\<lparr>lr_key = lr_key lr, lr_value = lr_value lr, lr_type = lr_type lr\<rparr> = lr" by simp
  have body: "ReadLogRecord_body crc df (length pre) buf \<lparr>hdr_crc = ?c, record_type = lr_type lr,
      key_size = word_of_nat (length (lr_key lr)), value_size = word_of_nat (length (lr_value lr))\<rparr> (header_len lr) w
      = (Ok (lr, length ?enc), w)"
    unfolding ReadLogRecord_body_def Let_def
    by (simp add: record_fits_sizes [OF fits] pos size_kv read_kv lb take_buf len ok_def ne
        GetLogRecordCRC_header [OF crc] fresh_record_def eta word_neq_0_conv [symmetric]
        del: of_nat_add)
  have "FileIO_Size (io_handler df) w \<noteq> 0" "FileIO_Size (io_handler df) w \<noteq> length pre"
    using len hl unfolding size by linarith+
  then show ?thesis
    unfolding ReadLogRecord_def Let_def try_size
    by (simp add: read hdr body header_rest_nonempty nb pos)
qed


lemma ReadLogRecord_eof:
  assumes "content w (io_handler df) = Some c" and "c \<noteq> []"
  shows "ReadLogRecord crc df (length c) w = (Ok (fresh_record, 0), w)"
  using assms by (simp add: ReadLogRecord_def Let_def fs_simps ok_def)

lemma ReadLogRecord_empty_file:
  assumes "content w (io_handler df) = Some []"
  shows "ReadLogRecord crc df ofs w = (Err kIOError, w)"
  using assms by (simp add: ReadLogRecord_def Let_def fs_simps err_def)

text \<open>Reading never changes the world, and a corrupted record is not returned.\<close>

lemma snd_simps [simp]: "snd (ok a s) = s" "snd (err c s) = s" "snd (crash f s) = s"
  by (simp_all add: ok_def err_def crash_def)

lemma snd_if: "snd (if b then x else y) = (if b then snd x else snd y)"
  by simp

lemma snd_case_outcome: "snd (case m of Return a \<Rightarrow> f a | Fault e \<Rightarrow> g e) = (case m of Return a \<Rightarrow> snd (f a) | Fault e \<Rightarrow> snd (g e))"
  by (simp split: outcome.split)

lemma ReadLogRecord_body_world: "snd (ReadLogRecord_body crc df ofs hb h n w) = w"
  by (simp add: ReadLogRecord_body_def Let_def snd_if snd_case_outcome cong: if_cong split: outcome.split)

lemma ReadLogRecord_world: "snd (ReadLogRecord crc df ofs w) = w"
  by (simp add: ReadLogRecord_def Let_def snd_if snd_case_outcome ReadLogRecord_body_world case_prod_beta
      split: outcome.split)

lemma ReadLogRecord_bound:
  assumes "ReadLogRecord crc df ofs w = (Ok (lr, sz), w')" "sz \<noteq> 0"
  shows "ofs < FileIO_Size (io_handler df) w"
proof (rule ccontr)
  assume "\<not> ?thesis"
  then consider "FileIO_Size (io_handler df) w = ofs" | "FileIO_Size (io_handler df) w < ofs" by linarith
  then show False
  proof cases
    case 1
    then show False using assms by (simp add: ReadLogRecord_def Let_def ok_def err_def split: if_splits)
  next
    case 2
    then have "ReadNBytes df (int (FileIO_Size (io_handler df) w) - int ofs) ofs w = Fault OutOfBounds"
      by (simp add: ReadNBytes_def)
    with 2 assms show False
      by (simp add: ReadLogRecord_def Let_def ok_def err_def crash_def split: if_splits)
  qed
qed

section \<open>Appending\<close>

lemma DataFile_Write_ok:
  assumes "content w (io_handler df) = Some c" and "wr_script w = []" and "length bs < 2 ^ 31"
  shows "DataFile_Write bs (df, w) =
           (Ok (), (df\<lparr>write_off := write_off df + length bs\<rparr>, set_content (io_handler df) (c @ bs) w))"
  using assms by (simp add: DataFile_Write_def FileIO_Write_def ok_def as_int_small)

lemma DataFile_Sync_ok:
  assumes "content w (io_handler df) = Some c" and "sync_script w = []"
  shows "DataFile_Sync (df, w) = (Ok (), (df, w))"
  using assms by (simp add: DataFile_Sync_def FileIO_Sync_def ok_def)

section \<open>Properties\<close>

text \<open>C24. Wherever an encoded record lies in a data file, reading at its offset returns the
  record and its size: whatever stands before and after it, and for any checksum with the
  extension law. The key is not empty, and the sizes of key and value, with 15 for the header, are below \<open>2 ^ 31\<close>.\<close>

theorem read_written_record:
  assumes "content w (io_handler df) = Some (pre @ EncodeLogRecord crc lr @ post)"
    and "record_fits lr" and "crc_extends crc"
  shows "ReadLogRecord crc df (length pre) w = (Ok (lr, length (EncodeLogRecord crc lr)), w)"
  by (rule ReadLogRecord_written [OF assms])

theorem read_written_record_witness:
  "\<exists>w df lr. content w (io_handler df) = Some ([1, 2] @ EncodeLogRecord sum_crc lr @ [3])
     \<and> lr = \<lparr>lr_key = [0, 107], lr_value = [118], lr_type = NormalLogRecord\<rparr>
     \<and> ReadLogRecord sum_crc df 2 w = (Ok (lr, length (EncodeLogRecord sum_crc lr)), w)"
proof -
  let ?lr = "\<lparr>lr_key = [0, 107], lr_value = [118], lr_type = NormalLogRecord\<rparr> :: LogRecord"
  let ?df = "\<lparr>file_id = 0, write_off = 0, io_handler = ''f''\<rparr>"
  let ?w = "\<lparr>files = [(''f'', [1, 2] @ EncodeLogRecord sum_crc ?lr @ [3])], dirs = [], dir_order = id,
             wr_script = [], sync_script = []\<rparr>"
  have c: "content ?w (io_handler ?df) = Some ([1, 2] @ EncodeLogRecord sum_crc ?lr @ [3])"
    by (simp add: content_def)
  have "record_fits ?lr" by (simp add: record_fits_def K_MAX_LOG_RECORD_HEADER_SIZE_def)
  from read_written_record [OF c this sum_crc_extends] c show ?thesis
    by (intro exI [of _ ?w] exI [of _ ?df] exI [of _ ?lr]) (simp add: numeral_2_eq_2)
qed

lemma ReadLogRecord_body_Ok:
  assumes "ReadLogRecord_body crc df ofs buf header hs w = (Ok (lr, n), w')"
  shows "GetLogRecordCRC crc lr (take hs buf) = hdr_crc header \<and> lr_type lr = record_type header"
  using assms unfolding ReadLogRecord_body_def Let_def ok_def err_def crash_def fresh_record_def
  by (simp split: if_splits outcome.splits) auto

lemma ReadLogRecord_header:
  assumes "ReadLogRecord crc df ofs w = (Ok (lr, n), w')" and "n \<noteq> 0"
    and c: "content w (io_handler df) = Some c"
  shows "\<exists>header hs. DecodeLogRecordHeader (take K_MAX_LOG_RECORD_HEADER_SIZE (drop ofs c)) = Return (header, hs)
     \<and> ReadLogRecord_body crc df ofs (take K_MAX_LOG_RECORD_HEADER_SIZE (drop ofs c)) header hs w = (Ok (lr, n), w')"
proof -
  let ?buf = "take K_MAX_LOG_RECORD_HEADER_SIZE (drop ofs c)"
  have lt: "ofs < length c" using ReadLogRecord_bound [OF assms(1,2)] c by (simp add: fs_simps)
  have buf: "ReadNBytes df (if ofs + K_MAX_LOG_RECORD_HEADER_SIZE > length c then int (length c) - int ofs
      else int K_MAX_LOG_RECORD_HEADER_SIZE) ofs w = Return ?buf"
    using ReadNBytes_Some [OF c, of "length c - ofs" ofs] ReadNBytes_Some [OF c, of K_MAX_LOG_RECORD_HEADER_SIZE ofs] lt
    by (simp add: of_nat_diff K_MAX_LOG_RECORD_HEADER_SIZE_def)
  show ?thesis
    using assms(1) lt unfolding ReadLogRecord_def Let_def FileIO_Size_Some [OF c] buf
    by (auto simp: ok_def err_def crash_def split: if_splits outcome.splits prod.splits)
qed

text \<open>C25. A record that was changed on disk so that its checksum no longer matches is not
  returned: a successful read at an offset before the end always yields a record whose checksum,
  computed over the header bytes, the key and the value, is the stored one.\<close>

theorem read_checks_crc:
  assumes "ReadLogRecord crc df ofs w = (Ok (lr, n), w')" and "n \<noteq> 0"
    and "content w (io_handler df) = Some c"
  shows "\<exists>header hs. DecodeLogRecordHeader (take K_MAX_LOG_RECORD_HEADER_SIZE (drop ofs c)) = Return (header, hs)
     \<and> GetLogRecordCRC crc lr (take hs (take K_MAX_LOG_RECORD_HEADER_SIZE (drop ofs c))) = hdr_crc header
     \<and> lr_type lr = record_type header"
  using ReadLogRecord_header [OF assms] ReadLogRecord_body_Ok by blast

theorem read_checks_crc_witness:
  "\<exists>w df lr n c. ReadLogRecord sum_crc df 0 w = (Ok (lr, n), w) \<and> n \<noteq> 0 \<and> content w (io_handler df) = Some c
     \<and> (\<exists>header hs. DecodeLogRecordHeader (take K_MAX_LOG_RECORD_HEADER_SIZE (drop 0 c)) = Return (header, hs)
     \<and> GetLogRecordCRC sum_crc lr (take hs (take K_MAX_LOG_RECORD_HEADER_SIZE (drop 0 c))) = hdr_crc header
     \<and> lr_type lr = record_type header)"
proof -
  let ?lr = "\<lparr>lr_key = [0, 107], lr_value = [118], lr_type = NormalLogRecord\<rparr> :: LogRecord"
  let ?df = "\<lparr>file_id = 0, write_off = 0, io_handler = ''f''\<rparr>"
  let ?w = "\<lparr>files = [(''f'', EncodeLogRecord sum_crc ?lr)], dirs = [], dir_order = id,
             wr_script = [], sync_script = []\<rparr>"
  have c: "content ?w (io_handler ?df) = Some (EncodeLogRecord sum_crc ?lr)"
    by (simp add: content_def)
  have r: "ReadLogRecord sum_crc ?df 0 ?w = (Ok (?lr, length (EncodeLogRecord sum_crc ?lr)), ?w)"
    using ReadLogRecord_written [of ?w ?df "[]" sum_crc ?lr "[]"] c sum_crc_extends
    by (simp add: record_fits_def K_MAX_LOG_RECORD_HEADER_SIZE_def)
  have n: "length (EncodeLogRecord sum_crc ?lr) \<noteq> 0" by (simp add: length_EncodeLogRecord)
  from read_checks_crc [OF r n c] r n c show ?thesis by blast
qed

end
