(* ===== verification/Random_Gen.thy ===== *)
theory Random_Gen
  imports Prelude
begin

text \<open>
  \<^verbatim>\<open>utils/random.h\<close>: the random numbers behind the skip list and the timers of a
  Raft node. The two sources of numbers, \<open>std::default_random_engine\<close> and \<open>rand\<close>,
  are parameters: each is the sequence of the numbers it will hand out, and the
  generator counts how many it has taken.
\<close>

section \<open>Definitions\<close>

record Random =
  seed :: u32
  simple_mode :: bool
  eng_seq :: "nat \<Rightarrow> u32"
  engine_pos :: nat
  rand_seq :: "nat \<Rightarrow> u32"
  rand_pos :: nat

text \<open>\<open>engine\<close> gives the sequence for a seed and \<open>now\<close> is \<open>std::time(nullptr)\<close>.\<close>

definition Random_init ::
    "(u32 \<Rightarrow> nat \<Rightarrow> u32) \<Rightarrow> u32 \<Rightarrow> (nat \<Rightarrow> u32) \<Rightarrow> u32 \<Rightarrow> bool \<Rightarrow> Random" where
  "Random_init engine now rnd s simple =
     \<lparr>seed = s, simple_mode = simple,
      eng_seq = (if s > 0 then engine s else engine now), engine_pos = 0, rand_seq = rnd, rand_pos = 0\<rparr>"

definition GetSimpleRandomNum :: "Random \<Rightarrow> u32 \<times> Random" where
  "GetSimpleRandomNum r = (rand_seq r (rand_pos r), r\<lparr>rand_pos := Suc (rand_pos r)\<rparr>)"

definition GetRandomNum :: "Random \<Rightarrow> u32 \<times> Random" where
  "GetRandomNum r = (eng_seq r (engine_pos r), r\<lparr>engine_pos := Suc (engine_pos r)\<rparr>)"

definition Random_Next :: "Random \<Rightarrow> u32 \<times> Random" where
  "Random_Next r = (if simple_mode r then GetSimpleRandomNum r else GetRandomNum r)"

text \<open>
  \<open>Next() % n\<close> converts the \<open>int\<close> divisor to \<open>uint32_t\<close>; dividing by zero faults.
\<close>

definition Uniform :: "32 word \<Rightarrow> Random \<Rightarrow> (u32 \<times> Random) outcome" where
  "Uniform n r = (if n = 0 then Fault Uncaught else let (x, r') = Random_Next r in Return (x mod n, r'))"

definition UniformRange :: "32 word \<Rightarrow> 32 word \<Rightarrow> Random \<Rightarrow> (u32 \<times> Random) outcome" where
  "UniformRange b e r = bind_outcome (Uniform (e - b) r) (\<lambda>(x, r'). Return (b + x, r'))"

definition OneIn :: "32 word \<Rightarrow> Random \<Rightarrow> (bool \<times> Random) outcome" where
  "OneIn n r = (if n = 0 then Fault Uncaught else let (x, r') = Random_Next r in Return (x mod n = 0, r'))"

text \<open>\<open>1 << k\<close> on an \<open>int\<close> needs \<open>k < 32\<close>.\<close>

definition Skewed :: "32 word \<Rightarrow> Random \<Rightarrow> (u32 \<times> Random) outcome" where
  "Skewed max_log r =
     bind_outcome (Uniform (max_log + 1) r) (\<lambda>(k, r').
       if unat k < 32 then Uniform (push_bit (unat k) 1) r' else Fault BadShift)"

section \<open>Bounds\<close>

lemma Uniform_bound: "n \<noteq> 0 \<Longrightarrow> \<exists>x r'. Uniform n r = Return (x, r') \<and> x < n"
  by (auto simp: Uniform_def word_mod_less_divisor word_neq_0_conv split: prod.split)

end
