(* ===== verification/Skip_List.thy ===== *)
theory Skip_List
  imports Random_Gen
begin

text \<open>
  \<^verbatim>\<open>ds/skiplist.h\<close>: the skip list of the default index, on an explicit heap.

  A node's address is a natural number and the heap is a partial map from
  addresses to nodes; \<open>None\<close> in a \<open>next\<close> array is the null pointer. \<open>NewNode\<close> takes
  an address that is not in use. A routine returns \<open>None\<close> where the code would read
  through a dangling pointer, past a \<open>next\<close> array, or follow an endless chain; the
  lemmas show that this never happens in a list that satisfies the invariant.

  The invariant names the addresses in key order. The list then represents the
  association list of their keys and values, and every operation is shown to do to
  it what the sorted association list operation does.
\<close>

section \<open>Nodes and the heap\<close>

definition K_SKIP_LIST_MAX_LEVEL :: nat where
  "K_SKIP_LIST_MAX_LEVEL = 40"

record ('k, 'v) Node =
  node_key :: 'k
  node_value :: 'v
  node_level :: nat
  node_next :: "nat option list"

type_synonym ('k, 'v) heap = "nat \<Rightarrow> ('k, 'v) Node option"

record ('k, 'v) SkipList =
  mem :: "('k, 'v) heap"
  sl_top :: nat
  sl_head :: nat
  sl_level :: nat
  sl_size :: nat
  rander :: Random

definition next_at :: "('k, 'v) heap \<Rightarrow> nat \<Rightarrow> nat \<Rightarrow> nat option option" where
  "next_at h a i = Option.bind (h a) (\<lambda>n. if i < length (node_next n) then Some (node_next n ! i) else None)"

definition set_next :: "nat \<Rightarrow> nat \<Rightarrow> nat option \<Rightarrow> ('k, 'v) heap \<Rightarrow> ('k, 'v) heap option" where
  "set_next a i v h =
     Option.bind (h a) (\<lambda>n. if i < length (node_next n)
       then Some (h(a \<mapsto> n\<lparr>node_next := (node_next n)[i := v]\<rparr>)) else None)"

definition NewNode :: "nat \<Rightarrow> 'k \<Rightarrow> 'v \<Rightarrow> ('k, 'v) Node" where
  "NewNode level key value =
     \<lparr>node_key = key, node_value = value, node_level = level, node_next = replicate level None\<rparr>"

text \<open>The constructor: \<open>K{}\<close> and \<open>V{}\<close> are arguments.\<close>

definition SkipList_init :: "'k \<Rightarrow> 'v \<Rightarrow> Random \<Rightarrow> ('k, 'v) SkipList" where
  "SkipList_init k0 v0 r =
     \<lparr>mem = [0 \<mapsto> NewNode K_SKIP_LIST_MAX_LEVEL k0 v0], sl_top = 1, sl_head = 0, sl_level = 1, sl_size = 0,
      rander = r\<rparr>"

definition IsEmpty :: "('k, 'v) SkipList \<Rightarrow> bool" where
  "IsEmpty s \<longleftrightarrow> sl_size s = 0"

definition SkipList_Size :: "('k, 'v) SkipList \<Rightarrow> nat" where
  "SkipList_Size s = sl_size s"

definition Clear :: "('k, 'v) SkipList \<Rightarrow> ('k, 'v) SkipList" where
  "Clear s = s\<lparr>sl_level := 1, sl_size := 0\<rparr>"

section \<open>Searching\<close>

text \<open>
  The inner loop of \<open>FindNode\<close> and \<open>FindInsertPoint\<close> on one level: the node with the
  key if it is met, and the last node before it.
\<close>

partial_function (option) find_level ::
    "('k::linorder, 'v) heap \<Rightarrow> 'k \<Rightarrow> nat \<Rightarrow> nat \<Rightarrow> nat option \<Rightarrow> (nat option \<times> nat) option" where
  "find_level h key i prev cur =
     (case cur of None \<Rightarrow> Some (None, prev)
      | Some c \<Rightarrow> Option.bind (h c) (\<lambda>n.
          if node_key n = key then Some (Some c, prev)
          else if node_key n > key then Some (None, prev)
          else Option.bind (next_at h c i) (\<lambda>nx. find_level h key i c nx)))"

text \<open>The outer loop of \<open>FindNode\<close>, for the levels below \<open>i\<close>.\<close>

primrec FindNode_loop :: "('k::linorder, 'v) heap \<Rightarrow> 'k \<Rightarrow> nat \<Rightarrow> nat \<Rightarrow> nat option option" where
  "FindNode_loop h key 0 prev = Some None"
| "FindNode_loop h key (Suc i) prev =
     Option.bind (h prev) (\<lambda>p.
       if i \<ge> node_level p then FindNode_loop h key i prev
       else Option.bind (next_at h prev i) (\<lambda>cur.
         Option.bind (find_level h key i prev cur) (\<lambda>(found, prev').
           case found of Some a \<Rightarrow> Some (Some a) | None \<Rightarrow> FindNode_loop h key i prev')))"

definition FindNode :: "'k::linorder \<Rightarrow> ('k, 'v) SkipList \<Rightarrow> nat option option" where
  "FindNode key s = FindNode_loop (mem s) key (sl_level s) (sl_head s)"

primrec FindInsertPoint_loop ::
    "('k::linorder, 'v) heap \<Rightarrow> 'k \<Rightarrow> nat \<Rightarrow> nat \<Rightarrow> nat option list \<Rightarrow> (nat option \<times> nat option list) option" where
  "FindInsertPoint_loop h key 0 prev prevs = Some (None, prevs)"
| "FindInsertPoint_loop h key (Suc i) prev prevs =
     Option.bind (h prev) (\<lambda>p.
       if i \<ge> node_level p then FindInsertPoint_loop h key i prev prevs
       else Option.bind (next_at h prev i) (\<lambda>cur.
         Option.bind (find_level h key i prev cur) (\<lambda>(found, prev').
           case found of Some a \<Rightarrow> Some (Some a, [])
           | None \<Rightarrow> FindInsertPoint_loop h key i prev' (prevs[i := Some prev']))))"

definition FindInsertPoint :: "'k::linorder \<Rightarrow> ('k, 'v) SkipList \<Rightarrow> (nat option \<times> nat option list) option" where
  "FindInsertPoint key s =
     FindInsertPoint_loop (mem s) key (sl_level s) (sl_head s) (replicate (sl_level s) None)"

text \<open>The inner loop of \<open>FindPrevNodes\<close>.\<close>

partial_function (option) prev_level ::
    "('k::linorder, 'v) heap \<Rightarrow> 'k \<Rightarrow> nat \<Rightarrow> nat \<Rightarrow> nat option \<Rightarrow> nat option" where
  "prev_level h key i prev cur =
     (case cur of None \<Rightarrow> Some prev
      | Some c \<Rightarrow> Option.bind (h c) (\<lambda>n.
          if node_key n \<ge> key then Some prev
          else Option.bind (next_at h c i) (\<lambda>nx. prev_level h key i c nx)))"

primrec FindPrevNodes_loop ::
    "('k::linorder, 'v) heap \<Rightarrow> 'k \<Rightarrow> nat \<Rightarrow> nat \<Rightarrow> nat option list \<Rightarrow> nat option list option" where
  "FindPrevNodes_loop h key 0 prev prevs = Some prevs"
| "FindPrevNodes_loop h key (Suc i) prev prevs =
     Option.bind (h prev) (\<lambda>p.
       if i \<ge> node_level p then FindPrevNodes_loop h key i prev prevs
       else Option.bind (next_at h prev i) (\<lambda>cur.
         Option.bind (prev_level h key i prev cur) (\<lambda>prev'.
           FindPrevNodes_loop h key i prev' (prevs[i := Some prev']))))"

definition FindPrevNodes :: "'k::linorder \<Rightarrow> ('k, 'v) SkipList \<Rightarrow> nat option list option" where
  "FindPrevNodes key s =
     FindPrevNodes_loop (mem s) key (sl_level s) (sl_head s) (replicate (sl_level s) None)"

text \<open>\<open>prevs[0]\<close>, which must be there and not be null where the code reads through it.\<close>

definition first_prev :: "nat option list \<Rightarrow> nat option" where
  "first_prev prevs = (case prevs of [] \<Rightarrow> None | p # _ \<Rightarrow> p)"

definition FindRemovePoint :: "'k::linorder \<Rightarrow> ('k, 'v) SkipList \<Rightarrow> (nat option \<times> nat option list) option" where
  "FindRemovePoint key s =
     Option.bind (FindPrevNodes key s) (\<lambda>prevs.
     Option.bind (first_prev prevs) (\<lambda>p.
     Option.bind (next_at (mem s) p 0) (\<lambda>node.
       case node of None \<Rightarrow> Some (None, [])
       | Some a \<Rightarrow> Option.bind (mem s a) (\<lambda>n.
           if node_key n \<noteq> key then Some (None, []) else Some (Some a, prevs)))))"

partial_function (option) last_level :: "('k, 'v) heap \<Rightarrow> nat \<Rightarrow> nat \<Rightarrow> nat option \<Rightarrow> nat option" where
  "last_level h i prev cur =
     (case cur of None \<Rightarrow> Some prev
      | Some c \<Rightarrow> Option.bind (next_at h c i) (\<lambda>nx. last_level h i c nx))"

primrec FindLast_loop :: "('k, 'v) heap \<Rightarrow> nat \<Rightarrow> nat \<Rightarrow> nat option" where
  "FindLast_loop h 0 prev = Some prev"
| "FindLast_loop h (Suc i) prev =
     Option.bind (h prev) (\<lambda>p.
       if i \<ge> node_level p then FindLast_loop h i prev
       else Option.bind (next_at h prev i) (\<lambda>cur.
         Option.bind (last_level h i prev cur) (\<lambda>prev'. FindLast_loop h i prev')))"

text \<open>The loop starts at level \<open>sl_level\<close>, one above the highest in use.\<close>

definition FindLast :: "('k, 'v) SkipList \<Rightarrow> nat option" where
  "FindLast s = FindLast_loop (mem s) (Suc (sl_level s)) (sl_head s)"

definition Has :: "'k::linorder \<Rightarrow> ('k, 'v) SkipList \<Rightarrow> bool option" where
  "Has key s = map_option (\<lambda>r. r \<noteq> None) (FindNode key s)"

definition Find :: "'k::linorder \<Rightarrow> ('k, 'v) SkipList \<Rightarrow> 'v option option" where
  "Find key s =
     Option.bind (FindNode key s) (\<lambda>r.
       case r of None \<Rightarrow> Some None
       | Some a \<Rightarrow> Option.bind (mem s a) (\<lambda>n. Some (Some (node_value n))))"

section \<open>Updating\<close>

function RandomLevel_loop :: "nat \<Rightarrow> Random \<Rightarrow> nat \<times> Random" where
  "RandomLevel_loop level r =
     (if level < K_SKIP_LIST_MAX_LEVEL
      then let (x, r') = Random_Next r in if x mod 4 = 0 then RandomLevel_loop (Suc level) r' else (level, r')
      else (level, r))"
  by pat_completeness auto
termination by (relation "measure (\<lambda>(level, _). K_SKIP_LIST_MAX_LEVEL - level)") auto

declare RandomLevel_loop.simps [simp del]

definition RandomLevel :: "Random \<Rightarrow> nat \<times> Random" where
  "RandomLevel r = RandomLevel_loop 1 r"

text \<open>The first loop of \<open>Insert\<close>: levels \<open>0\<close> to \<open>m - 1\<close>.\<close>

primrec link_levels ::
    "nat \<Rightarrow> nat option list \<Rightarrow> nat \<Rightarrow> ('k, 'v) heap \<Rightarrow> ('k, 'v) heap option" where
  "link_levels a prevs 0 h = Some h"
| "link_levels a prevs (Suc m) h =
     Option.bind (link_levels a prevs m h) (\<lambda>h.
     Option.bind (if m < length prevs then prevs ! m else None) (\<lambda>p.
     Option.bind (next_at h p m) (\<lambda>nx.
     Option.bind (set_next a m nx h) (\<lambda>h. set_next p m (Some a) h))))"

text \<open>The second loop: the head's levels \<open>from\<close> to \<open>from + n - 1\<close>.\<close>

primrec raise_head :: "nat \<Rightarrow> nat \<Rightarrow> nat \<Rightarrow> nat \<Rightarrow> ('k, 'v) heap \<Rightarrow> ('k, 'v) heap option" where
  "raise_head q a from 0 h = Some h"
| "raise_head q a from (Suc n) h =
     Option.bind (raise_head q a from n h) (\<lambda>h. set_next q (from + n) (Some a) h)"

definition Insert :: "'k::linorder \<Rightarrow> 'v \<Rightarrow> ('k, 'v) SkipList \<Rightarrow> ('k, 'v) SkipList option" where
  "Insert key value s =
     Option.bind (FindInsertPoint key s) (\<lambda>(node, prevs).
       case node of
         Some a \<Rightarrow> Option.bind (mem s a) (\<lambda>n. Some (s\<lparr>mem := (mem s)(a \<mapsto> n\<lparr>node_value := value\<rparr>)\<rparr>))
       | None \<Rightarrow>
           (let (level, r') = RandomLevel (rander s);
                a = sl_top s;
                h = (mem s)(a \<mapsto> NewNode level key value);
                min_level = min level (sl_level s)
            in Option.bind (link_levels a prevs min_level h) (\<lambda>h1.
               Option.bind (raise_head (sl_head s) a (sl_level s) (level - sl_level s) h1) (\<lambda>h2.
                 Some (s\<lparr>mem := h2, sl_top := Suc a, sl_level := max level (sl_level s),
                         sl_size := Suc (sl_size s), rander := r'\<rparr>)))))"

text \<open>The loop of \<open>Remove\<close>: levels \<open>0\<close> to \<open>m - 1\<close>.\<close>

primrec unlink_levels ::
    "nat \<Rightarrow> nat option list \<Rightarrow> nat \<Rightarrow> ('k, 'v) heap \<Rightarrow> ('k, 'v) heap option" where
  "unlink_levels a prevs 0 h = Some h"
| "unlink_levels a prevs (Suc m) h =
     Option.bind (unlink_levels a prevs m h) (\<lambda>h.
     Option.bind (if m < length prevs then prevs ! m else None) (\<lambda>p.
     Option.bind (next_at h a m) (\<lambda>nx. set_next p m nx h)))"

text \<open>The loop that drops the levels the head no longer uses.\<close>

fun lower_level :: "('k, 'v) heap \<Rightarrow> nat \<Rightarrow> nat \<Rightarrow> nat option" where
  "lower_level h q 0 = Some 0"
| "lower_level h q (Suc 0) = Some 1"
| "lower_level h q (Suc (Suc l)) =
     Option.bind (next_at h q (Suc l)) (\<lambda>nx.
       if nx = None then lower_level h q (Suc l) else Some (Suc (Suc l)))"

text \<open>
  \<open>Remove\<close> gives back the stored value when the key was there; the caller decides
  whether it wants it.
\<close>

definition Remove :: "'k::linorder \<Rightarrow> ('k, 'v) SkipList \<Rightarrow> ('v option \<times> ('k, 'v) SkipList) option" where
  "Remove key s =
     Option.bind (FindRemovePoint key s) (\<lambda>(node, prevs).
       case node of
         None \<Rightarrow> Some (None, s)
       | Some a \<Rightarrow>
           Option.bind (mem s a) (\<lambda>n.
           Option.bind (unlink_levels a prevs (node_level n) (mem s)) (\<lambda>h1.
             let h2 = h1(a := None)
             in Option.bind (lower_level h2 (sl_head s) (sl_level s)) (\<lambda>l.
                  Some (Some (node_value n), s\<lparr>mem := h2, sl_level := l, sl_size := sl_size s - 1\<rparr>)))))"

section \<open>The iterator\<close>

text \<open>An iterator is the node it stands on, \<open>None\<close> when it is not valid.\<close>

type_synonym iter = "nat option"

definition Iter_Valid :: "iter \<Rightarrow> bool" where
  "Iter_Valid it \<longleftrightarrow> it \<noteq> None"

definition Iter_Key :: "('k, 'v) SkipList \<Rightarrow> iter \<Rightarrow> 'k option" where
  "Iter_Key s it = Option.bind it (\<lambda>a. map_option node_key (mem s a))"

definition Iter_Value :: "('k, 'v) SkipList \<Rightarrow> iter \<Rightarrow> 'v option" where
  "Iter_Value s it = Option.bind it (\<lambda>a. map_option node_value (mem s a))"

definition Iter_Next :: "('k, 'v) SkipList \<Rightarrow> iter \<Rightarrow> iter option" where
  "Iter_Next s it = Option.bind it (\<lambda>a. next_at (mem s) a 0)"

text \<open>\<open>prevs[0]\<close> is read even when \<open>prevs\<close> is empty.\<close>

definition Iter_Prev :: "('k::linorder, 'v) SkipList \<Rightarrow> iter \<Rightarrow> iter option" where
  "Iter_Prev s it =
     Option.bind (Iter_Key s it) (\<lambda>k.
     Option.bind (FindPrevNodes k s) (\<lambda>prevs. if prevs = [] then None else Some (hd prevs)))"

definition Iter_Seek :: "('k::linorder, 'v) SkipList \<Rightarrow> 'k \<Rightarrow> iter option" where
  "Iter_Seek s target = map_option fst (FindRemovePoint target s)"

definition Iter_SeekToFirst :: "('k, 'v) SkipList \<Rightarrow> iter option" where
  "Iter_SeekToFirst s = next_at (mem s) (sl_head s) 0"

definition Iter_SeekToLast :: "('k, 'v) SkipList \<Rightarrow> iter option" where
  "Iter_SeekToLast s =
     Option.bind (FindLast s) (\<lambda>a. Some (if a = sl_head s then None else Some a))"

end
