(* ===== verification/Sorted_Map.thy ===== *)
theory Sorted_Map
  imports Prelude
begin

text \<open>
  \<^verbatim>\<open>ds/treemap.h\<close> and \<^verbatim>\<open>ds/hashmap.h\<close> name \<open>std::map\<close> and \<open>std::unordered_map\<close>.
  A \<open>std::map\<close> is the list of its entries in key order, which is the order its
  iterators follow. This theory has the operations the sources use of it, and the
  lemmas by which a structure with the same entries is recognised as that map.
\<close>

section \<open>Operations of an ordered map\<close>

type_synonym ('k, 'v) smap = "('k \<times> 'v) list"

text \<open>\<open>m[k] = v\<close>\<close>

fun smap_put :: "'k::linorder \<Rightarrow> 'v \<Rightarrow> ('k, 'v) smap \<Rightarrow> ('k, 'v) smap" where
  "smap_put k v [] = [(k, v)]"
| "smap_put k v ((k', v') # m) =
     (if k < k' then (k, v) # (k', v') # m
      else if k = k' then (k, v) # m else (k', v') # smap_put k v m)"

text \<open>\<open>m.emplace(k, v)\<close> keeps an entry that is there.\<close>

definition smap_emplace :: "'k::linorder \<Rightarrow> 'v \<Rightarrow> ('k, 'v) smap \<Rightarrow> ('k, 'v) smap" where
  "smap_emplace k v m = (if map_of m k = None then smap_put k v m else m)"

text \<open>\<open>m.erase(k)\<close>\<close>

fun smap_erase :: "'k::linorder \<Rightarrow> ('k, 'v) smap \<Rightarrow> ('k, 'v) smap" where
  "smap_erase k [] = []"
| "smap_erase k ((k', v') # m) = (if k = k' then m else (k', v') # smap_erase k m)"

definition sorted_keys :: "('k::linorder, 'v) smap \<Rightarrow> bool" where
  "sorted_keys m \<longleftrightarrow> sorted_wrt (<) (map fst m)"

section \<open>Lemmas\<close>

lemma sorted_keys_simps [simp]:
  "sorted_keys []"
  "sorted_keys (e # m) \<longleftrightarrow> (\<forall>k\<in>fst ` set m. fst e < k) \<and> sorted_keys m"
  by (auto simp: sorted_keys_def)

lemma sorted_keys_distinct: "sorted_keys m \<Longrightarrow> distinct (map fst m)"
  by (simp add: sorted_keys_def strict_sorted_iff)

lemma keys_smap_put [simp]: "fst ` set (smap_put k v m) = insert k (fst ` set m)"
  by (induction k v m rule: smap_put.induct) auto

lemma sorted_smap_put [simp]: "sorted_keys m \<Longrightarrow> sorted_keys (smap_put k v m)"
  by (induction k v m rule: smap_put.induct) auto

lemma map_of_smap_put [simp]: "map_of (smap_put k v m) = (map_of m)(k \<mapsto> v)"
  by (induction k v m rule: smap_put.induct) (auto simp: fun_upd_twist)

lemma keys_smap_erase: "sorted_keys m \<Longrightarrow> fst ` set (smap_erase k m) = fst ` set m - {k}"
  by (induction k m rule: smap_erase.induct) auto

lemma sorted_smap_erase [simp]: "sorted_keys m \<Longrightarrow> sorted_keys (smap_erase k m)"
  by (induction k m rule: smap_erase.induct) (auto simp: keys_smap_erase)

lemma map_of_None_less: "\<forall>j\<in>fst ` set m. k < j \<Longrightarrow> map_of m (k :: 'k::linorder) = None"
  by (force simp: map_of_eq_None_iff)

lemma map_of_smap_erase [simp]: "sorted_keys m \<Longrightarrow> map_of (smap_erase k m) = (map_of m)(k := None)"
  by (induction k m rule: smap_erase.induct) (auto simp: map_of_None_less fun_upd_twist)

lemma sorted_smap_emplace [simp]: "sorted_keys m \<Longrightarrow> sorted_keys (smap_emplace k v m)"
  by (simp add: smap_emplace_def)

lemma map_of_smap_emplace:
  "map_of (smap_emplace k v m) = (case map_of m k of None \<Rightarrow> (map_of m)(k \<mapsto> v) | Some _ \<Rightarrow> map_of m)"
  by (simp add: smap_emplace_def split: option.split)

lemma length_smap_put: "length (smap_put k v m) = (if k \<in> fst ` set m then length m else Suc (length m))" if "sorted_keys m"
  using that by (induction k v m rule: smap_put.induct) auto

lemma length_smap_erase: "length (smap_erase k m) = (if k \<in> fst ` set m then length m - 1 else length m)"
  by (induction k m rule: smap_erase.induct) (auto dest: length_pos_if_in_set)

text \<open>The two updates in terms of the entries around the key.\<close>

lemma smap_put_filter:
  "sorted_keys m \<Longrightarrow> smap_put k v m = filter (\<lambda>e. fst e < k) m @ (k, v) # filter (\<lambda>e. k < fst e) m"
proof (induction k v m rule: smap_put.induct)
  case (2 k v k' v' m)
  have all: "filter (\<lambda>e. fst e < k) m = [] \<and> filter (\<lambda>e. k < fst e) m = m" if "k \<le> k'"
    using 2(2) that by (force simp: filter_empty_conv filter_id_conv)
  show ?case
  proof (cases "k \<le> k'")
    case True
    then show ?thesis using all by (auto simp: less_le)
  next
    case False
    then show ?thesis using 2 by auto
  qed
qed simp

lemma smap_erase_filter: "sorted_keys m \<Longrightarrow> smap_erase k m = filter (\<lambda>e. fst e \<noteq> k) m"
proof (induction k m rule: smap_erase.induct)
  case (2 k k' v' m)
  have "filter (\<lambda>e. fst e \<noteq> k') m = m"
    using 2(2) by (force simp: filter_id_conv)
  then show ?case using 2 by auto
qed simp

end
