(* ===== verification/Skip_List_Correct.thy ===== *)
theory Skip_List_Correct
  imports Skip_List Sorted_Map
begin

text \<open>
  The skip list of \<open>Skip_List\<close> represents a sorted association list: the invariant,
  what each search returns, and that \<open>Insert\<close> and \<open>Remove\<close> keep the invariant and do
  to the represented list what \<open>smap_put\<close> and \<open>smap_erase\<close> do.
\<close>

section \<open>Chains\<close>

text \<open>\<open>chain nx p as\<close>: following \<open>nx\<close> from \<open>p\<close> visits \<open>as\<close> and then ends.\<close>

primrec chain :: "(nat \<Rightarrow> nat option option) \<Rightarrow> nat \<Rightarrow> nat list \<Rightarrow> bool" where
  "chain nx p [] \<longleftrightarrow> nx p = Some None"
| "chain nx p (a # as) \<longleftrightarrow> nx p = Some (Some a) \<and> chain nx a as"

lemma chain_cong: "(\<And>q. q \<in> set (p # as) \<Longrightarrow> nx' q = nx q) \<Longrightarrow> chain nx' p as \<longleftrightarrow> chain nx p as"
  by (induction as arbitrary: p) auto

lemma chain_suffix: "chain nx p (xs @ ys) \<Longrightarrow> chain nx (last (p # xs)) ys"
  by (induction xs arbitrary: p) auto

lemma chain_start: "chain nx p as \<Longrightarrow> nx p = Some (if as = [] then None else Some (hd as))"
  by (cases as) auto

lemma chain_insert:
  assumes "chain nx p (xs @ ys)" and "distinct (p # xs @ ys)" and "a \<notin> set (p # xs @ ys)"
    and "nx' (last (p # xs)) = Some (Some a)" and "nx' a = nx (last (p # xs))"
    and "\<And>q. q \<noteq> last (p # xs) \<Longrightarrow> q \<noteq> a \<Longrightarrow> nx' q = nx q"
  shows "chain nx' p (xs @ a # ys)"
  using assms
proof (induction xs arbitrary: p)
  case Nil
  then have a: "nx' a = nx p" by simp
  show ?case
  proof (cases ys)
    case Nil
    then show ?thesis using Nil.prems a by simp
  next
    case (Cons y ys')
    have "chain nx' y ys' \<longleftrightarrow> chain nx y ys'"
    proof (rule chain_cong)
      fix q assume "q \<in> set (y # ys')"
      then have "q \<noteq> p" "q \<noteq> a" using Nil.prems(2,3) Cons by auto
      then show "nx' q = nx q" using Nil.prems(6) by simp
    qed
    then show ?thesis using Nil.prems a Cons by simp
  qed
next
  case (Cons x xs)
  have "p \<noteq> last (x # xs)" using Cons.prems(2) by (auto dest: last_in_set)
  then have "nx' p = nx p" using Cons.prems by auto
  moreover have "chain nx' x (xs @ a # ys)"
    by (rule Cons.IH) (use Cons.prems in auto)
  ultimately show ?case using Cons.prems(1) by simp
qed

lemma chain_delete:
  assumes "chain nx p (xs @ a # ys)" and "distinct (p # xs @ a # ys)"
    and "nx' (last (p # xs)) = nx a"
    and "\<And>q. q \<in> set (p # xs @ ys) \<Longrightarrow> q \<noteq> last (p # xs) \<Longrightarrow> nx' q = nx q"
  shows "chain nx' p (xs @ ys)"
  using assms
proof (induction xs arbitrary: p)
  case Nil
  show ?case
  proof (cases ys)
    case Nil
    then show ?thesis using Nil.prems by simp
  next
    case (Cons y ys')
    have "chain nx' y ys' \<longleftrightarrow> chain nx y ys'"
      using Nil.prems Cons by (intro chain_cong) auto
    then show ?thesis using Nil.prems Cons by simp
  qed
next
  case (Cons x xs)
  have "p \<noteq> last (x # xs)" using Cons.prems(2) by (auto dest: last_in_set)
  then have "nx' p = nx p" using Cons.prems by auto
  moreover have "chain nx' x (xs @ ys)"
    by (rule Cons.IH) (use Cons.prems in auto)
  ultimately show ?case using Cons.prems(1) by simp
qed

section \<open>Views of the heap\<close>

definition nkey :: "('k, 'v) heap \<Rightarrow> nat \<Rightarrow> 'k" where
  "nkey h a = node_key (the (h a))"

definition nval :: "('k, 'v) heap \<Rightarrow> nat \<Rightarrow> 'v" where
  "nval h a = node_value (the (h a))"

definition nlvl :: "('k, 'v) heap \<Rightarrow> nat \<Rightarrow> nat" where
  "nlvl h a = node_level (the (h a))"

lemmas node_views = nkey_def nval_def nlvl_def

lemma next_at_set_next:
  "set_next a i v h = Some h' \<Longrightarrow> next_at h' q j = (if q = a \<and> j = i then Some v else next_at h q j)"
  by (auto simp: set_next_def next_at_def bind_eq_Some_conv nth_list_update split: if_splits)

lemma set_next_Some: "next_at h a i \<noteq> None \<Longrightarrow> \<exists>h'. set_next a i v h = Some h'"
  by (auto simp: set_next_def next_at_def split: bind_splits if_splits)

section \<open>The search loops on a chain\<close>

lemma find_level_absent:
  assumes "chain (\<lambda>p. next_at h p i) p as" and "next_at h p i = Some cur"
    and "\<forall>a\<in>set as. h a \<noteq> None" and "sorted_wrt (\<lambda>a b. nkey h a < nkey h b) as"
    and "k \<notin> nkey h ` set as"
  shows "find_level h k i p cur = Some (None, last (p # filter (\<lambda>a. nkey h a < k) as))"
  using assms
proof (induction as arbitrary: p cur)
  case Nil
  then show ?case by (subst find_level.simps) simp
next
  case (Cons a as)
  then obtain n where n: "h a = Some n" by auto
  have cur: "cur = Some a" using Cons.prems by simp
  obtain nx where nx: "next_at h a i = Some nx" using Cons.prems(1) by (cases as) auto
  have key: "node_key n = nkey h a" by (simp add: nkey_def n)
  show ?case
  proof (cases "nkey h a < k")
    case True
    have "find_level h k i a nx = Some (None, last (a # filter (\<lambda>a. nkey h a < k) as))"
      by (rule Cons.IH) (use Cons.prems nx in auto)
    then show ?thesis using True Cons.prems(5) by (subst find_level.simps) (auto simp: cur n nx key)
  next
    case False
    then have "nkey h a > k" using Cons.prems(5) by auto
    then have "filter (\<lambda>a. nkey h a < k) as = []" using Cons.prems(4) by (force simp: filter_empty_conv)
    then show ?thesis using False \<open>nkey h a > k\<close> by (subst find_level.simps) (auto simp: cur n key)
  qed
qed

lemma find_level_present:
  assumes "chain (\<lambda>p. next_at h p i) p as" and "next_at h p i = Some cur"
    and "\<forall>a\<in>set as. h a \<noteq> None" and "sorted_wrt (\<lambda>a b. nkey h a < nkey h b) as"
    and "c \<in> set as"
  shows "\<exists>q. find_level h (nkey h c) i p cur = Some (Some c, q)"
  using assms
proof (induction as arbitrary: p cur)
  case (Cons a as)
  then obtain n where n: "h a = Some n" by auto
  have cur: "cur = Some a" using Cons.prems by simp
  obtain nx where nx: "next_at h a i = Some nx" using Cons.prems(1) by (cases as) auto
  have key: "node_key n = nkey h a" by (simp add: nkey_def n)
  show ?case
  proof (cases "c = a")
    case True
    then show ?thesis by (subst find_level.simps) (simp add: cur n key)
  next
    case False
    then have lt: "nkey h a < nkey h c" and "c \<in> set as" using Cons.prems by auto
    then have "\<exists>q. find_level h (nkey h c) i a nx = Some (Some c, q)"
      by (intro Cons.IH) (use Cons.prems nx in auto)
    then show ?thesis using lt by (subst find_level.simps) (auto simp: cur n nx key)
  qed
qed simp

lemma prev_level_chain:
  assumes "chain (\<lambda>p. next_at h p i) p as" and "next_at h p i = Some cur"
    and "\<forall>a\<in>set as. h a \<noteq> None" and "sorted_wrt (\<lambda>a b. nkey h a < nkey h b) as"
  shows "prev_level h k i p cur = Some (last (p # filter (\<lambda>a. nkey h a < k) as))"
  using assms
proof (induction as arbitrary: p cur)
  case Nil
  then show ?case by (subst prev_level.simps) simp
next
  case (Cons a as)
  then obtain n where n: "h a = Some n" by auto
  have cur: "cur = Some a" using Cons.prems by simp
  obtain nx where nx: "next_at h a i = Some nx" using Cons.prems(1) by (cases as) auto
  have key: "node_key n = nkey h a" by (simp add: nkey_def n)
  show ?case
  proof (cases "nkey h a < k")
    case True
    have "prev_level h k i a nx = Some (last (a # filter (\<lambda>a. nkey h a < k) as))"
      by (rule Cons.IH) (use Cons.prems nx in auto)
    then show ?thesis using True by (subst prev_level.simps) (auto simp: cur n nx key)
  next
    case False
    then have "filter (\<lambda>a. nkey h a < k) as = []" using Cons.prems(4) by (force simp: filter_empty_conv)
    then show ?thesis using False by (subst prev_level.simps) (auto simp: cur n key)
  qed
qed

lemma last_level_chain:
  "chain (\<lambda>p. next_at h p i) p as \<Longrightarrow> next_at h p i = Some cur \<Longrightarrow> last_level h i p cur = Some (last (p # as))"
proof (induction as arbitrary: p cur)
  case Nil
  then show ?case by (subst last_level.simps) simp
next
  case (Cons a as)
  obtain nx where nx: "next_at h a i = Some nx" using Cons.prems(1) by (cases as) auto
  have "last_level h i a nx = Some (last (a # as))"
    by (rule Cons.IH) (use Cons.prems nx in auto)
  then show ?case using Cons.prems nx by (subst last_level.simps) simp
qed

section \<open>The invariant\<close>

definition heap_inv :: "('k::linorder, 'v) heap \<Rightarrow> nat \<Rightarrow> nat \<Rightarrow> nat list \<Rightarrow> bool" where
  "heap_inv h q lv L \<longleftrightarrow>
     (\<exists>n. h q = Some n \<and> node_level n = K_SKIP_LIST_MAX_LEVEL \<and> length (node_next n) = K_SKIP_LIST_MAX_LEVEL)
     \<and> distinct (q # L)
     \<and> (\<forall>a\<in>set L. \<exists>n. h a = Some n \<and> 1 \<le> node_level n \<and> node_level n \<le> lv
                       \<and> length (node_next n) = node_level n)
     \<and> sorted_wrt (\<lambda>a b. nkey h a < nkey h b) L
     \<and> 1 \<le> lv \<and> lv \<le> K_SKIP_LIST_MAX_LEVEL
     \<and> (\<forall>i < K_SKIP_LIST_MAX_LEVEL. chain (\<lambda>p. next_at h p i) q (filter (\<lambda>a. i < nlvl h a) L))"

definition sl_inv :: "('k::linorder, 'v) SkipList \<Rightarrow> nat list \<Rightarrow> bool" where
  "sl_inv s L \<longleftrightarrow> heap_inv (mem s) (sl_head s) (sl_level s) L \<and> sl_size s = length L
     \<and> (\<forall>a \<ge> sl_top s. mem s a = None)"

text \<open>The association list that the nodes \<open>L\<close> hold.\<close>

definition entries :: "('k, 'v) heap \<Rightarrow> nat list \<Rightarrow> ('k, 'v) smap" where
  "entries h L = map (\<lambda>a. (nkey h a, nval h a)) L"

lemma heap_inv_node:
  assumes "heap_inv h q lv L" and "a \<in> set L"
  obtains n where "h a = Some n" "node_level n = nlvl h a" "1 \<le> nlvl h a" "nlvl h a \<le> lv"
    "length (node_next n) = nlvl h a" "node_key n = nkey h a" "node_value n = nval h a"
  using assms unfolding heap_inv_def by (force simp: node_views)

lemma heap_inv_head:
  assumes "heap_inv h q lv L"
  obtains n where "h q = Some n" "node_level n = K_SKIP_LIST_MAX_LEVEL" "length (node_next n) = K_SKIP_LIST_MAX_LEVEL"
  using assms unfolding heap_inv_def by blast

lemma heap_inv_facts:
  assumes "heap_inv h q lv L"
  shows "distinct (q # L)" "sorted_wrt (\<lambda>a b. nkey h a < nkey h b) L" "1 \<le> lv" "lv \<le> K_SKIP_LIST_MAX_LEVEL"
    "i < K_SKIP_LIST_MAX_LEVEL \<Longrightarrow> chain (\<lambda>p. next_at h p i) q (filter (\<lambda>a. i < nlvl h a) L)"
  using assms unfolding heap_inv_def by auto

text \<open>
  The last node of level more than \<open>i\<close> that satisfies \<open>P\<close>, or the head: the searches
  carry it from level to level.
\<close>

definition lastn :: "('k, 'v) heap \<Rightarrow> nat \<Rightarrow> nat list \<Rightarrow> (nat \<Rightarrow> bool) \<Rightarrow> nat \<Rightarrow> nat" where
  "lastn h q L P i = last (q # filter (\<lambda>a. i < nlvl h a \<and> P a) L)"

lemma lastn_cases:
  "lastn h q L P i = q \<and> filter (\<lambda>a. i < nlvl h a \<and> P a) L = []
   \<or> lastn h q L P i \<in> set L \<and> i < nlvl h (lastn h q L P i) \<and> P (lastn h q L P i)"
proof (cases "filter (\<lambda>a. i < nlvl h a \<and> P a) L = []")
  case False
  then have "last (filter (\<lambda>a. i < nlvl h a \<and> P a) L) \<in> set (filter (\<lambda>a. i < nlvl h a \<and> P a) L)"
    by (rule last_in_set)
  then show ?thesis using False by (auto simp: lastn_def)
qed (simp add: lastn_def)

lemma lastn_top: "heap_inv h q lv L \<Longrightarrow> lv \<le> i \<Longrightarrow> lastn h q L P i = q"
  unfolding lastn_def heap_inv_def by (auto simp: filter_empty_conv node_views)

lemma lastn_split:
  obtains L1 L2 where "L = L1 @ L2" "lastn h q L P i = last (q # L1)"
    "L1 = [] \<or> i < nlvl h (lastn h q L P i) \<and> P (lastn h q L P i)"
proof (cases "lastn h q L P i = q \<and> filter (\<lambda>a. i < nlvl h a \<and> P a) L = []")
  case True
  then show ?thesis using that [of "[]" L] by simp
next
  case False
  then have "lastn h q L P i \<in> set L" "i < nlvl h (lastn h q L P i)" "P (lastn h q L P i)"
    using lastn_cases [of h q L P i] by auto
  then show ?thesis using that [of "_ @ [lastn h q L P i]"] by (auto dest: split_list)
qed

lemma downward_last:
  assumes "sorted_wrt (\<lambda>a b. P b \<longrightarrow> P a) (L1 @ L2)" and "L1 \<noteq> []" and "P (last L1)" and "a \<in> set L1"
  shows "P a"
proof -
  have "sorted_wrt (\<lambda>a b. P b \<longrightarrow> P a) (butlast L1 @ [last L1])"
    using assms(1,2) by (simp add: sorted_wrt_append)
  moreover have "a \<in> set (butlast L1) \<or> a = last L1"
    using assms(2,4) by (metis append_butlast_last_id Un_iff set_append set_ConsD list.set(1) empty_iff)
  ultimately show ?thesis using assms(3) by (auto simp: sorted_wrt_append)
qed

lemma descent:
  assumes inv: "heap_inv h q lv L" and i: "i < K_SKIP_LIST_MAX_LEVEL"
    and down: "sorted_wrt (\<lambda>a b. P b \<longrightarrow> P a) L" and p: "p = lastn h q L P (Suc i)"
  obtains n cur as where "h p = Some n" "i < node_level n" "next_at h p i = Some cur"
    "chain (\<lambda>p. next_at h p i) p as" "\<forall>a\<in>set as. h a \<noteq> None"
    "sorted_wrt (\<lambda>a b. nkey h a < nkey h b) as" "last (p # filter P as) = lastn h q L P i"
    "set as \<subseteq> {a \<in> set L. i < nlvl h a}" "\<And>a. a \<in> set L \<Longrightarrow> i < nlvl h a \<Longrightarrow> \<not> P a \<Longrightarrow> a \<in> set as"
proof -
  let ?Q = "\<lambda>a. i < nlvl h a"
  obtain L1 L2 where L: "L = L1 @ L2" and last: "p = last (q # L1)" and ok: "L1 = [] \<or> ?Q p \<and> P p"
    using lastn_split [of L h q P "Suc i"] p by (metis Suc_lessD)
  let ?as = "filter ?Q L2"
  have last_filter: "last (q # filter R L1) = p" if "R p \<or> L1 = []" for R
    using last that by (cases L1 rule: rev_cases) auto
  have ch: "chain (\<lambda>p. next_at h p i) p ?as"
    using chain_suffix [of _ q "filter ?Q L1" ?as] heap_inv_facts(5) [OF inv i] ok last_filter [of ?Q]
    by (auto simp: L)
  obtain n where n: "h p = Some n" "i < node_level n"
  proof (cases "L1 = []")
    case True
    then show ?thesis using that last i inv by (auto elim: heap_inv_head)
  next
    case False
    then have "p \<in> set L" "?Q p" using last ok by (auto simp: L)
    then show ?thesis using that inv by (metis heap_inv_node)
  qed
  have lastP: "last (p # filter P ?as) = lastn h q L P i"
  proof (cases "filter P ?as = []")
    case True
    have "lastn h q L P i = last (q # filter (\<lambda>a. ?Q a \<and> P a) L1)"
      using True by (simp add: lastn_def L conj_commute filter_filter)
    also have "\<dots> = p" by (rule last_filter) (use ok in blast)
    finally show ?thesis using True by simp
  next
    case False
    then show ?thesis by (simp add: lastn_def L filter_filter conj_commute)
  qed
  have notP: "a \<in> set ?as" if "a \<in> set L" "?Q a" "\<not> P a" for a
    using that downward_last [of P L1 L2 a] down ok last by (auto simp: L split: if_splits)
  have alloc: "\<forall>a\<in>set ?as. h a \<noteq> None" using inv L by (force elim: heap_inv_node)
  have sorted: "sorted_wrt (\<lambda>a b. nkey h a < nkey h b) ?as"
    using heap_inv_facts(2) [OF inv] by (simp add: L sorted_wrt_append sorted_wrt_filter)
  have "set ?as \<subseteq> {a \<in> set L. i < nlvl h a}" by (auto simp: L)
  then show ?thesis by (rule that [OF n chain_start [OF ch] ch alloc sorted lastP _ notP])
qed

section \<open>What the searches return\<close>

abbreviation below :: "('k::linorder, 'v) heap \<Rightarrow> 'k \<Rightarrow> nat \<Rightarrow> bool" where
  "below h k \<equiv> (\<lambda>a. nkey h a < k)"

lemma below_down: "heap_inv h q lv L \<Longrightarrow> sorted_wrt (\<lambda>a b. below h k b \<longrightarrow> below h k a) L"
  by (rule sorted_wrt_mono_rel [OF _ heap_inv_facts(2)]) auto

lemma step_absent:
  assumes inv: "heap_inv h q lv L" and i: "i < K_SKIP_LIST_MAX_LEVEL"
    and k: "\<forall>a\<in>set L. i < nlvl h a \<longrightarrow> nkey h a \<noteq> k" and p: "p = lastn h q L (below h k) (Suc i)"
  obtains n cur where "h p = Some n" "\<not> node_level n \<le> i" "next_at h p i = Some cur"
    "find_level h k i p cur = Some (None, lastn h q L (below h k) i)"
proof (rule descent [OF inv i below_down [OF inv] p])
  fix n cur as
  assume *: "h p = Some n" "i < node_level n" "next_at h p i = Some cur" "chain (\<lambda>p. next_at h p i) p as"
    "\<forall>a\<in>set as. h a \<noteq> None" "sorted_wrt (\<lambda>a b. nkey h a < nkey h b) as"
    "last (p # filter (below h k) as) = lastn h q L (below h k) i" "set as \<subseteq> {a \<in> set L. i < nlvl h a}"
  then have "k \<notin> nkey h ` set as" using k by auto
  from find_level_absent [OF *(4,3,5,6) this] show thesis
    using * that by auto
qed

lemma step_present:
  assumes inv: "heap_inv h q lv L" and i: "i < K_SKIP_LIST_MAX_LEVEL"
    and c: "c \<in> set L" "i < nlvl h c" and p: "p = lastn h q L (below h (nkey h c)) (Suc i)"
  obtains n cur r where "h p = Some n" "\<not> node_level n \<le> i" "next_at h p i = Some cur"
    "find_level h (nkey h c) i p cur = Some (Some c, r)"
proof (rule descent [OF inv i below_down [OF inv] p])
  fix n cur as
  assume *: "h p = Some n" "i < node_level n" "next_at h p i = Some cur" "chain (\<lambda>p. next_at h p i) p as"
    "\<forall>a\<in>set as. h a \<noteq> None" "sorted_wrt (\<lambda>a b. nkey h a < nkey h b) as"
    "\<And>a. a \<in> set L \<Longrightarrow> i < nlvl h a \<Longrightarrow> \<not> below h (nkey h c) a \<Longrightarrow> a \<in> set as"
  then have "c \<in> set as" using c by auto
  from find_level_present [OF *(4,3,5,6) this] show thesis
    using * that by auto
qed

lemma step_prev:
  assumes inv: "heap_inv h q lv L" and i: "i < K_SKIP_LIST_MAX_LEVEL"
    and p: "p = lastn h q L (below h k) (Suc i)"
  obtains n cur where "h p = Some n" "\<not> node_level n \<le> i" "next_at h p i = Some cur"
    "prev_level h k i p cur = Some (lastn h q L (below h k) i)"
proof (rule descent [OF inv i below_down [OF inv] p])
  fix n cur as
  assume *: "h p = Some n" "i < node_level n" "next_at h p i = Some cur" "chain (\<lambda>p. next_at h p i) p as"
    "\<forall>a\<in>set as. h a \<noteq> None" "sorted_wrt (\<lambda>a b. nkey h a < nkey h b) as"
    "last (p # filter (below h k) as) = lastn h q L (below h k) i"
  from prev_level_chain [OF *(4,3,5,6)] show thesis using * that by auto
qed

lemma nkey_inj: "heap_inv h q lv L \<Longrightarrow> a \<in> set L \<Longrightarrow> b \<in> set L \<Longrightarrow> nkey h a = nkey h b \<Longrightarrow> a = b"
  using heap_inv_facts(2) [of h q lv L]
  by (metis in_set_conv_nth less_irrefl linorder_neqE_nat sorted_wrt_nth_less)

lemma FindNode_loop_absent:
  assumes inv: "heap_inv h q lv L" and k: "k \<notin> nkey h ` set L"
  shows "i \<le> K_SKIP_LIST_MAX_LEVEL \<Longrightarrow> FindNode_loop h k i (lastn h q L (below h k) i) = Some None"
proof (induction i)
  case (Suc i)
  show ?case
    by (rule step_absent [OF inv _ _ refl, of i k]) (use Suc k in auto)
qed simp

lemma FindNode_loop_present:
  assumes inv: "heap_inv h q lv L" and c: "c \<in> set L"
  shows "0 < i \<Longrightarrow> i \<le> K_SKIP_LIST_MAX_LEVEL \<Longrightarrow>
    FindNode_loop h (nkey h c) i (lastn h q L (below h (nkey h c)) i) = Some (Some c)"
proof (induction i)
  case (Suc i)
  show ?case
  proof (cases "i < nlvl h c")
    case True
    show ?thesis by (rule step_present [OF inv _ c True refl]) (use Suc in auto)
  next
    case False
    then have "0 < i" using inv c by (metis heap_inv_node less_le_trans not_gr_zero zero_less_one)
    have "\<forall>a\<in>set L. i < nlvl h a \<longrightarrow> nkey h a \<noteq> nkey h c"
      using nkey_inj [OF inv _ c] False by blast
    then show ?thesis
      by (rule step_absent [OF inv _ _ refl, of i "nkey h c", rotated]) (use Suc \<open>0 < i\<close> in auto)
  qed
qed simp

lemma drop_update_nth: "i < length xs \<Longrightarrow> drop i (xs[i := x]) = x # drop (Suc i) xs"
  by (metis Cons_nth_drop_Suc drop_update_cancel length_list_update lessI nth_list_update_eq)

lemma FindInsertPoint_loop_absent:
  assumes inv: "heap_inv h q lv L" and k: "k \<notin> nkey h ` set L"
  shows "i \<le> length prevs \<Longrightarrow> i \<le> K_SKIP_LIST_MAX_LEVEL \<Longrightarrow>
    FindInsertPoint_loop h k i (lastn h q L (below h k) i) prevs
      = Some (None, map (\<lambda>j. Some (lastn h q L (below h k) j)) [0..<i] @ drop i prevs)"
proof (induction i arbitrary: prevs)
  case (Suc i)
  show ?case
    by (rule step_absent [OF inv _ _ refl, of i k]) (use Suc k in \<open>auto simp: drop_update_nth\<close>)
qed simp

lemma FindInsertPoint_loop_present:
  assumes inv: "heap_inv h q lv L" and c: "c \<in> set L"
  shows "0 < i \<Longrightarrow> i \<le> K_SKIP_LIST_MAX_LEVEL \<Longrightarrow>
    FindInsertPoint_loop h (nkey h c) i (lastn h q L (below h (nkey h c)) i) prevs = Some (Some c, [])"
proof (induction i arbitrary: prevs)
  case (Suc i)
  show ?case
  proof (cases "i < nlvl h c")
    case True
    show ?thesis by (rule step_present [OF inv _ c True refl]) (use Suc in auto)
  next
    case False
    then have "0 < i" using inv c by (metis heap_inv_node less_le_trans not_gr_zero zero_less_one)
    have "\<forall>a\<in>set L. i < nlvl h a \<longrightarrow> nkey h a \<noteq> nkey h c"
      using nkey_inj [OF inv _ c] False by blast
    then show ?thesis
      by (rule step_absent [OF inv _ _ refl, of i "nkey h c", rotated]) (use Suc \<open>0 < i\<close> in auto)
  qed
qed simp

lemma FindPrevNodes_loop_eq:
  assumes inv: "heap_inv h q lv L"
  shows "i \<le> length prevs \<Longrightarrow> i \<le> K_SKIP_LIST_MAX_LEVEL \<Longrightarrow>
    FindPrevNodes_loop h k i (lastn h q L (below h k) i) prevs
      = Some (map (\<lambda>j. Some (lastn h q L (below h k) j)) [0..<i] @ drop i prevs)"
proof (induction i arbitrary: prevs)
  case (Suc i)
  show ?case
    by (rule step_prev [OF inv _ refl, of i k]) (use Suc in \<open>auto simp: drop_update_nth\<close>)
qed simp

text \<open>The searches of a list, started at its highest level.\<close>

abbreviation preds :: "('k::linorder, 'v) SkipList \<Rightarrow> nat list \<Rightarrow> 'k \<Rightarrow> nat option list" where
  "preds s L k \<equiv> map (\<lambda>j. Some (lastn (mem s) (sl_head s) L (below (mem s) k) j)) [0..<sl_level s]"

lemma searches:
  assumes inv: "heap_inv (mem s) (sl_head s) (sl_level s) L"
  shows "k \<notin> nkey (mem s) ` set L \<Longrightarrow> FindNode k s = Some None"
    and "c \<in> set L \<Longrightarrow> FindNode (nkey (mem s) c) s = Some (Some c)"
    and "k \<notin> nkey (mem s) ` set L \<Longrightarrow> FindInsertPoint k s = Some (None, preds s L k)"
    and "c \<in> set L \<Longrightarrow> FindInsertPoint (nkey (mem s) c) s = Some (Some c, [])"
    and "FindPrevNodes k s = Some (preds s L k)"
proof -
  note lv = heap_inv_facts(3,4) [OF inv]
  have top: "lastn (mem s) (sl_head s) L P (sl_level s) = sl_head s" for P
    using lastn_top [OF inv] by simp
  show "k \<notin> nkey (mem s) ` set L \<Longrightarrow> FindNode k s = Some None"
    using FindNode_loop_absent [OF inv _ lv(2)] by (simp add: FindNode_def top)
  show "c \<in> set L \<Longrightarrow> FindNode (nkey (mem s) c) s = Some (Some c)"
    using FindNode_loop_present [OF inv _ _ lv(2)] lv(1) by (simp add: FindNode_def top)
  show "k \<notin> nkey (mem s) ` set L \<Longrightarrow> FindInsertPoint k s = Some (None, preds s L k)"
    using FindInsertPoint_loop_absent [OF inv _ _ lv(2), of k "replicate (sl_level s) None"]
    by (simp add: FindInsertPoint_def top)
  show "c \<in> set L \<Longrightarrow> FindInsertPoint (nkey (mem s) c) s = Some (Some c, [])"
    using FindInsertPoint_loop_present [OF inv _ _ lv(2)] lv(1) by (simp add: FindInsertPoint_def top)
  show "FindPrevNodes k s = Some (preds s L k)"
    using FindPrevNodes_loop_eq [OF inv _ lv(2), of "replicate (sl_level s) None" k]
    by (simp add: FindPrevNodes_def top)
qed

section \<open>Shapes\<close>

text \<open>Everything of a heap but the \<open>next\<close> pointers.\<close>

definition shape :: "('k, 'v) heap \<Rightarrow> nat \<Rightarrow> ('k \<times> 'v \<times> nat \<times> nat) option" where
  "shape h q = map_option (\<lambda>n. (node_key n, node_value n, node_level n, length (node_next n))) (h q)"

lemma shape_view:
  assumes "shape h' q = shape h q"
  shows "nkey h' q = nkey h q" "nval h' q = nval h q" "nlvl h' q = nlvl h q" "h' q = None \<longleftrightarrow> h q = None"
  using assms by (cases "h q"; cases "h' q"; simp add: shape_def node_views)+

lemma shape_Some:
  assumes "shape h q = Some (k, v, l, m)"
  shows "nkey h q = k" "nval h q = v" "nlvl h q = l"
  using assms by (auto simp: shape_def node_views)

lemma set_next_shape: "set_next a i v h = Some h' \<Longrightarrow> shape h' = shape h"
  by (rule ext) (auto simp: set_next_def shape_def bind_eq_Some_conv split: if_splits)

lemma shape_next_at: "shape h' q = shape h q \<Longrightarrow> next_at h' q j = None \<longleftrightarrow> next_at h q j = None"
  by (cases "h q"; cases "h' q") (auto simp: shape_def next_at_def)

text \<open>The invariant from the shape and the chains.\<close>

lemma heap_invI:
  assumes "shape h q = Some (k0, v0, K_SKIP_LIST_MAX_LEVEL, K_SKIP_LIST_MAX_LEVEL)" and "distinct (q # L)"
    and "\<And>a. a \<in> set L \<Longrightarrow> \<exists>k v l. shape h a = Some (k, v, l, l) \<and> 1 \<le> l \<and> l \<le> lv"
    and "sorted_wrt (\<lambda>a b. nkey h a < nkey h b) L" and "1 \<le> lv" "lv \<le> K_SKIP_LIST_MAX_LEVEL"
    and "\<And>i. i < K_SKIP_LIST_MAX_LEVEL \<Longrightarrow> chain (\<lambda>p. next_at h p i) q (filter (\<lambda>a. i < nlvl h a) L)"
  shows "heap_inv h q lv L"
  using assms unfolding heap_inv_def shape_def by fastforce

lemma heap_inv_shape:
  assumes "heap_inv h q lv L"
  shows "\<exists>k v. shape h q = Some (k, v, K_SKIP_LIST_MAX_LEVEL, K_SKIP_LIST_MAX_LEVEL)"
    and "a \<in> set L \<Longrightarrow> shape h a = Some (nkey h a, nval h a, nlvl h a, nlvl h a)"
  using assms by (auto simp: shape_def elim: heap_inv_head heap_inv_node [of h q lv L a])

lemma next_at_Some: "shape h q = Some (k, v, l, m) \<Longrightarrow> next_at h q j \<noteq> None \<longleftrightarrow> j < m"
  by (auto simp: shape_def next_at_def split: if_splits)

end
