(* ===== verification/Skip_List_Update.thy ===== *)
theory Skip_List_Update
  imports Skip_List_Correct
begin

text \<open>
  \<open>Insert\<close>, \<open>Remove\<close> and the iterator of the skip list: the pointer loops, the
  preservation of the invariant, and the effect on the represented association list.
\<close>

section \<open>The pointer loops\<close>

lemma link_levels_next:
  assumes p: "\<And>j. j < m \<Longrightarrow> j < length prevs \<and> prevs ! j = Some (p j) \<and> p j \<noteq> a
      \<and> next_at h (p j) j \<noteq> None \<and> next_at h a j \<noteq> None"
  shows "\<exists>h'. link_levels a prevs m h = Some h' \<and> shape h' = shape h \<and>
    (\<forall>q j. next_at h' q j = (if j < m then if q = a then next_at h (p j) j
                             else if q = p j then Some (Some a) else next_at h q j
                             else next_at h q j))"
  using p
proof (induction m)
  case (Suc m)
  then obtain h1 where h1: "link_levels a prevs m h = Some h1" "shape h1 = shape h"
    "\<And>q j. next_at h1 q j = (if j < m then if q = a then next_at h (p j) j
                             else if q = p j then Some (Some a) else next_at h q j
                             else next_at h q j)" by (metis less_SucI)
  have m: "m < length prevs" "prevs ! m = Some (p m)" "p m \<noteq> a" "next_at h a m \<noteq> None"
    using Suc.prems [of m] by auto
  obtain nx where nx: "next_at h (p m) m = Some nx" using Suc.prems [of m] by auto
  have "next_at h1 a m \<noteq> None" using h1(3) m by simp
  then obtain h2 where h2: "set_next a m nx h1 = Some h2" by (metis set_next_Some)
  have "next_at h2 (p m) m \<noteq> None" using next_at_set_next [OF h2] h1(3) nx m by simp
  then obtain h3 where h3: "set_next (p m) m (Some a) h2 = Some h3" by (metis set_next_Some)
  have "link_levels a prevs (Suc m) h = Some h3"
    using h1 h2 h3 m nx by simp
  moreover have "shape h3 = shape h"
    using set_next_shape [OF h2] set_next_shape [OF h3] h1(2) by simp
  moreover have "next_at h3 q j = (if j < Suc m then if q = a then next_at h (p j) j
                             else if q = p j then Some (Some a) else next_at h q j
                             else next_at h q j)" for q j
    using next_at_set_next [OF h2] next_at_set_next [OF h3] h1(3) m nx by (auto simp: less_Suc_eq)
  ultimately show ?case by blast
qed auto

lemma raise_head_next:
  assumes "\<And>j. j < from + n \<Longrightarrow> next_at h q j \<noteq> None"
  shows "\<exists>h'. raise_head q a from n h = Some h' \<and> shape h' = shape h \<and>
    (\<forall>r j. next_at h' r j = (if r = q \<and> from \<le> j \<and> j < from + n then Some (Some a) else next_at h r j))"
  using assms
proof (induction n)
  case (Suc n)
  then obtain h1 where h1: "raise_head q a from n h = Some h1" "shape h1 = shape h"
    "\<And>r j. next_at h1 r j = (if r = q \<and> from \<le> j \<and> j < from + n then Some (Some a) else next_at h r j)"
    by (metis add_Suc_right less_SucI)
  have "next_at h1 q (from + n) \<noteq> None" using h1(3) Suc.prems by simp
  then obtain h2 where h2: "set_next q (from + n) (Some a) h1 = Some h2" by (metis set_next_Some)
  have "next_at h2 r j = (if r = q \<and> from \<le> j \<and> j < from + Suc n then Some (Some a) else next_at h r j)" for r j
    using next_at_set_next [OF h2] h1(3) by auto
  then show ?case using h1 h2 set_next_shape [OF h2] by auto
qed auto

lemma unlink_levels_next:
  assumes p: "\<And>j. j < m \<Longrightarrow> j < length prevs \<and> prevs ! j = Some (p j) \<and> p j \<noteq> a
      \<and> next_at h (p j) j \<noteq> None \<and> next_at h a j \<noteq> None"
  shows "\<exists>h'. unlink_levels a prevs m h = Some h' \<and> shape h' = shape h \<and>
    (\<forall>q j. next_at h' q j = (if j < m \<and> q = p j then next_at h a j else next_at h q j))"
  using p
proof (induction m)
  case (Suc m)
  then obtain h1 where h1: "unlink_levels a prevs m h = Some h1" "shape h1 = shape h"
    "\<And>q j. next_at h1 q j = (if j < m \<and> q = p j then next_at h a j else next_at h q j)" by (metis less_SucI)
  have m: "m < length prevs" "prevs ! m = Some (p m)" "p m \<noteq> a" "next_at h (p m) m \<noteq> None"
    using Suc.prems [of m] by auto
  obtain nx where nx: "next_at h a m = Some nx" using Suc.prems [of m] by auto
  have "next_at h1 (p m) m \<noteq> None" using h1(3) m by simp
  then obtain h2 where h2: "set_next (p m) m nx h1 = Some h2" by (metis set_next_Some)
  have "unlink_levels a prevs (Suc m) h = Some h2"
    using h1 h2 m nx by simp
  moreover have "next_at h2 q j = (if j < Suc m \<and> q = p j then next_at h a j else next_at h q j)" for q j
    using next_at_set_next [OF h2] h1(3) m nx by (auto simp: less_Suc_eq)
  ultimately show ?case using set_next_shape [OF h2] h1(2) by auto
qed auto

lemma lower_level_result:
  assumes "\<And>i. i < lv \<Longrightarrow> next_at h q i \<noteq> None" and "1 \<le> lv"
  shows "\<exists>l. lower_level h q lv = Some l \<and> 1 \<le> l \<and> l \<le> lv \<and> (\<forall>i. l \<le> i \<longrightarrow> i < lv \<longrightarrow> next_at h q i = Some None)"
  using assms
proof (induction h q lv rule: lower_level.induct)
  case (3 h q l)
  obtain nx where nx: "next_at h q (Suc l) = Some nx" using 3(2) by blast
  show ?case
  proof (cases nx)
    case None
    then obtain l' where "lower_level h q (Suc l) = Some l'" "1 \<le> l'" "l' \<le> Suc l"
      "\<forall>i. l' \<le> i \<longrightarrow> i < Suc l \<longrightarrow> next_at h q i = Some None"
      using 3 nx by auto
    then show ?thesis using None nx by (auto simp: less_Suc_eq)
  qed (use nx in auto)
qed auto

section \<open>Insertion\<close>

lemma split_below:
  "sorted_wrt (\<lambda>a b. P b \<longrightarrow> P a) L \<Longrightarrow> L = filter P L @ filter (\<lambda>a. \<not> P a) L"
  by (induction L) (auto simp: filter_empty_conv filter_id_conv)

lemma RandomLevel_bounds: "1 \<le> fst (RandomLevel r) \<and> fst (RandomLevel r) \<le> K_SKIP_LIST_MAX_LEVEL"
proof -
  have "l \<le> K_SKIP_LIST_MAX_LEVEL \<Longrightarrow> l \<le> fst (RandomLevel_loop l r) \<and> fst (RandomLevel_loop l r) \<le> K_SKIP_LIST_MAX_LEVEL" for l r
  proof (induction l r rule: RandomLevel_loop.induct)
    case (1 l r)
    obtain x r' where x: "Random_Next r = (x, r')" by (cases "Random_Next r")
    have eq: "RandomLevel_loop l r = (if l < K_SKIP_LIST_MAX_LEVEL
        then if x mod 4 = 0 then RandomLevel_loop (Suc l) r' else (l, r') else (l, r))"
      by (simp only: RandomLevel_loop.simps [of l r] x Let_def prod.case)
    show ?case
    proof (cases "x mod 4 = 0")
      case True
      show ?thesis unfolding eq if_P [OF True] using 1(1) [OF _ refl x [symmetric] True] 1(2) by auto
    next
      case False
      show ?thesis unfolding eq if_not_P [OF False] using 1(2) by auto
    qed
  qed
  from this [of 1 r] show ?thesis by (simp add: RandomLevel_def K_SKIP_LIST_MAX_LEVEL_def)
qed


lemma heap_inv_fresh: "heap_inv h q lv L \<Longrightarrow> h a = None \<Longrightarrow> a \<notin> set (q # L)"
  unfolding heap_inv_def by fastforce

lemma chain_inserted:
  assumes inv: "heap_inv h q lv L" and k: "k \<notin> nkey h ` set L" and a: "h a = None"
    and i: "i < K_SKIP_LIST_MAX_LEVEL"
    and nx: "\<And>r j. next_at h2 r j = (if j < l then if r = a then next_at h (lastn h q L (below h k) j) j
        else if r = lastn h q L (below h k) j then Some (Some a) else next_at h r j else next_at h r j)"
  shows "chain (\<lambda>p. next_at h2 p i) q
    (filter (\<lambda>r. i < (if r = a then l else nlvl h r)) (filter (below h k) L @ a # filter (\<lambda>r. \<not> below h k r) L))"
proof -
  let ?A = "filter (below h k) L" and ?B = "filter (\<lambda>r. \<not> below h k r) L"
  let ?xs = "filter (\<lambda>r. i < nlvl h r) ?A" and ?ys = "filter (\<lambda>r. i < nlvl h r) ?B"
  note LAB = split_below [OF below_down [OF inv, of k]]
  note aL = heap_inv_fresh [OF inv a]
  have ch: "chain (\<lambda>p. next_at h p i) q (?xs @ ?ys)"
    using heap_inv_facts(5) [OF inv i] LAB by (metis filter_append)
  have dist: "distinct (q # ?xs @ ?ys)" using heap_inv_facts(1) [OF inv] by auto
  have last: "last (q # ?xs) = lastn h q L (below h k) i"
    by (simp add: lastn_def filter_filter conj_commute)
  have noa: "filter (\<lambda>r. i < (if r = a then l else nlvl h r)) X = filter (\<lambda>r. i < nlvl h r) X"
    if "a \<notin> set X" for X using that by (intro filter_cong) auto
  have "a \<notin> set ?A" "a \<notin> set ?B" using aL by auto
  note eqs = noa [OF this(1)] noa [OF this(2)]
  show ?thesis
  proof (cases "i < l")
    case True
    have "chain (\<lambda>p. next_at h2 p i) q (?xs @ a # ?ys)"
    proof (rule chain_insert [OF ch dist])
      show "a \<notin> set (q # ?xs @ ?ys)" using aL by auto
      have neq: "last (q # ?xs) \<noteq> a" unfolding last using lastn_cases [of h q L _ i] aL by auto
      show "next_at h2 (last (q # ?xs)) i = Some (Some a)" using nx True neq last by simp
      show "next_at h2 a i = next_at h (last (q # ?xs)) i" using nx True last by simp
      show "\<And>r. r \<noteq> last (q # ?xs) \<Longrightarrow> r \<noteq> a \<Longrightarrow> next_at h2 r i = next_at h r i"
        using nx True last by simp
    qed
    then show ?thesis using True by (simp add: eqs del: filter_filter)
  next
    case False
    have "next_at h2 p i = next_at h p i" for p using nx [of p i] False by simp
    then show ?thesis using ch False by (simp add: eqs del: filter_filter)
  qed
qed

lemma heap_inv_insert:
  assumes inv: "heap_inv h q lv L" and k: "k \<notin> nkey h ` set L" and a: "h a = None"
    and l: "1 \<le> l" "l \<le> K_SKIP_LIST_MAX_LEVEL" and sh: "shape h2 = shape (h(a \<mapsto> NewNode l k v))"
    and nx: "\<And>r j. next_at h2 r j = (if j < l then if r = a then next_at h (lastn h q L (below h k) j) j
        else if r = lastn h q L (below h k) j then Some (Some a) else next_at h r j else next_at h r j)"
  shows "heap_inv h2 q (max l lv) (filter (below h k) L @ a # filter (\<lambda>r. \<not> below h k r) L)"
    and "entries h2 (filter (below h k) L @ a # filter (\<lambda>r. \<not> below h k r) L) = smap_put k v (entries h L)"
proof -
  let ?A = "filter (below h k) L" and ?B = "filter (\<lambda>r. \<not> below h k r) L"
  note LAB = split_below [OF below_down [OF inv, of k]]
  note aL = heap_inv_fresh [OF inv a]
  have sh_r: "shape h2 r = shape h r" if "r \<noteq> a" for r using sh that by (simp add: shape_def)
  note view = shape_view [OF sh_r]
  have sh_a: "shape h2 a = Some (k, v, l, l)" using sh by (simp add: shape_def NewNode_def)
  note view_a = shape_Some [OF sh_a]
  have keyL: "nkey h2 r = nkey h r" if "r \<in> set L" for r using view(1) [of r] aL that by auto
  have lvl: "nlvl h2 r = (if r = a then l else nlvl h r)" for r using view view_a by auto
  have B: "nkey h r > k" if "r \<in> set ?B" for r using that k by (auto simp: not_less less_le)
  obtain k0 v0 where head: "shape h q = Some (k0, v0, K_SKIP_LIST_MAX_LEVEL, K_SKIP_LIST_MAX_LEVEL)"
    using heap_inv_shape(1) [OF inv] by blast
  show "heap_inv h2 q (max l lv) (?A @ a # ?B)"
  proof (rule heap_invI)
    from head show "shape h2 q = Some (k0, v0, K_SKIP_LIST_MAX_LEVEL, K_SKIP_LIST_MAX_LEVEL)" using sh_r aL by auto
    show "distinct (q # ?A @ a # ?B)" using heap_inv_facts(1) [OF inv] aL by auto
    show "\<exists>k v l'. shape h2 r = Some (k, v, l', l') \<and> 1 \<le> l' \<and> l' \<le> max l lv"
      if "r \<in> set (?A @ a # ?B)" for r
    proof (cases "r = a")
      case False
      then have "r \<in> set L" using that by auto
      then show ?thesis using heap_inv_shape(2) [OF inv] sh_r [OF False] heap_inv_node [OF inv]
        by (metis max.coboundedI2)
    qed (use sh_a l in auto)
    have "sorted_wrt (\<lambda>r s. nkey h r < nkey h s) (?A @ ?B)" using heap_inv_facts(2) [OF inv] LAB by metis
    then have "sorted_wrt (\<lambda>r s. nkey h2 r < nkey h2 s) (?A @ ?B)"
      by (rule sorted_wrt_mono_rel [rotated]) (use keyL in auto)
    moreover have "\<forall>r\<in>set ?A. nkey h2 r < k" "\<forall>r\<in>set ?B. k < nkey h2 r" using keyL B by auto
    ultimately show "sorted_wrt (\<lambda>r s. nkey h2 r < nkey h2 s) (?A @ a # ?B)"
      by (auto simp: sorted_wrt_append view_a)
    show "1 \<le> max l lv" "max l lv \<le> K_SKIP_LIST_MAX_LEVEL" using l heap_inv_facts [OF inv] by auto
    show "chain (\<lambda>p. next_at h2 p i) q (filter (\<lambda>r. i < nlvl h2 r) (?A @ a # ?B))"
      if "i < K_SKIP_LIST_MAX_LEVEL" for i
      unfolding lvl by (rule chain_inserted [OF inv k a that nx])
  qed
  have ent: "entries h2 X = entries h X" if "a \<notin> set X" for X
    unfolding entries_def by (rule map_cong [OF refl]) (metis view(1,2) that)
  have "sorted_keys (entries h L)"
    using heap_inv_facts(2) [OF inv] by (simp add: sorted_keys_def entries_def comp_def sorted_wrt_map)
  moreover have "filter (\<lambda>e. fst e < k) (entries h L) = entries h ?A"
    by (simp add: entries_def filter_map comp_def)
  moreover have "filter (\<lambda>r. k < nkey h r) L = ?B"
  proof (rule filter_cong [OF refl])
    fix r assume "r \<in> set L"
    then have "nkey h r \<noteq> k" using k by auto
    then show "k < nkey h r \<longleftrightarrow> \<not> below h k r" by auto
  qed
  then have "filter (\<lambda>e. k < fst e) (entries h L) = entries h ?B"
    by (simp add: entries_def filter_map comp_def)
  ultimately show "entries h2 (?A @ a # ?B) = smap_put k v (entries h L)"
    using ent [of ?A] ent [of ?B] aL by (simp add: smap_put_filter) (simp add: entries_def view_a)
qed

text \<open>The head's pointers above the levels in use are null, and a search ends at a node that has the level.\<close>

lemma head_next_top:
  assumes "heap_inv h q lv L" and "lv \<le> j" and "j < K_SKIP_LIST_MAX_LEVEL"
  shows "next_at h q j = Some None"
proof -
  have "filter (\<lambda>a. j < nlvl h a) L = []"
    using assms by (auto simp: filter_empty_conv elim!: heap_inv_node)
  then show ?thesis using heap_inv_facts(5) [OF assms(1,3)] by simp
qed

lemma lastn_next:
  assumes inv: "heap_inv h q lv L" and "j < K_SKIP_LIST_MAX_LEVEL"
  shows "next_at h (lastn h q L P j) j \<noteq> None"
proof (cases "lastn h q L P j = q")
  case True
  then show ?thesis using heap_inv_shape(1) [OF inv] next_at_Some assms(2) by metis
next
  case False
  then have "lastn h q L P j \<in> set L" "j < nlvl h (lastn h q L P j)" using lastn_cases [of h q L P j] by auto
  then show ?thesis using heap_inv_shape(2) [OF inv] next_at_Some by metis
qed

lemma lastn_fresh: "heap_inv h q lv L \<Longrightarrow> h a = None \<Longrightarrow> lastn h q L P j \<noteq> a"
  using lastn_cases [of h q L P j] heap_inv_fresh [of h q lv L a] by auto

lemma insert_pointers:
  assumes inv: "heap_inv h q lv L" and a: "h a = None" and l: "1 \<le> l" "l \<le> K_SKIP_LIST_MAX_LEVEL"
  shows "\<exists>h1 h2. link_levels a (map (\<lambda>j. Some (lastn h q L (below h k) j)) [0..<lv]) (min l lv)
                    (h(a \<mapsto> NewNode l k v)) = Some h1
     \<and> raise_head q a lv (l - lv) h1 = Some h2 \<and> shape h2 = shape (h(a \<mapsto> NewNode l k v))
     \<and> (\<forall>r j. next_at h2 r j = (if j < l then if r = a then next_at h (lastn h q L (below h k) j) j
        else if r = lastn h q L (below h k) j then Some (Some a) else next_at h r j else next_at h r j))"
proof -
  let ?h0 = "h(a \<mapsto> NewNode l k v)" and ?p = "lastn h q L (below h k)"
  note lv = heap_inv_facts(3,4) [OF inv]
  note pa = lastn_fresh [OF inv a]
  have h0: "next_at ?h0 r j = (if r = a then if j < l then Some None else None else next_at h r j)" for r j
    by (simp add: next_at_def NewNode_def)
  have ha: "next_at h a j = None" for j using a by (simp add: next_at_def)
  have "\<And>j. j < min l lv \<Longrightarrow> j < length (map (\<lambda>j. Some (?p j)) [0..<lv])
      \<and> map (\<lambda>j. Some (?p j)) [0..<lv] ! j = Some (?p j) \<and> ?p j \<noteq> a \<and> next_at ?h0 (?p j) j \<noteq> None \<and> next_at ?h0 a j \<noteq> None"
    using lastn_next [OF inv] lv pa by (simp add: h0 del: not_None_eq)
  from link_levels_next [OF this] obtain h1 where
    h1: "link_levels a (map (\<lambda>j. Some (?p j)) [0..<lv]) (min l lv) ?h0 = Some h1" "shape h1 = shape ?h0"
    "\<And>r j. next_at h1 r j = (if j < min l lv then if r = a then next_at ?h0 (?p j) j
        else if r = ?p j then Some (Some a) else next_at ?h0 r j else next_at ?h0 r j)" by blast
  have qa: "q \<noteq> a" using heap_inv_fresh [OF inv a] by auto
  have "next_at h1 q j \<noteq> None" if "j < lv + (l - lv)" for j
  proof -
    have "j < K_SKIP_LIST_MAX_LEVEL" using that l lv by linarith
    then have "next_at h q j \<noteq> None" using heap_inv_shape(1) [OF inv] next_at_Some by metis
    then show ?thesis using h1(3) h0 qa by simp
  qed
  from raise_head_next [OF this] obtain h2 where
    h2: "raise_head q a lv (l - lv) h1 = Some h2" "shape h2 = shape h1"
    "\<And>r j. next_at h2 r j = (if r = q \<and> lv \<le> j \<and> j < lv + (l - lv) then Some (Some a) else next_at h1 r j)" by blast
  have "next_at h2 r j = (if j < l then if r = a then next_at h (?p j) j
        else if r = ?p j then Some (Some a) else next_at h r j else next_at h r j)" for r j
  proof (cases "j < lv")
    case True
    then show ?thesis using h2(3) h1(3) h0 ha pa by auto
  next
    case False
    then have "j < l \<Longrightarrow> next_at h q j = Some None" using head_next_top [OF inv] l by simp
    moreover have "?p j = q" using lastn_top [OF inv] False by simp
    ultimately show ?thesis using h2(3) h1(3) h0 ha qa False by auto
  qed
  then show ?thesis using h1 h2 by auto
qed

lemma Insert_absent:
  assumes inv: "sl_inv s L" and k: "k \<notin> nkey (mem s) ` set L"
  shows "\<exists>s' L'. Insert k v s = Some s' \<and> sl_inv s' L' \<and> entries (mem s') L' = smap_put k v (entries (mem s) L)"
proof -
  obtain l r' where l: "RandomLevel (rander s) = (l, r')" by (cases "RandomLevel (rander s)")
  note lb = RandomLevel_bounds [of "rander s", unfolded l fst_conv]
  let ?a = "sl_top s" and ?q = "sl_head s" and ?lv = "sl_level s"
  have h: "heap_inv (mem s) ?q ?lv L" and a: "mem s ?a = None" using inv by (auto simp: sl_inv_def)
  obtain h1 h2 where p: "link_levels ?a (preds s L k) (min l ?lv) ((mem s)(?a \<mapsto> NewNode l k v)) = Some h1"
    "raise_head ?q ?a ?lv (l - ?lv) h1 = Some h2" "shape h2 = shape ((mem s)(?a \<mapsto> NewNode l k v))"
    "\<And>r j. next_at h2 r j = (if j < l then if r = ?a then next_at (mem s) (lastn (mem s) ?q L (below (mem s) k) j) j
        else if r = lastn (mem s) ?q L (below (mem s) k) j then Some (Some ?a) else next_at (mem s) r j
        else next_at (mem s) r j)"
    using insert_pointers [OF h a, of l k v] lb by blast
  let ?L = "filter (below (mem s) k) L @ ?a # filter (\<lambda>r. \<not> below (mem s) k r) L"
  let ?s = "s\<lparr>mem := h2, sl_top := Suc ?a, sl_level := max l ?lv, sl_size := Suc (sl_size s), rander := r'\<rparr>"
  note ins = heap_inv_insert [OF h k a _ _ p(3,4)]
  have "Insert k v s = Some ?s"
    using searches(3) [OF h k] p(1,2) l by (simp add: Insert_def Let_def)
  moreover have "sl_inv ?s ?L"
  proof -
    have "length ?L = Suc (length L)"
      using split_below [OF below_down [OF h, of k]] by (metis length_append length_Cons add_Suc_right)
    moreover have "h2 b = None" if "Suc ?a \<le> b" for b
    proof -
      have "shape h2 b = shape (mem s) b" using p(3) that by (simp add: shape_def)
      then show ?thesis using inv that shape_view(4) by (metis sl_inv_def Suc_leD)
    qed
    ultimately show ?thesis using ins(1) lb inv by (simp add: sl_inv_def)
  qed
  moreover have "entries (mem ?s) ?L = smap_put k v (entries (mem s) L)" using ins(2) lb by simp
  ultimately show ?thesis by blast
qed

lemma sorted_entries: "heap_inv h q lv L \<Longrightarrow> sorted_keys (entries h L)"
  using heap_inv_facts(2) [of h q lv L] by (simp add: sorted_keys_def entries_def comp_def sorted_wrt_map)

lemma smap_put_present:
  assumes "sorted_keys (map (\<lambda>a. (f a, g a)) L)" and "c \<in> set L"
  shows "smap_put (f c) v (map (\<lambda>a. (f a, g a)) L) = map (\<lambda>a. (f a, if a = c then v else g a)) L"
  using assms
proof (induction L)
  case (Cons b L)
  show ?case
  proof (cases "b = c")
    case True
    moreover have "c \<notin> set L" using Cons.prems(1) True by (force simp: sorted_keys_def)
    ultimately show ?thesis by (auto intro!: map_cong)
  next
    case False
    then have "f b < f c" and "c \<in> set L" using Cons.prems by auto
    moreover from \<open>f b < f c\<close> have "\<not> f c < f b" "f c \<noteq> f b" by auto
    ultimately show ?thesis using Cons False by simp
  qed
qed simp

lemma Insert_present:
  assumes inv: "sl_inv s L" and c: "c \<in> set L"
  shows "\<exists>s'. Insert (nkey (mem s) c) v s = Some s' \<and> sl_inv s' L
    \<and> entries (mem s') L = smap_put (nkey (mem s) c) v (entries (mem s) L)"
proof -
  have h: "heap_inv (mem s) (sl_head s) (sl_level s) L" using inv by (simp add: sl_inv_def)
  obtain n where n: "mem s c = Some n" by (rule heap_inv_node [OF h c])
  let ?h = "(mem s)(c \<mapsto> n\<lparr>node_value := v\<rparr>)"
  have nx: "next_at ?h r j = next_at (mem s) r j" for r j using n by (simp add: next_at_def)
  have views: "nkey ?h r = nkey (mem s) r" "nlvl ?h r = nlvl (mem s) r"
    "nval ?h r = (if r = c then v else nval (mem s) r)" for r using n by (simp_all add: node_views)
  have "\<forall>a\<in>set L. \<exists>n'. ?h a = Some n' \<and> 1 \<le> node_level n' \<and> node_level n' \<le> sl_level s
      \<and> length (node_next n') = node_level n'"
    using h n by (auto simp: heap_inv_def)
  moreover have "sl_head s \<noteq> c" using heap_inv_facts(1) [OF h] c by auto
  ultimately have "heap_inv ?h (sl_head s) (sl_level s) L"
    using h unfolding heap_inv_def nx views by simp
  then have "sl_inv (s\<lparr>mem := ?h\<rparr>) L" using inv n by (auto simp: sl_inv_def)
  moreover have "Insert (nkey (mem s) c) v s = Some (s\<lparr>mem := ?h\<rparr>)"
    using searches(4) [OF h c] n by (simp add: Insert_def)
  moreover have "entries ?h L = smap_put (nkey (mem s) c) v (entries (mem s) L)"
    unfolding entries_def views
    by (rule smap_put_present [symmetric]) (use sorted_entries [OF h] c in \<open>auto simp: entries_def\<close>)
  ultimately show ?thesis by simp
qed

lemma Insert_correct:
  assumes "sl_inv s L"
  shows "\<exists>s' L'. Insert k v s = Some s' \<and> sl_inv s' L' \<and> entries (mem s') L' = smap_put k v (entries (mem s) L)"
proof (cases "k \<in> nkey (mem s) ` set L")
  case True
  then show ?thesis using Insert_present [OF assms] by blast
next
  case False
  then show ?thesis using Insert_absent [OF assms] by blast
qed

section \<open>Removal\<close>

lemma first_not_below:
  assumes inv: "heap_inv h q lv L"
  shows "next_at h (lastn h q L (below h k) 0) 0 =
    Some (case filter (\<lambda>a. \<not> below h k a) L of [] \<Rightarrow> None | a # _ \<Rightarrow> Some a)"
proof -
  let ?A = "filter (below h k) L" and ?B = "filter (\<lambda>r. \<not> below h k r) L"
  have all: "\<And>a. a \<in> set L \<Longrightarrow> 0 < nlvl h a" using inv by (force elim: heap_inv_node)
  have "filter (\<lambda>a. 0 < nlvl h a) L = L" using all by (simp add: filter_id_conv)
  then have "chain (\<lambda>p. next_at h p 0) q L"
    using heap_inv_facts(5) [OF inv, of 0] by (simp add: K_SKIP_LIST_MAX_LEVEL_def)
  then have "chain (\<lambda>p. next_at h p 0) q (?A @ ?B)"
    using split_below [OF below_down [OF inv, of k]] by simp
  moreover have "filter (\<lambda>a. 0 < nlvl h a \<and> below h k a) L = ?A" using all by (intro filter_cong) auto
  ultimately have "chain (\<lambda>p. next_at h p 0) (lastn h q L (below h k) 0) ?B"
    unfolding lastn_def using chain_suffix by metis
  then show ?thesis using chain_start [of "\<lambda>p. next_at h p 0"] by (cases ?B) auto
qed

lemma FindRemovePoint_absent:
  assumes h: "heap_inv (mem s) (sl_head s) (sl_level s) L" and k: "k \<notin> nkey (mem s) ` set L"
  shows "FindRemovePoint k s = Some (None, [])"
proof -
  have pos: "0 < sl_level s" using heap_inv_facts(3) [OF h] by simp
  then have "first_prev (preds s L k) = Some (lastn (mem s) (sl_head s) L (below (mem s) k) 0)"
    by (simp add: first_prev_def upt_rec)
  then show ?thesis
  proof (cases "filter (\<lambda>a. \<not> below (mem s) k a) L")
    case (Cons a B)
    then have "a \<in> set (filter (\<lambda>a. \<not> below (mem s) k a) L)" by simp
    then have "a \<in> set L" by simp
    then obtain n where "mem s a = Some n" "node_key n \<noteq> k" using k by (metis heap_inv_node [OF h] imageI)
    then show ?thesis
      using \<open>first_prev _ = _\<close> searches(5) [OF h, of k] first_not_below [OF h, of k] Cons
      by (simp add: FindRemovePoint_def)
  qed (use \<open>first_prev _ = _\<close> searches(5) [OF h, of k] first_not_below [OF h, of k] in \<open>simp add: FindRemovePoint_def\<close>)
qed

lemma FindRemovePoint_present:
  assumes h: "heap_inv (mem s) (sl_head s) (sl_level s) L" and L: "L = A @ c # B"
  shows "FindRemovePoint (nkey (mem s) c) s = Some (Some c, preds s L (nkey (mem s) c))"
proof -
  have pos: "0 < sl_level s" using heap_inv_facts(3) [OF h] by simp
  then have fp: "first_prev (preds s L k) = Some (lastn (mem s) (sl_head s) L (below (mem s) k) 0)" for k
    by (simp add: first_prev_def upt_rec)
  have srt: "sorted_wrt (\<lambda>a b. nkey (mem s) a < nkey (mem s) b) (A @ c # B)" using heap_inv_facts(2) [OF h] L by simp
  then have "filter (\<lambda>a. \<not> below (mem s) (nkey (mem s) c) a) L = c # filter (\<lambda>a. \<not> below (mem s) (nkey (mem s) c) a) B"
    by (auto simp: L sorted_wrt_append filter_empty_conv)
  moreover obtain n where "mem s c = Some n" "node_key n = nkey (mem s) c"
    using heap_inv_node [OF h, of c] L by auto
  ultimately show ?thesis
    using fp searches(5) [OF h, of "nkey (mem s) c"] first_not_below [OF h, of "nkey (mem s) c"]
    by (simp add: FindRemovePoint_def)
qed


lemma chain_removed:
  assumes inv: "heap_inv h q lv L" and L: "L = A @ c # B" and i: "i < K_SKIP_LIST_MAX_LEVEL"
    and nx: "\<And>r j. r \<noteq> c \<Longrightarrow> next_at h2 r j =
       (if j < nlvl h c \<and> r = lastn h q L (below h (nkey h c)) j then next_at h c j else next_at h r j)"
  shows "chain (\<lambda>p. next_at h2 p i) q (filter (\<lambda>r. i < nlvl h r) (A @ B))"
proof -
  have dist: "distinct (q # A @ c # B)" using heap_inv_facts(1) [OF inv] L by simp
  have srt: "sorted_wrt (\<lambda>a b. nkey h a < nkey h b) (A @ c # B)" using heap_inv_facts(2) [OF inv] L by simp
  let ?xs = "filter (\<lambda>r. i < nlvl h r) A" and ?ys = "filter (\<lambda>r. i < nlvl h r) B"
  have "filter (\<lambda>a. i < nlvl h a \<and> below h (nkey h c) a) A = ?xs"
    using srt by (intro filter_cong) (auto simp: sorted_wrt_append)
  moreover have "filter (\<lambda>a. i < nlvl h a \<and> below h (nkey h c) a) (c # B) = []"
    using srt by (auto simp: sorted_wrt_append filter_empty_conv dest: less_asym)
  ultimately have last: "last (q # ?xs) = lastn h q L (below h (nkey h c)) i"
    by (simp add: lastn_def L)
  have ch: "chain (\<lambda>p. next_at h p i) q (?xs @ (if i < nlvl h c then [c] else []) @ ?ys)"
    using heap_inv_facts(5) [OF inv i] by (simp add: L split: if_splits)
  have ne: "r \<noteq> c" if "r \<in> set (q # ?xs @ ?ys)" for r using that dist by auto
  have "chain (\<lambda>p. next_at h2 p i) q (?xs @ ?ys)"
  proof (cases "i < nlvl h c")
    case True
    have "last (q # ?xs) \<in> set (q # ?xs)" by (rule last_in_set) simp
    then have lc: "last (q # ?xs) \<noteq> c" by (intro ne) auto
    show ?thesis
    proof (rule chain_delete [where a = c and nx = "\<lambda>p. next_at h p i"])
      show "chain (\<lambda>p. next_at h p i) q (?xs @ c # ?ys)" using ch True by simp
      show "distinct (q # ?xs @ c # ?ys)" using dist by auto
      show "next_at h2 (last (q # ?xs)) i = next_at h c i" using nx [OF lc, of i] True last by simp
      show "next_at h2 r i = next_at h r i" if "r \<in> set (q # ?xs @ ?ys)" "r \<noteq> last (q # ?xs)" for r
        using nx [OF ne [OF that(1)], of i] that(2) last by simp
    qed
  next
    case False
    have "next_at h2 r i = next_at h r i" if "r \<in> set (q # ?xs @ ?ys)" for r
      using nx [OF ne [OF that], of i] False by simp
    then show ?thesis using ch False chain_cong [of q "?xs @ ?ys" "\<lambda>p. next_at h2 p i"] by simp
  qed
  then show ?thesis by simp
qed

lemma heap_inv_remove:
  assumes inv: "heap_inv h q lv L" and L: "L = A @ c # B"
    and sh: "\<And>r. r \<noteq> c \<Longrightarrow> shape h2 r = shape h r"
    and nx: "\<And>r j. r \<noteq> c \<Longrightarrow> next_at h2 r j =
       (if j < nlvl h c \<and> r = lastn h q L (below h (nkey h c)) j then next_at h c j else next_at h r j)"
    and l: "1 \<le> l" "l \<le> lv" "\<And>i. l \<le> i \<Longrightarrow> i < lv \<Longrightarrow> next_at h2 q i = Some None"
  shows "heap_inv h2 q l (A @ B)" and "entries h2 (A @ B) = smap_erase (nkey h c) (entries h L)"
proof -
  have dist: "distinct (q # A @ c # B)" using heap_inv_facts(1) [OF inv] L by simp
  have srt: "sorted_wrt (\<lambda>a b. nkey h a < nkey h b) (A @ c # B)" using heap_inv_facts(2) [OF inv] L by simp
  have AB: "r \<in> set (A @ B) \<Longrightarrow> r \<noteq> c \<and> r \<in> set L" for r using dist L by auto
  have viewAB: "nkey h2 r = nkey h r" "nval h2 r = nval h r" "nlvl h2 r = nlvl h r"
    if "r \<in> set (A @ B)" for r using shape_view [OF sh, of r] AB [OF that] by auto
  have "filter (\<lambda>r. i < nlvl h2 r) (A @ B) = filter (\<lambda>r. i < nlvl h r) (A @ B)" for i
    by (rule filter_cong [OF refl]) (simp only: viewAB)
  then have chains: "i < K_SKIP_LIST_MAX_LEVEL \<Longrightarrow>
      chain (\<lambda>p. next_at h2 p i) q (filter (\<lambda>r. i < nlvl h2 r) (A @ B))" for i
    using chain_removed [OF inv L _ nx] by simp
  have low: "nlvl h r \<le> l" if "r \<in> set (A @ B)" for r
  proof (rule ccontr)
    assume "\<not> nlvl h r \<le> l"
    moreover have "nlvl h r \<le> lv" using AB [OF that] by (metis heap_inv_node [OF inv])
    ultimately have "l < lv" "r \<in> set (filter (\<lambda>r. l < nlvl h2 r) (A @ B))" using viewAB(3) that by auto
    moreover from \<open>l < lv\<close> have "chain (\<lambda>p. next_at h2 p l) q (filter (\<lambda>r. l < nlvl h2 r) (A @ B))"
      using chains heap_inv_facts(4) [OF inv] by simp
    from chain_start [OF this] have "filter (\<lambda>r. l < nlvl h2 r) (A @ B) = []"
      using l(3) [of l] \<open>l < lv\<close> by (simp split: if_splits)
    ultimately show False by (metis empty_iff empty_set)
  qed
  obtain k0 v0 where "shape h q = Some (k0, v0, K_SKIP_LIST_MAX_LEVEL, K_SKIP_LIST_MAX_LEVEL)"
    using heap_inv_shape(1) [OF inv] by blast
  then have head: "shape h2 q = Some (k0, v0, K_SKIP_LIST_MAX_LEVEL, K_SKIP_LIST_MAX_LEVEL)"
    using sh [of q] dist by auto
  show "heap_inv h2 q l (A @ B)"
  proof (rule heap_invI [OF head _ _ _ l(1) _ chains])
    show "distinct (q # A @ B)" using dist by auto
    show "\<exists>k v l'. shape h2 r = Some (k, v, l', l') \<and> 1 \<le> l' \<and> l' \<le> l" if "r \<in> set (A @ B)" for r
      using heap_inv_shape(2) [OF inv, of r] low [OF that] sh [of r] AB [OF that]
      by (metis heap_inv_node [OF inv])
    show "sorted_wrt (\<lambda>a b. nkey h2 a < nkey h2 b) (A @ B)"
      by (rule sorted_wrt_mono_rel [of _ "\<lambda>a b. nkey h a < nkey h b"])
        (use srt in \<open>simp only: viewAB, simp add: sorted_wrt_append\<close>)+
    show "l \<le> K_SKIP_LIST_MAX_LEVEL" using l(2) heap_inv_facts(4) [OF inv] by simp
  qed
  have "smap_erase (nkey h c) (entries h L) = filter (\<lambda>e. fst e \<noteq> nkey h c) (entries h L)"
    by (rule smap_erase_filter [OF sorted_entries [OF inv]])
  also have "filter (\<lambda>x. nkey h x \<noteq> nkey h c) A = A" "filter (\<lambda>x. nkey h x \<noteq> nkey h c) B = B"
    using srt by (force simp: filter_id_conv sorted_wrt_append)+
  then have "filter (\<lambda>e. fst e \<noteq> nkey h c) (entries h L) = entries h (A @ B)"
    by (simp add: L entries_def filter_map comp_def)
  also have "\<dots> = entries h2 (A @ B)" unfolding entries_def by (rule map_cong [OF refl]) (simp only: viewAB)
  finally show "entries h2 (A @ B) = smap_erase (nkey h c) (entries h L)" by simp
qed


lemma Remove_present:
  assumes inv: "sl_inv s L" and c: "c \<in> set L"
  shows "\<exists>s' L'. Remove (nkey (mem s) c) s = Some (Some (nval (mem s) c), s') \<and> sl_inv s' L'
    \<and> entries (mem s') L' = smap_erase (nkey (mem s) c) (entries (mem s) L)"
proof -
  let ?h = "mem s" and ?q = "sl_head s" and ?lv = "sl_level s" and ?k = "nkey (mem s) c"
  let ?p = "lastn ?h ?q L (below ?h ?k)"
  have h: "heap_inv ?h ?q ?lv L" using inv by (simp add: sl_inv_def)
  note lv = heap_inv_facts(3,4) [OF h]
  obtain A B where L: "L = A @ c # B" using c by (meson split_list)
  obtain n where n: "?h c = Some n" "node_level n = nlvl ?h c" "nlvl ?h c \<le> ?lv" "node_value n = nval ?h c"
    by (rule heap_inv_node [OF h c])
  have nc: "?p j \<noteq> c" for j
    using lastn_cases [of ?h ?q L "below ?h ?k" j] heap_inv_facts(1) [OF h] c by auto
  have "j < length (preds s L ?k) \<and> preds s L ?k ! j = Some (?p j) \<and> ?p j \<noteq> c
      \<and> next_at ?h (?p j) j \<noteq> None \<and> next_at ?h c j \<noteq> None" if "j < nlvl ?h c" for j
    using that n(3) lv(2) nc lastn_next [OF h, of j] next_at_Some [OF heap_inv_shape(2) [OF h c]]
    by (simp del: not_None_eq)
  from unlink_levels_next [OF this] obtain h1 where
    h1: "unlink_levels c (preds s L ?k) (nlvl ?h c) ?h = Some h1" "shape h1 = shape ?h"
    "\<And>r j. next_at h1 r j = (if j < nlvl ?h c \<and> r = ?p j then next_at ?h c j else next_at ?h r j)" by blast
  let ?h2 = "h1(c := None)"
  have nx: "r \<noteq> c \<Longrightarrow> next_at ?h2 r j = next_at h1 r j" for r j by (simp add: next_at_def)
  have sh: "r \<noteq> c \<Longrightarrow> shape ?h2 r = shape ?h r" for r using h1(2) by (simp add: shape_def fun_eq_iff)
  have qc: "?q \<noteq> c" using heap_inv_facts(1) [OF h] c by auto
  have "next_at ?h2 ?q i \<noteq> None" if "i < ?lv" for i
    using heap_inv_shape(1) [OF h] next_at_Some sh [OF qc] that lv by (metis less_le_trans)
  from lower_level_result [OF this lv(1)] obtain l where
    l: "lower_level ?h2 ?q ?lv = Some l" "1 \<le> l" "l \<le> ?lv" "\<And>i. l \<le> i \<Longrightarrow> i < ?lv \<Longrightarrow> next_at ?h2 ?q i = Some None"
    by blast
  note rem = heap_inv_remove [OF h L sh _ l(2-4), unfolded nx h1(3)]
  let ?s = "s\<lparr>mem := ?h2, sl_level := l, sl_size := sl_size s - 1\<rparr>"
  have "Remove ?k s = Some (Some (nval ?h c), ?s)"
    using FindRemovePoint_present [OF h L] n h1(1) l(1) by (simp add: Remove_def Let_def)
  moreover have "sl_inv ?s (A @ B)"
  proof -
    have "?h2 b = None" if "sl_top s \<le> b" for b
      using inv that shape_view(4) [of h1 b ?h] h1(2) by (auto simp: sl_inv_def)
    then show ?thesis using rem(1) nx h1(3) inv L by (simp add: sl_inv_def)
  qed
  moreover have "entries (mem ?s) (A @ B) = smap_erase ?k (entries ?h L)" using rem(2) nx h1(3) by simp
  ultimately show ?thesis by blast
qed

lemma Remove_absent:
  assumes inv: "sl_inv s L" and k: "k \<notin> nkey (mem s) ` set L"
  shows "Remove k s = Some (None, s)"
  using FindRemovePoint_absent [OF _ k] inv by (simp add: Remove_def sl_inv_def)

section \<open>The skip list as a sorted association list\<close>

text \<open>\<open>sl_rep s m\<close>: the list \<open>s\<close> is well formed and holds the entries \<open>m\<close>.\<close>

definition sl_rep :: "('k::linorder, 'v) SkipList \<Rightarrow> ('k, 'v) smap \<Rightarrow> bool" where
  "sl_rep s m \<longleftrightarrow> (\<exists>L. sl_inv s L \<and> m = entries (mem s) L)"

lemma sl_rep_sorted: "sl_rep s m \<Longrightarrow> sorted_keys m"
  by (auto simp: sl_rep_def sl_inv_def intro: sorted_entries)

lemma map_of_entries:
  assumes "heap_inv h q lv L"
  shows "c \<in> set L \<Longrightarrow> map_of (entries h L) (nkey h c) = Some (nval h c)"
    and "k \<notin> nkey h ` set L \<Longrightarrow> map_of (entries h L) k = None"
proof -
  have "distinct (map fst (entries h L))" by (rule sorted_keys_distinct [OF sorted_entries [OF assms]])
  then show "c \<in> set L \<Longrightarrow> map_of (entries h L) (nkey h c) = Some (nval h c)"
    by (intro map_of_is_SomeI) (auto simp: entries_def)
  show "k \<notin> nkey h ` set L \<Longrightarrow> map_of (entries h L) k = None"
    by (force simp: map_of_eq_None_iff entries_def)
qed

lemma SkipList_init_rep: "sl_rep (SkipList_init k0 v0 r) []"
proof -
  have "sl_inv (SkipList_init k0 v0 r) []"
    by (simp add: sl_inv_def heap_inv_def SkipList_init_def NewNode_def next_at_def K_SKIP_LIST_MAX_LEVEL_def)
  then show ?thesis by (auto simp: sl_rep_def entries_def)
qed

lemma Insert_rep: "sl_rep s m \<Longrightarrow> \<exists>s'. Insert k v s = Some s' \<and> sl_rep s' (smap_put k v m)"
  unfolding sl_rep_def using Insert_correct by metis

lemma Find_rep: "sl_rep s m \<Longrightarrow> Find k s = Some (map_of m k)"
proof -
  assume "sl_rep s m"
  then obtain L where L: "heap_inv (mem s) (sl_head s) (sl_level s) L" "m = entries (mem s) L"
    by (auto simp: sl_rep_def sl_inv_def)
  show ?thesis
  proof (cases "k \<in> nkey (mem s) ` set L")
    case True
    then obtain c where c: "c \<in> set L" "k = nkey (mem s) c" by auto
    obtain n where "mem s c = Some n" "node_value n = nval (mem s) c" by (rule heap_inv_node [OF L(1) c(1)])
    then show ?thesis using searches(2) [OF L(1) c(1)] map_of_entries(1) [OF L(1) c(1)] L(2) c(2)
      by (simp add: Find_def)
  next
    case False
    then show ?thesis using searches(1) [OF L(1)] map_of_entries(2) [OF L(1)] L(2) by (simp add: Find_def)
  qed
qed

lemma Remove_rep: "sl_rep s m \<Longrightarrow> \<exists>s'. Remove k s = Some (map_of m k, s') \<and> sl_rep s' (smap_erase k m)"
proof -
  assume "sl_rep s m"
  then obtain L where inv: "sl_inv s L" and m: "m = entries (mem s) L" by (auto simp: sl_rep_def)
  then have h: "heap_inv (mem s) (sl_head s) (sl_level s) L" by (simp add: sl_inv_def)
  show ?thesis
  proof (cases "k \<in> nkey (mem s) ` set L")
    case True
    then obtain c where c: "c \<in> set L" "k = nkey (mem s) c" by auto
    then show ?thesis using Remove_present [OF inv c(1)] map_of_entries(1) [OF h c(1)] m
      unfolding sl_rep_def by metis
  next
    case False
    then have "map_of m k = None" using map_of_entries(2) [OF h] m by simp
    then have "smap_erase k m = m"
      using smap_erase_filter [OF sorted_entries [OF h], of k] m
      by (auto simp: filter_id_conv map_of_eq_None_iff)
    then show ?thesis using Remove_absent [OF inv False] \<open>map_of m k = None\<close> \<open>sl_rep s m\<close> by auto
  qed
qed

lemma Size_rep: "sl_rep s m \<Longrightarrow> SkipList_Size s = length m"
  by (auto simp: sl_rep_def sl_inv_def SkipList_Size_def entries_def)

lemma Has_rep: "sl_rep s m \<Longrightarrow> Has k s = Some (map_of m k \<noteq> None)"
proof -
  assume "sl_rep s m"
  then obtain L where L: "heap_inv (mem s) (sl_head s) (sl_level s) L" "m = entries (mem s) L"
    by (auto simp: sl_rep_def sl_inv_def)
  then show ?thesis
    using searches(1,2) [OF L(1)] map_of_entries [OF L(1)]
    by (cases "k \<in> nkey (mem s) ` set L") (auto simp: Has_def)
qed

section \<open>The iterator\<close>

lemma level_pos: "heap_inv h q lv L \<Longrightarrow> a \<in> set L \<Longrightarrow> 0 < nlvl h a"
  by (metis heap_inv_node less_le_trans zero_less_one)

lemma level0_chain:
  assumes "heap_inv h q lv L"
  shows "chain (\<lambda>p. next_at h p 0) q L"
proof -
  have "filter (\<lambda>a. 0 < nlvl h a) L = L"
    using level_pos [OF assms] by (simp add: filter_id_conv)
  then show ?thesis using heap_inv_facts(5) [OF assms, of 0] by (simp add: K_SKIP_LIST_MAX_LEVEL_def)
qed

lemma Iter_first_next:
  assumes "sl_inv s L"
  shows "Iter_SeekToFirst s = Some (if L = [] then None else Some (hd L))"
    and "L = A @ a # B \<Longrightarrow> Iter_Next s (Some a) = Some (if B = [] then None else Some (hd B))"
    and "a \<in> set L \<Longrightarrow> Iter_Key s (Some a) = Some (nkey (mem s) a)"
    and "a \<in> set L \<Longrightarrow> Iter_Value s (Some a) = Some (nval (mem s) a)"
proof -
  have h: "heap_inv (mem s) (sl_head s) (sl_level s) L" using assms by (simp add: sl_inv_def)
  note ch = level0_chain [OF h]
  show "Iter_SeekToFirst s = Some (if L = [] then None else Some (hd L))"
    using chain_start [OF ch] by (simp add: Iter_SeekToFirst_def)
  show "L = A @ a # B \<Longrightarrow> Iter_Next s (Some a) = Some (if B = [] then None else Some (hd B))"
    using chain_suffix [of "\<lambda>p. next_at (mem s) p 0" "sl_head s" "A @ [a]" B] ch
      chain_start [of "\<lambda>p. next_at (mem s) p 0" a B] by (simp add: Iter_Next_def)
  have "\<exists>n. mem s a = Some n" if "a \<in> set L" using that by (metis heap_inv_node [OF h])
  then show "a \<in> set L \<Longrightarrow> Iter_Key s (Some a) = Some (nkey (mem s) a)"
    and "a \<in> set L \<Longrightarrow> Iter_Value s (Some a) = Some (nval (mem s) a)"
    by (auto simp: Iter_Key_def Iter_Value_def node_views)
qed

lemma FindLast_loop_eq:
  assumes inv: "heap_inv h q lv L"
  shows "i \<le> K_SKIP_LIST_MAX_LEVEL \<Longrightarrow>
    FindLast_loop h i (lastn h q L (\<lambda>_. True) i) = Some (lastn h q L (\<lambda>_. True) 0)"
proof (induction i)
  case (Suc i)
  have down: "sorted_wrt (\<lambda>a b. True \<longrightarrow> True) L" by (induction L) auto
  show ?case
  proof (rule descent [OF inv _ down refl, of i])
    show "i < K_SKIP_LIST_MAX_LEVEL" using Suc by simp
  next
    fix n cur as
    assume *: "h (lastn h q L (\<lambda>_. True) (Suc i)) = Some n" "i < node_level n"
      "next_at h (lastn h q L (\<lambda>_. True) (Suc i)) i = Some cur"
      "chain (\<lambda>p. next_at h p i) (lastn h q L (\<lambda>_. True) (Suc i)) as"
      "last (lastn h q L (\<lambda>_. True) (Suc i) # filter (\<lambda>_. True) as) = lastn h q L (\<lambda>_. True) i"
    from last_level_chain [OF *(4,3)] show ?thesis using * Suc by simp
  qed
qed simp

lemma Iter_last:
  assumes "sl_inv s L"
  shows "Iter_SeekToLast s = Some (if L = [] then None else Some (last L))"
proof -
  have h: "heap_inv (mem s) (sl_head s) (sl_level s) L" using assms by (simp add: sl_inv_def)
  note lv = heap_inv_facts(4) [OF h]
  let ?l = "lastn (mem s) (sl_head s) L (\<lambda>_. True)"
  have top: "?l i = sl_head s" if "sl_level s \<le> i" for i using lastn_top [OF h that] .
  have "FindLast s = Some (?l 0)"
  proof (cases "sl_level s < K_SKIP_LIST_MAX_LEVEL")
    case True
    then show ?thesis using FindLast_loop_eq [OF h, of "Suc (sl_level s)"] top [of "Suc (sl_level s)"]
      by (simp add: FindLast_def)
  next
    case False
    obtain n where "mem s (sl_head s) = Some n" "node_level n = K_SKIP_LIST_MAX_LEVEL" by (rule heap_inv_head [OF h])
    then show ?thesis using False lv FindLast_loop_eq [OF h, of "sl_level s"] top [of "sl_level s"]
      by (simp add: FindLast_def)
  qed
  moreover have "?l 0 = last (sl_head s # L)"
    using level_pos [OF h] by (simp add: lastn_def)
  moreover have "last L \<noteq> sl_head s" if "L \<noteq> []"
    using heap_inv_facts(1) [OF h] last_in_set [OF that] by auto
  ultimately show ?thesis by (auto simp: Iter_SeekToLast_def)
qed

lemma Iter_Seek_eq:
  assumes "sl_inv s L"
  shows "Iter_Seek s k = Some (find (\<lambda>a. nkey (mem s) a = k) L)"
proof -
  have h: "heap_inv (mem s) (sl_head s) (sl_level s) L" using assms by (simp add: sl_inv_def)
  show ?thesis
  proof (cases "k \<in> nkey (mem s) ` set L")
    case True
    then obtain c where c: "c \<in> set L" "nkey (mem s) c = k" by auto
    then obtain A B where L: "L = A @ c # B" by (meson split_list)
    have "\<forall>x\<in>set A. nkey (mem s) x \<noteq> k"
      using heap_inv_facts(2) [OF h] c L by (force simp: sorted_wrt_append)
    then have "find (\<lambda>a. nkey (mem s) a = k) (A @ c # B) = Some c" using c by (induction A) auto
    then show ?thesis using FindRemovePoint_present [OF h L] c L by (simp add: Iter_Seek_def)
  next
    case False
    then have "find (\<lambda>a. nkey (mem s) a = k) L = None" by (auto simp: find_None_iff)
    then show ?thesis using FindRemovePoint_absent [OF h False] by (simp add: Iter_Seek_def)
  qed
qed

text \<open>\<open>Prev\<close> steps to the node before, and from the first node to the head itself.\<close>

lemma Iter_Prev_eq:
  assumes "sl_inv s L" and L: "L = A @ a # B"
  shows "Iter_Prev s (Some a) = Some (Some (last (sl_head s # A)))"
proof -
  have h: "heap_inv (mem s) (sl_head s) (sl_level s) L" using assms by (simp add: sl_inv_def)
  have pos: "0 < sl_level s" using heap_inv_facts(3) [OF h] by simp
  have "filter (\<lambda>r. 0 < nlvl (mem s) r \<and> below (mem s) (nkey (mem s) a) r) L
      = filter (below (mem s) (nkey (mem s) a)) L"
    using level_pos [OF h] by (intro filter_cong) auto
  also have "\<dots> = A"
    using heap_inv_facts(2) [OF h] by (auto simp: L sorted_wrt_append filter_id_conv filter_empty_conv dest: less_asym)
  finally have "lastn (mem s) (sl_head s) L (below (mem s) (nkey (mem s) a)) 0 = last (sl_head s # A)"
    by (simp add: lastn_def)
  then show ?thesis
    using Iter_first_next(3) [OF assms(1), of a] searches(5) [OF h, of "nkey (mem s) a"] L pos
    by (simp add: Iter_Prev_def upt_rec)
qed

end
