(* ===== verification/Index.thy ===== *)
theory Index
  imports Skip_List_Update Log_Record Status "HOL-Library.AList"
begin

text \<open>
  \<^verbatim>\<open>index/\<close>: the in-memory index from keys to positions. The abstract class
  \<open>Indexer\<close> is the locale \<open>indexer\<close>; the three implementations interpret it, and so does
  the dispatch over them that \<open>NewIndexer\<close> sets up.

  Every method takes a \<open>Bytes\<close> key and builds a \<open>std::string\<close> from \<open>key.data()\<close>, so
  the entry used is that of \<open>cstr key\<close>. A stored position is a pointer,
  \<open>LogRecordPst option\<close>.
\<close>

type_synonym pst_ptr = "LogRecordPst option"

section \<open>The interface\<close>

text \<open>
  The laws of \<open>Put\<close>, \<open>Get\<close>, \<open>Delete\<close> and \<open>Size\<close>. An operation that may follow
  pointers yields an option, and the laws say that it returns.
\<close>

locale indexer =
  fixes put :: "bytes \<Rightarrow> 'p \<Rightarrow> 'i \<Rightarrow> (bool \<times> 'i) option"
    and get :: "bytes \<Rightarrow> 'i \<Rightarrow> 'p option option"
    and del :: "bytes \<Rightarrow> 'i \<Rightarrow> (bool \<times> 'p option \<times> 'i) option"
    and sz :: "'i \<Rightarrow> nat"
    and rep :: "'i \<Rightarrow> (bytes \<rightharpoonup> 'p) \<Rightarrow> bool"
  assumes put_law: "rep i m \<Longrightarrow> \<exists>i'. put k p i = Some (True, i') \<and> rep i' (m(cstr k \<mapsto> p))"
    and get_law: "rep i m \<Longrightarrow> get k i = Some (m (cstr k))"
    and del_law: "rep i m \<Longrightarrow>
      \<exists>i'. del k i = Some (m (cstr k) \<noteq> None, m (cstr k), i') \<and> rep i' (m(cstr k := None))"
    and size_law: "rep i m \<Longrightarrow> finite (dom m) \<and> sz i = card (dom m)"
begin

lemma put_then_get:
  assumes "rep i m" and "put k p i = Some (b, i')"
  shows "b" and "get j i' = (if cstr j = cstr k then Some (Some p) else get j i)"
  using put_law [OF assms(1), of k p] get_law assms by auto

lemma del_then_get:
  assumes "rep i m" and "del k i = Some (b, old, i')"
  shows "b \<longleftrightarrow> get k i \<noteq> Some None" and "get k i = Some old"
    and "get j i' = (if cstr j = cstr k then Some None else get j i)"
  using del_law [OF assms(1), of k] get_law assms by (auto split: if_splits)

text \<open>Deleting what was just put in gives back what was put.\<close>

lemma put_then_del:
  assumes "rep i m" and "put k p i = Some (b, i')"
  shows "\<exists>i''. del k i' = Some (True, Some p, i'') \<and> rep i'' (m(cstr k := None))"
  using put_law [OF assms(1), of k p] del_law [of i' "m(cstr k \<mapsto> p)" k] assms(2) by auto

lemma size_put:
  assumes "rep i m" and "put k p i = Some (b, i')"
  shows "sz i' = (if get k i = Some None then Suc (sz i) else sz i)"
proof -
  have i': "rep i' (m(cstr k \<mapsto> p))" using put_law [OF assms(1), of k p] assms(2) by auto
  have "finite (dom m)" "sz i = card (dom m)" using size_law [OF assms(1)] by auto
  then show ?thesis
    using size_law [OF i'] get_law [OF assms(1), of k] by (auto simp: insert_absorb domIff)
qed

end

section \<open>\<open>HashIndexer\<close>\<close>

type_synonym HashIndexer = "(bytes \<times> pst_ptr) list"

definition HashIndexer_Put :: "bytes \<Rightarrow> pst_ptr \<Rightarrow> HashIndexer \<Rightarrow> (bool \<times> HashIndexer) option" where
  "HashIndexer_Put key pos ds = Some (True, AList.update (cstr key) pos ds)"

definition HashIndexer_Get :: "bytes \<Rightarrow> HashIndexer \<Rightarrow> pst_ptr option option" where
  "HashIndexer_Get key ds = Some (map_of ds (cstr key))"

definition HashIndexer_Delete :: "bytes \<Rightarrow> HashIndexer \<Rightarrow> (bool \<times> pst_ptr option \<times> HashIndexer) option" where
  "HashIndexer_Delete key ds =
     (let old = map_of ds (cstr key)
      in Some (old \<noteq> None, old, AList.delete (cstr key) ds))"

definition HashIndexer_Size :: "HashIndexer \<Rightarrow> nat" where
  "HashIndexer_Size ds = length ds"

definition hash_rep :: "HashIndexer \<Rightarrow> (bytes \<rightharpoonup> pst_ptr) \<Rightarrow> bool" where
  "hash_rep ds m \<longleftrightarrow> distinct (map fst ds) \<and> map_of ds = m"

lemma card_dom_map_of: "distinct (map fst ds) \<Longrightarrow> card (dom (map_of ds)) = length ds"
  by (metis card_image distinct_card dom_map_of_conv_image_fst length_map set_map distinct_map)

interpretation hash: indexer HashIndexer_Put HashIndexer_Get HashIndexer_Delete HashIndexer_Size hash_rep
  by unfold_locales
    (auto simp: HashIndexer_Put_def HashIndexer_Get_def HashIndexer_Delete_def HashIndexer_Size_def
      hash_rep_def update_conv' delete_conv' card_dom_map_of finite_dom_map_of distinct_update distinct_delete)

section \<open>\<open>TreeIndexer\<close>\<close>

type_synonym TreeIndexer = "(bytes, pst_ptr) smap"

definition TreeIndexer_Put :: "bytes \<Rightarrow> pst_ptr \<Rightarrow> TreeIndexer \<Rightarrow> (bool \<times> TreeIndexer) option" where
  "TreeIndexer_Put key pos ds = Some (True, smap_put (cstr key) pos ds)"

definition TreeIndexer_Get :: "bytes \<Rightarrow> TreeIndexer \<Rightarrow> pst_ptr option option" where
  "TreeIndexer_Get key ds = Some (map_of ds (cstr key))"

definition TreeIndexer_Delete :: "bytes \<Rightarrow> TreeIndexer \<Rightarrow> (bool \<times> pst_ptr option \<times> TreeIndexer) option" where
  "TreeIndexer_Delete key ds =
     (let old = map_of ds (cstr key)
      in Some (old \<noteq> None, old, smap_erase (cstr key) ds))"

definition TreeIndexer_Size :: "TreeIndexer \<Rightarrow> nat" where
  "TreeIndexer_Size ds = length ds"

definition tree_rep :: "TreeIndexer \<Rightarrow> (bytes \<rightharpoonup> pst_ptr) \<Rightarrow> bool" where
  "tree_rep ds m \<longleftrightarrow> sorted_keys ds \<and> map_of ds = m"

interpretation tree: indexer TreeIndexer_Put TreeIndexer_Get TreeIndexer_Delete TreeIndexer_Size tree_rep
  by unfold_locales
    (auto simp: TreeIndexer_Put_def TreeIndexer_Get_def TreeIndexer_Delete_def TreeIndexer_Size_def
      tree_rep_def card_dom_map_of finite_dom_map_of sorted_keys_distinct)

section \<open>\<open>SkipListIndexer\<close>\<close>

text \<open>
  The indexer owns the one iterator it hands out: \<open>None\<close> until \<open>Iterator()\<close> is first
  called (a null \<open>index_iter_\<close>), then the position of that iterator.
\<close>

record SkipListIndexer =
  sli_ds :: "(bytes, pst_ptr) SkipList"
  index_iter :: "iter option"

definition SkipListIndexer_init :: "Random \<Rightarrow> SkipListIndexer" where
  "SkipListIndexer_init r = \<lparr>sli_ds = SkipList_init [] None r, index_iter = None\<rparr>"

definition SkipListIndexer_Put :: "bytes \<Rightarrow> pst_ptr \<Rightarrow> SkipListIndexer \<Rightarrow> (bool \<times> SkipListIndexer) option" where
  "SkipListIndexer_Put key pos i =
     Option.bind (Insert (cstr key) pos (sli_ds i)) (\<lambda>d. Some (True, i\<lparr>sli_ds := d\<rparr>))"

definition SkipListIndexer_Get :: "bytes \<Rightarrow> SkipListIndexer \<Rightarrow> pst_ptr option option" where
  "SkipListIndexer_Get key i = Find (cstr key) (sli_ds i)"

definition SkipListIndexer_Delete :: "bytes \<Rightarrow> SkipListIndexer \<Rightarrow> (bool \<times> pst_ptr option \<times> SkipListIndexer) option" where
  "SkipListIndexer_Delete key i =
     Option.bind (Remove (cstr key) (sli_ds i)) (\<lambda>(old, d). Some (old \<noteq> None, old, i\<lparr>sli_ds := d\<rparr>))"

definition SkipListIndexer_Size :: "SkipListIndexer \<Rightarrow> nat" where
  "SkipListIndexer_Size i = SkipList_Size (sli_ds i)"

definition SkipListIndexer_Iterator :: "SkipListIndexer \<Rightarrow> SkipListIndexer" where
  "SkipListIndexer_Iterator i =
     (if index_iter i = None then i\<lparr>index_iter := Some None\<rparr> else i)"

definition skip_rep :: "SkipListIndexer \<Rightarrow> (bytes \<rightharpoonup> pst_ptr) \<Rightarrow> bool" where
  "skip_rep i m \<longleftrightarrow> (\<exists>es. sl_rep (sli_ds i) es \<and> map_of es = m)"

interpretation skip: indexer SkipListIndexer_Put SkipListIndexer_Get SkipListIndexer_Delete
    SkipListIndexer_Size skip_rep
proof unfold_locales
  fix i m k and p :: pst_ptr
  assume "skip_rep i m"
  then obtain es where es: "sl_rep (sli_ds i) es" "map_of es = m" by (auto simp: skip_rep_def)
  show "\<exists>i'. SkipListIndexer_Put k p i = Some (True, i') \<and> skip_rep i' (m(cstr k \<mapsto> p))"
    using Insert_rep [OF es(1), of "cstr k" p] es(2)
    by (force simp: SkipListIndexer_Put_def skip_rep_def)
  show "SkipListIndexer_Get k i = Some (m (cstr k))"
    using Find_rep [OF es(1)] es(2) by (simp add: SkipListIndexer_Get_def)
  show "\<exists>i'. SkipListIndexer_Delete k i = Some (m (cstr k) \<noteq> None, m (cstr k), i') \<and> skip_rep i' (m(cstr k := None))"
    using Remove_rep [OF es(1), of "cstr k"] es(2) sl_rep_sorted [OF es(1)]
    by (force simp: SkipListIndexer_Delete_def skip_rep_def)
  show "finite (dom m) \<and> SkipListIndexer_Size i = card (dom m)"
    using Size_rep [OF es(1)] es(2) sorted_keys_distinct [OF sl_rep_sorted [OF es(1)]]
    by (auto simp: SkipListIndexer_Size_def finite_dom_map_of card_dom_map_of)
qed

section \<open>\<open>SkipListIndexerIterator\<close>\<close>

text \<open>The iterator's methods, on the indexer that holds its position; \<open>None\<close> is a call through null.\<close>

definition move_iter :: "(iter \<Rightarrow> iter option) \<Rightarrow> SkipListIndexer \<Rightarrow> SkipListIndexer option" where
  "move_iter f i =
     Option.bind (index_iter i) (\<lambda>it. map_option (\<lambda>it'. i\<lparr>index_iter := Some it'\<rparr>) (f it))"

definition SLI_Valid :: "SkipListIndexer \<Rightarrow> bool option" where
  "SLI_Valid i = map_option Iter_Valid (index_iter i)"

definition SLI_Key :: "SkipListIndexer \<Rightarrow> bytes option" where
  "SLI_Key i = Option.bind (index_iter i) (Iter_Key (sli_ds i))"

definition SLI_Value :: "SkipListIndexer \<Rightarrow> pst_ptr option" where
  "SLI_Value i = Option.bind (index_iter i) (Iter_Value (sli_ds i))"

definition SLI_Next :: "SkipListIndexer \<Rightarrow> SkipListIndexer option" where
  "SLI_Next i = move_iter (Iter_Next (sli_ds i)) i"

definition SLI_Prev :: "SkipListIndexer \<Rightarrow> SkipListIndexer option" where
  "SLI_Prev i = move_iter (Iter_Prev (sli_ds i)) i"

definition SLI_Seek :: "bytes \<Rightarrow> SkipListIndexer \<Rightarrow> SkipListIndexer option" where
  "SLI_Seek target i = move_iter (\<lambda>_. Iter_Seek (sli_ds i) (cstr target)) i"

definition SLI_SeekToFirst :: "SkipListIndexer \<Rightarrow> SkipListIndexer option" where
  "SLI_SeekToFirst i = move_iter (\<lambda>_. Iter_SeekToFirst (sli_ds i)) i"

definition SLI_SeekToLast :: "SkipListIndexer \<Rightarrow> SkipListIndexer option" where
  "SLI_SeekToLast i = move_iter (\<lambda>_. Iter_SeekToLast (sli_ds i)) i"

section \<open>\<open>NewIndexer\<close> and dynamic dispatch\<close>

datatype IndexerType = HashMapIndex | TreeMapIndex | SkipListIndex

datatype Indexer = Hash HashIndexer | Tree TreeIndexer | Skip SkipListIndexer

definition NewIndexer :: "Random \<Rightarrow> IndexerType \<Rightarrow> Indexer" where
  "NewIndexer r type =
     (case type of HashMapIndex \<Rightarrow> Hash [] | TreeMapIndex \<Rightarrow> Tree []
      | SkipListIndex \<Rightarrow> Skip (SkipListIndexer_init r))"

fun Indexer_Put :: "bytes \<Rightarrow> pst_ptr \<Rightarrow> Indexer \<Rightarrow> (bool \<times> Indexer) option" where
  "Indexer_Put key pos (Hash i) = map_option (map_prod id Hash) (HashIndexer_Put key pos i)"
| "Indexer_Put key pos (Tree i) = map_option (map_prod id Tree) (TreeIndexer_Put key pos i)"
| "Indexer_Put key pos (Skip i) = map_option (map_prod id Skip) (SkipListIndexer_Put key pos i)"

fun Indexer_Get :: "bytes \<Rightarrow> Indexer \<Rightarrow> pst_ptr option option" where
  "Indexer_Get key (Hash i) = HashIndexer_Get key i"
| "Indexer_Get key (Tree i) = TreeIndexer_Get key i"
| "Indexer_Get key (Skip i) = SkipListIndexer_Get key i"

fun Indexer_Delete :: "bytes \<Rightarrow> Indexer \<Rightarrow> (bool \<times> pst_ptr option \<times> Indexer) option" where
  "Indexer_Delete key (Hash i) = map_option (map_prod id (map_prod id Hash)) (HashIndexer_Delete key i)"
| "Indexer_Delete key (Tree i) = map_option (map_prod id (map_prod id Tree)) (TreeIndexer_Delete key i)"
| "Indexer_Delete key (Skip i) = map_option (map_prod id (map_prod id Skip)) (SkipListIndexer_Delete key i)"

fun Indexer_Size :: "Indexer \<Rightarrow> nat" where
  "Indexer_Size (Hash i) = HashIndexer_Size i"
| "Indexer_Size (Tree i) = TreeIndexer_Size i"
| "Indexer_Size (Skip i) = SkipListIndexer_Size i"

text \<open>\<open>Iterator()\<close>: null for the indexers without one.\<close>

fun Indexer_Iterator :: "Indexer \<Rightarrow> SkipListIndexer option" where
  "Indexer_Iterator (Skip i) = Some (SkipListIndexer_Iterator i)"
| "Indexer_Iterator _ = None"

fun idx_rep :: "Indexer \<Rightarrow> (bytes \<rightharpoonup> pst_ptr) \<Rightarrow> bool" where
  "idx_rep (Hash i) m = hash_rep i m"
| "idx_rep (Tree i) m = tree_rep i m"
| "idx_rep (Skip i) m = skip_rep i m"

interpretation idx: indexer Indexer_Put Indexer_Get Indexer_Delete Indexer_Size idx_rep
proof unfold_locales
  fix i m k and p :: pst_ptr
  assume rep: "idx_rep i m"
  show "\<exists>i'. Indexer_Put k p i = Some (True, i') \<and> idx_rep i' (m(cstr k \<mapsto> p))"
    using rep hash.put_law [of _ m k p] tree.put_law [of _ m k p] skip.put_law [of _ m k p]
    by (cases i) fastforce+
  show "Indexer_Get k i = Some (m (cstr k))"
    using rep hash.get_law tree.get_law skip.get_law by (cases i) auto
  show "\<exists>i'. Indexer_Delete k i = Some (m (cstr k) \<noteq> None, m (cstr k), i') \<and> idx_rep i' (m(cstr k := None))"
    using rep hash.del_law [of _ m k] tree.del_law [of _ m k] skip.del_law [of _ m k]
    by (cases i) fastforce+
  show "finite (dom m) \<and> Indexer_Size i = card (dom m)"
    using rep hash.size_law tree.size_law skip.size_law by (cases i) auto
qed

lemma NewIndexer_rep: "idx_rep (NewIndexer r type) Map.empty"
  using SkipList_init_rep [of "[]" None r]
  by (force simp: NewIndexer_def hash_rep_def tree_rep_def skip_rep_def SkipListIndexer_init_def
      split: IndexerType.split)

end
