(* ===== verification/DB_Core.thy ===== *)
theory DB_Core
  imports Data_File Index
begin

text \<open>
  \<^verbatim>\<open>options.h\<close>, and of \<^verbatim>\<open>db.h\<close> and \<^verbatim>\<open>db.cpp\<close> the state of a database and the
  operations on a running one: appending, \<open>Put\<close>, \<open>Get\<close>, \<open>Delete\<close>, \<open>Sync\<close>,
  \<open>ListKeys\<close>, \<open>Fold\<close> and iterators.

  A command runs on the database paired with the world. The methods that take
  \<open>rwlock_\<close> hold it for their whole body, so each is one step; no method modelled here
  calls another that takes it.
\<close>

section \<open>Options\<close>

record Options =
  dir_path :: string
  data_file_size :: u64
  is_sync_write :: bool
  index_type :: IndexerType

definition CheckOptions :: "Options \<Rightarrow> StatusCode option" where
  "CheckOptions opts =
     (if dir_path opts = [] then Some kInvalidArgument
      else if data_file_size opts \<le> 0 then Some kInvalidArgument else None)"

record WriteBatchOptions =
  max_batch_num :: u64
  wb_is_sync_write :: bool

definition DefaultOptions :: "(string \<Rightarrow> string option) \<Rightarrow> Options" where
  "DefaultOptions getenv =
     \<lparr>dir_path = GetTempDir getenv, data_file_size = 256 * 1024 * 1024, is_sync_write = False,
      index_type = SkipListIndex\<rparr>"

definition DefaultWriteBatchOptions :: WriteBatchOptions where
  "DefaultWriteBatchOptions = \<lparr>max_batch_num = 100, wb_is_sync_write = False\<rparr>"

section \<open>The state of a database\<close>

record DB =
  db_options :: Options
  db_active :: "DataFile option"
  db_older :: "(u32 \<times> DataFile option) list"
  db_index :: Indexer
  db_file_ids :: "u32 list option"
  db_next_file_id :: u32
  db_txn_id :: u64
  db_is_merging :: bool

type_synonym st = "DB \<times> world"

definition DB_init :: "Random \<Rightarrow> Options \<Rightarrow> DB" where
  "DB_init r opts =
     \<lparr>db_options = opts, db_active = None, db_older = [], db_index = NewIndexer r (index_type opts),
      db_file_ids = None, db_next_file_id = 0, db_txn_id = 0, db_is_merging = False\<rparr>"

definition GetDirPath :: "DB \<Rightarrow> string" where
  "GetDirPath db = dir_path (db_options db)"

definition GetOlderDataFileNum :: "DB \<Rightarrow> nat" where
  "GetOlderDataFileNum db = length (db_older db)"

definition on_db :: "(DB \<Rightarrow> DB) \<Rightarrow> (st, unit) cmd" where
  "on_db f = update_state (map_prod f id)"

definition on_world :: "(world, 'a) cmd \<Rightarrow> (st, 'a) cmd" where
  "on_world = zoom snd (\<lambda>w (db, _). (db, w))"

text \<open>A command on the file \<open>*active_file_\<close>.\<close>

definition on_active :: "(DataFile \<times> world, 'a) cmd \<Rightarrow> (st, 'a) cmd" where
  "on_active m = (\<lambda>(db, w).
     case db_active db of None \<Rightarrow> crash NullDeref (db, w)
     | Some df \<Rightarrow> (let (r, df', w') = m (df, w) in (r, db\<lparr>db_active := Some df'\<rparr>, w')))"

text \<open>The three methods of \<open>*index_\<close>.\<close>

definition index_Put :: "bytes \<Rightarrow> pst_ptr \<Rightarrow> (st, bool) cmd" where
  "index_Put key pos = (\<lambda>(db, w).
     case Indexer_Put key pos (db_index db) of None \<Rightarrow> crash Stuck (db, w)
     | Some (b, i) \<Rightarrow> ok b (db\<lparr>db_index := i\<rparr>, w))"

definition index_Get :: "bytes \<Rightarrow> (st, pst_ptr) cmd" where
  "index_Get key = (\<lambda>(db, w).
     case Indexer_Get key (db_index db) of None \<Rightarrow> crash Stuck (db, w)
     | Some r \<Rightarrow> ok (Option.bind r id) (db, w))"

definition index_Delete :: "bytes \<Rightarrow> (st, bool) cmd" where
  "index_Delete key = (\<lambda>(db, w).
     case Indexer_Delete key (db_index db) of None \<Rightarrow> crash Stuck (db, w)
     | Some (b, _, i) \<Rightarrow> ok b (db\<lparr>db_index := i\<rparr>, w))"

section \<open>Appending\<close>

definition NewActiveDataFile :: "(st, unit) cmd" where
  "NewActiveDataFile = (\<lambda>(db, w).
     CHECK_OK (on_world (OpenDataFile (dir_path (db_options db)) (db_next_file_id db))) (\<lambda>data_file.
       on_db (\<lambda>db. db\<lparr>db_next_file_id := db_next_file_id db + 1, db_active := Some data_file\<rparr>)) (db, w))"

text \<open>\<open>older_files_[active_file_->file_id] = std::move(active_file_)\<close>\<close>

definition retire_active :: "(st, unit) cmd" where
  "retire_active = (\<lambda>(db, w).
     case db_active db of None \<Rightarrow> crash NullDeref (db, w)
     | Some df \<Rightarrow> ok () (db\<lparr>db_older := AList.update (file_id df) (Some df) (db_older db), db_active := None\<rparr>, w))"

text \<open>The branch of \<open>AppendLogRecord\<close> that starts a new file when the record would not fit.\<close>

definition rotate_if_full :: "nat \<Rightarrow> (st, unit) cmd" where
  "rotate_if_full n = (\<lambda>(db, w).
     case db_active db of None \<Rightarrow> crash NullDeref (db, w)
     | Some df \<Rightarrow>
        (if write_off df + n > unat (data_file_size (db_options db))
         then CHECK_OK (on_active DataFile_Sync) (\<lambda>_.
              CHECK_OK retire_active (\<lambda>_. NewActiveDataFile)) (db, w)
         else ok () (db, w)))"

text \<open>Writing the encoded record to the active file and the position it got.\<close>

definition write_active :: "bytes \<Rightarrow> (st, LogRecordPst) cmd" where
  "write_active encode_bytes = (\<lambda>(db, w).
     case db_active db of None \<Rightarrow> crash NullDeref (db, w)
     | Some df \<Rightarrow>
        CHECK_OK (on_active (DataFile_Write encode_bytes)) (\<lambda>_.
        CHECK_OK (if is_sync_write (db_options db) then on_active DataFile_Sync else ok ()) (\<lambda>_.
          ok \<lparr>fid = file_id df, offset = word_of_nat (write_off df)\<rparr>)) (db, w))"

text \<open>\<open>has_pst\<close>: the pointer \<open>pst\<close> is not null.\<close>

definition AppendLogRecord :: "crc_fun \<Rightarrow> LogRecord \<Rightarrow> bool \<Rightarrow> (st, LogRecordPst) cmd" where
  "AppendLogRecord crc log_record has_pst = (\<lambda>(db, w).
     if \<not> has_pst then err kInvalidArgument (db, w)
     else CHECK_OK (if db_active db = None then NewActiveDataFile else ok ()) (\<lambda>_.
            let encode_bytes = EncodeLogRecord crc log_record
            in CHECK_OK (rotate_if_full (length encode_bytes)) (\<lambda>_. write_active encode_bytes)) (db, w))"

section \<open>\<open>Put\<close>, \<open>Get\<close>, \<open>Delete\<close>\<close>

definition DB_Put :: "crc_fun \<Rightarrow> bytes \<Rightarrow> bytes \<Rightarrow> (st, unit) cmd" where
  "DB_Put crc key value =
     (if key = [] then err kInvalidArgument
      else CHECK_OK (run_outcome (EncodeLogRecordWithTxnID key K_NON_TXN_ID)) (\<lambda>k.
           CHECK_OK (AppendLogRecord crc \<lparr>lr_key = k, lr_value = cstr value, lr_type = NormalLogRecord\<rparr> True) (\<lambda>pst.
           CHECK_OK (index_Put key (Some pst)) (\<lambda>b.
             CHECK_TRUE b (Some ''fail to put index'') (ok ())))))"

text \<open>
  The data file a position refers to. \<open>older_files_[fid]\<close> enters a null pointer
  for a number that is not there.
\<close>

definition file_of :: "u32 \<Rightarrow> (st, DataFile option) cmd" where
  "file_of f = (\<lambda>(db, w).
     case db_active db of None \<Rightarrow> crash NullDeref (db, w)
     | Some df \<Rightarrow>
        (if f = file_id df then ok (Some df) (db, w)
         else case map_of (db_older db) f of
                Some p \<Rightarrow> ok p (db, w)
              | None \<Rightarrow> ok None (db\<lparr>db_older := AList.update f None (db_older db)\<rparr>, w)))"

text \<open>\<open>has_value\<close>: the pointer \<open>value\<close> is not null.\<close>

definition GetValueByLogRecordPst :: "crc_fun \<Rightarrow> pst_ptr \<Rightarrow> bool \<Rightarrow> (st, bytes) cmd" where
  "GetValueByLogRecordPst crc log_record_pst has_value =
     (case log_record_pst of None \<Rightarrow> crash NullDeref
      | Some pst \<Rightarrow>
         CHECK_OK (file_of (fid pst)) (\<lambda>data_file.
           case data_file of None \<Rightarrow> err kNotFound
           | Some df \<Rightarrow>
              CHECK_OK (on_world (ReadLogRecord crc df (unat (offset pst)))) (\<lambda>(log_record, sz).
                if lr_type log_record = DeletedLogRecord then err kNotFound
                else if \<not> has_value then crash NullDeref
                else ok (lr_value log_record))))"

definition DB_Get :: "crc_fun \<Rightarrow> bytes \<Rightarrow> bool \<Rightarrow> (st, bytes) cmd" where
  "DB_Get crc key has_value =
     (if key = [] then err kInvalidArgument
      else CHECK_OK (index_Get key) (\<lambda>log_record_pst.
             if log_record_pst = None then err kNotFound
             else GetValueByLogRecordPst crc log_record_pst has_value))"

text \<open>
  \<open>AppendLogRecord\<close> stores the new position through the pointer it is given, which
  here is the one the index holds, so the entry of the key changes in place before it
  is removed.
\<close>

definition DB_Delete :: "crc_fun \<Rightarrow> bytes \<Rightarrow> (st, unit) cmd" where
  "DB_Delete crc key =
     (if key = [] then err kInvalidArgument
      else CHECK_OK (index_Get key) (\<lambda>pst.
             if pst = None then ok ()
             else CHECK_OK (run_outcome (EncodeLogRecordWithTxnID key K_NON_TXN_ID)) (\<lambda>k.
                  CHECK_OK (AppendLogRecord crc \<lparr>lr_key = k, lr_value = [], lr_type = DeletedLogRecord\<rparr> True) (\<lambda>new_pst.
                  CHECK_OK (index_Put key (Some new_pst)) (\<lambda>_.
                  CHECK_OK (index_Delete key) (\<lambda>b.
                    CHECK_TRUE b (Some ''index delete failed'') (ok ())))))))"

definition DB_Sync :: "(st, unit) cmd" where
  "DB_Sync = on_active DataFile_Sync"

definition DB_Close :: "DB option \<Rightarrow> (StatusCode + unit) \<times> DB option" where
  "DB_Close db_ptr = (case db_ptr of None \<Rightarrow> (Inl kInvalidArgument, None) | Some _ \<Rightarrow> (Inr (), None))"

section \<open>Iterators\<close>

text \<open>
  \<open>index_->Iterator()\<close>: the index of every caller hands out the same iterator
  object. \<open>NewIterator\<close> wraps it, and \<open>ListKeys\<close> and \<open>Fold\<close> move it.
\<close>

definition index_Iterator :: "(st, unit) cmd" where
  "index_Iterator = (\<lambda>(db, w).
     case Indexer_Iterator (db_index db) of None \<Rightarrow> err kNotSupported (db, w)
     | Some i \<Rightarrow> ok () (db\<lparr>db_index := Skip i\<rparr>, w))"

definition DB_NewIterator :: "(st, unit) cmd" where
  "DB_NewIterator = index_Iterator"

text \<open>A method of the iterator; without an iterator the call goes through a null pointer.\<close>

definition iter_move :: "(SkipListIndexer \<Rightarrow> SkipListIndexer option) \<Rightarrow> (st, unit) cmd" where
  "iter_move f = (\<lambda>(db, w).
     case db_index db of
       Skip i \<Rightarrow> (case f i of None \<Rightarrow> crash NullDeref (db, w) | Some i' \<Rightarrow> ok () (db\<lparr>db_index := Skip i'\<rparr>, w))
     | _ \<Rightarrow> crash NullDeref (db, w))"

definition iter_read :: "(SkipListIndexer \<Rightarrow> 'a option) \<Rightarrow> (st, 'a) cmd" where
  "iter_read f = (\<lambda>(db, w).
     case db_index db of
       Skip i \<Rightarrow> (case f i of None \<Rightarrow> crash NullDeref (db, w) | Some a \<Rightarrow> ok a (db, w))
     | _ \<Rightarrow> crash NullDeref (db, w))"

definition Iterator_Valid :: "(st, bool) cmd" where
  "Iterator_Valid = iter_read SLI_Valid"

definition Iterator_Key :: "(st, bytes) cmd" where
  "Iterator_Key = iter_read SLI_Key"

text \<open>An error of the lookup is logged, and the value is then empty.\<close>

definition Iterator_Value :: "crc_fun \<Rightarrow> (st, bytes) cmd" where
  "Iterator_Value crc =
     CHECK_OK (iter_read SLI_Value) (\<lambda>pst s.
       case GetValueByLogRecordPst crc pst True s of
         (Err c, s') \<Rightarrow> (Ok [], s')
       | r \<Rightarrow> r)"

definition Iterator_Next :: "(st, unit) cmd" where
  "Iterator_Next = iter_move SLI_Next"

definition Iterator_Prev :: "(st, unit) cmd" where
  "Iterator_Prev = iter_move SLI_Prev"

definition Iterator_Seek :: "bytes \<Rightarrow> (st, unit) cmd" where
  "Iterator_Seek target = iter_move (SLI_Seek target)"

definition Iterator_SeekToFirst :: "(st, unit) cmd" where
  "Iterator_SeekToFirst = iter_move SLI_SeekToFirst"

definition Iterator_SeekToLast :: "(st, unit) cmd" where
  "Iterator_SeekToLast = iter_move SLI_SeekToLast"

text \<open>A loop that may not return, as a command.\<close>

definition run_option :: "('s \<Rightarrow> ('a result \<times> 's) option) \<Rightarrow> ('s, 'a) cmd" where
  "run_option f s = (case f s of None \<Rightarrow> crash Stuck s | Some r \<Rightarrow> r)"

text \<open>The loop of \<open>ListKeys\<close>: \<open>(*keys)[idx]\<close> past the end of the vector is undefined.\<close>

partial_function (option) ListKeys_loop ::
    "nat \<Rightarrow> bytes list \<Rightarrow> st \<Rightarrow> (bytes list result \<times> st) option" where
  "ListKeys_loop idx keys s =
     (case Iterator_Valid s of
        (Ok v, s1) \<Rightarrow>
          (if \<not> v then Some (Ok keys, s1)
           else (case Iterator_Key s1 of
                  (Ok k, s2) \<Rightarrow>
                    (if idx < length keys
                     then (case Iterator_Next s2 of
                             (Ok _, s3) \<Rightarrow> ListKeys_loop (Suc idx) (keys[idx := k]) s3
                           | (Err c, s3) \<Rightarrow> Some (Err c, s3)
                           | (Crash f, s3) \<Rightarrow> Some (Crash f, s3))
                     else Some (Crash OutOfBounds, s2))
                | (Err c, s2) \<Rightarrow> Some (Err c, s2)
                | (Crash f, s2) \<Rightarrow> Some (Crash f, s2)))
      | (Err c, s1) \<Rightarrow> Some (Err c, s1)
      | (Crash f, s1) \<Rightarrow> Some (Crash f, s1))"

definition DB_ListKeys :: "(st, bytes list) cmd" where
  "DB_ListKeys =
     CHECK_OK index_Iterator (\<lambda>_.
     CHECK_OK (\<lambda>(db, w). ok (Indexer_Size (db_index db)) (db, w)) (\<lambda>n.
     CHECK_OK Iterator_SeekToFirst (\<lambda>_.
       run_option (ListKeys_loop 0 (replicate n [])))))"

text \<open>
  The loop of \<open>Fold\<close>. The user's operation \<open>fn\<close> has a state of its own, which the
  loop threads through.
\<close>

partial_function (option) Fold_loop ::
    "crc_fun \<Rightarrow> (bytes \<Rightarrow> bytes \<Rightarrow> 'u \<Rightarrow> bool \<times> 'u) \<Rightarrow> 'u \<Rightarrow> st \<Rightarrow> ('u result \<times> st) option" where
  "Fold_loop crc fn u s =
     (case Iterator_Valid s of
        (Ok v, s1) \<Rightarrow>
          (if \<not> v then Some (Ok u, s1)
           else (case CHECK_OK Iterator_Key (\<lambda>k. CHECK_OK (iter_read SLI_Value) (\<lambda>pst.
                       CHECK_OK (GetValueByLogRecordPst crc pst True) (\<lambda>value. ok (k, value)))) s1 of
                  (Ok kv, s2) \<Rightarrow>
                    (case fn (fst kv) (snd kv) u of (go_on, u') \<Rightarrow>
                       if \<not> go_on then Some (Ok u', s2)
                       else (case Iterator_Next s2 of
                               (Ok _, s3) \<Rightarrow> Fold_loop crc fn u' s3
                             | (Err c, s3) \<Rightarrow> Some (Err c, s3)
                             | (Crash f, s3) \<Rightarrow> Some (Crash f, s3)))
                | (Err c, s2) \<Rightarrow> Some (Err c, s2)
                | (Crash f, s2) \<Rightarrow> Some (Crash f, s2)))
      | (Err c, s1) \<Rightarrow> Some (Err c, s1)
      | (Crash f, s1) \<Rightarrow> Some (Crash f, s1))"

definition DB_Fold :: "crc_fun \<Rightarrow> (bytes \<Rightarrow> bytes \<Rightarrow> 'u \<Rightarrow> bool \<times> 'u) \<Rightarrow> 'u \<Rightarrow> (st, 'u) cmd" where
  "DB_Fold crc fn u =
     CHECK_OK index_Iterator (\<lambda>_.
     CHECK_OK Iterator_SeekToFirst (\<lambda>_.
       run_option (Fold_loop crc fn u)))"

end
