(* ===== verification/DB_Inv.thy ===== *)
theory DB_Inv
  imports DB_Core
begin

text \<open>
  What the files and the index of a database stand for. The log is the list of the
  data files in the order of their numbers, each with its records; replaying it
  gives the index, and the index with the log gives the map from keys to values that
  a user of the database sees.
\<close>

section \<open>The log\<close>

type_synonym log = "(u32 \<times> LogRecord list) list"

definition file_bytes :: "crc_fun \<Rightarrow> LogRecord list \<Rightarrow> bytes" where
  "file_bytes crc rs = concat (map (EncodeLogRecord crc) rs)"

text \<open>The records of a file with their positions.\<close>

primrec recs_at :: "crc_fun \<Rightarrow> u32 \<Rightarrow> nat \<Rightarrow> LogRecord list \<Rightarrow> (LogRecordPst \<times> LogRecord) list" where
  "recs_at crc f n [] = []"
| "recs_at crc f n (r # rs) =
     (\<lparr>fid = f, offset = word_of_nat n\<rparr>, r) # recs_at crc f (n + length (EncodeLogRecord crc r)) rs"

definition located :: "crc_fun \<Rightarrow> log \<Rightarrow> (LogRecordPst \<times> LogRecord) list" where
  "located crc fs = concat (map (\<lambda>(f, rs). recs_at crc f 0 rs) fs)"

definition holds_file :: "crc_fun \<Rightarrow> string \<Rightarrow> world \<Rightarrow> u32 \<times> LogRecord list \<Rightarrow> bool" where
  "holds_file crc dir w e \<longleftrightarrow> content w (GetDataFileName dir (fst e)) = Some (file_bytes crc (snd e))
     \<and> list_all record_fits (snd e) \<and> length (file_bytes crc (snd e)) < 2 ^ 64"

text \<open>
  A tidy directory: every name in it with the suffix of a data file is the name
  of one.
\<close>

definition tidy :: "string \<Rightarrow> world \<Rightarrow> bool" where
  "tidy dir w \<longleftrightarrow> distinct (map fst (files w))
     \<and> (\<forall>p \<in> fst ` set (files w). dirname p = dir \<longrightarrow> EndsWith (basename p) K_DATA_FILE_SUFFIX
          \<longrightarrow> (\<exists>f. p = GetDataFileName dir f))
     \<and> (\<forall>d \<in> set (dirs w). dirname d = dir \<longrightarrow> \<not> EndsWith (basename d) K_DATA_FILE_SUFFIX)"

text \<open>The files of the directory \<open>dir\<close> hold the log, and there are no other data files.\<close>

definition log_inv :: "crc_fun \<Rightarrow> string \<Rightarrow> world \<Rightarrow> log \<Rightarrow> bool" where
  "log_inv crc dir w fs \<longleftrightarrow>
     dir \<in> set (dirs w) \<and> tidy dir w \<and> sorted_wrt (\<lambda>a b. fst a < fst b) fs
     \<and> list_all (holds_file crc dir w) fs
     \<and> (\<forall>f. f \<notin> fst ` set fs \<longrightarrow> content w (GetDataFileName dir f) = None)"

text \<open>The last file is the active one and the others are in \<open>older_files_\<close>.\<close>

definition files_inv :: "crc_fun \<Rightarrow> DB \<Rightarrow> log \<Rightarrow> bool" where
  "files_inv crc db fs \<longleftrightarrow>
     (if fs = [] then db_active db = None \<and> db_next_file_id db = 0
      else db_active db = Some \<lparr>file_id = fst (last fs), write_off = length (file_bytes crc (snd (last fs))),
                                io_handler = GetDataFileName (dir_path (db_options db)) (fst (last fs))\<rparr>
           \<and> unat (db_next_file_id db) = unat (fst (last fs)) + 1)
     \<and> (\<forall>f \<in> fst ` set (butlast fs). \<exists>df. map_of (db_older db) f = Some (Some df)
          \<and> file_id df = f \<and> io_handler df = GetDataFileName (dir_path (db_options db)) f)"

section \<open>Records and positions\<close>

lemma file_bytes_simps [simp]:
  "file_bytes crc [] = []"
  "file_bytes crc (r # rs) = EncodeLogRecord crc r @ file_bytes crc rs"
  "file_bytes crc (rs @ rs') = file_bytes crc rs @ file_bytes crc rs'"
  by (simp_all add: file_bytes_def)

lemma recs_at_append:
  "recs_at crc f n (rs @ rs') = recs_at crc f n rs @ recs_at crc f (n + length (file_bytes crc rs)) rs'"
  by (induction rs arbitrary: n) (simp_all add: add.assoc)

lemma located_simps [simp]:
  "located crc [] = []"
  "located crc ((f, rs) # fs) = recs_at crc f 0 rs @ located crc fs"
  "located crc (fs @ fs') = located crc fs @ located crc fs'"
  by (simp_all add: located_def)

lemma fid_recs_at: "p \<in> set (recs_at crc f n rs) \<Longrightarrow> fid (fst p) = f"
  by (induction rs arbitrary: n) auto

lemma fid_located: "p \<in> set (located crc fs) \<Longrightarrow> fid (fst p) \<in> fst ` set fs"
  by (induction fs) (auto dest: fid_recs_at)

lemma record_fits_nonempty: "record_fits lr \<Longrightarrow> EncodeLogRecord crc lr \<noteq> []"
  by (simp add: record_fits_def EncodeLogRecord_def Let_def header_rest_nonempty)

text \<open>Where a located record lies in its file.\<close>

lemma recs_at_split:
  assumes "(pst, lr) \<in> set (recs_at crc f n rs)"
  shows "\<exists>rs1 rs2. rs = rs1 @ lr # rs2 \<and> pst = \<lparr>fid = f, offset = word_of_nat (n + length (file_bytes crc rs1))\<rparr>"
  using assms
proof (induction rs arbitrary: n)
  case (Cons r rs)
  show ?case
  proof (cases "(pst, lr) = (\<lparr>fid = f, offset = word_of_nat n\<rparr>, r)")
    case True
    then have "r # rs = [] @ lr # rs" "pst = \<lparr>fid = f, offset = word_of_nat (n + length (file_bytes crc []))\<rparr>"
      by simp_all
    then show ?thesis by blast
  next
    case False
    then have "(pst, lr) \<in> set (recs_at crc f (n + length (EncodeLogRecord crc r)) rs)" using Cons.prems by auto
    from Cons.IH [OF this] obtain rs1 rs2 where "rs = rs1 @ lr # rs2"
      "pst = \<lparr>fid = f, offset = word_of_nat (n + length (EncodeLogRecord crc r) + length (file_bytes crc rs1))\<rparr>"
      by blast
    then have "r # rs = (r # rs1) @ lr # rs2"
      "pst = \<lparr>fid = f, offset = word_of_nat (n + length (file_bytes crc (r # rs1)))\<rparr>"
      by (simp_all add: add.assoc)
    then show ?thesis by blast
  qed
qed simp

lemma located_split:
  assumes "(pst, lr) \<in> set (located crc fs)"
  obtains f rs1 rs2 where "(f, rs1 @ lr # rs2) \<in> set fs"
    "pst = \<lparr>fid = f, offset = word_of_nat (length (file_bytes crc rs1))\<rparr>"
  using assms recs_at_split [of pst lr crc _ 0] by (fastforce simp: located_def)

lemma unat_of_nat_64: "n < 2 ^ 64 \<Longrightarrow> unat (word_of_nat n :: u64) = n"
  by (simp add: unsigned_of_nat take_bit_nat_eq_self)

lemma unat_ucast_u32: "unat a < 2 ^ 32 \<Longrightarrow> unat (ucast (a :: u64) :: u32) = unat a"
  by (simp add: unsigned_ucast_eq take_bit_nat_eq_self)

lemma ucast_u32_inject:
  assumes "unat a < 2 ^ 32" and "unat b < 2 ^ 32"
  shows "(ucast a :: u32) = ucast b \<longleftrightarrow> a = (b :: u64)"
  using unat_ucast_u32 [OF assms(1)] unat_ucast_u32 [OF assms(2)] by (metis unsigned_word_eqI)

text \<open>Positions of one file are distinct, and so are those of the log.\<close>

lemma recs_at_distinct:
  assumes "list_all record_fits rs" and "n + length (file_bytes crc rs) < 2 ^ 64"
  shows "distinct (map fst (recs_at crc f n rs))
    \<and> (\<forall>p \<in> set (recs_at crc f n rs). n \<le> unat (offset (fst p)) \<and> unat (offset (fst p)) < n + length (file_bytes crc rs))"
  using assms
proof (induction rs arbitrary: n)
  case (Cons r rs)
  let ?m = "n + length (EncodeLogRecord crc r)"
  have pos: "0 < length (EncodeLogRecord crc r)" using Cons.prems(1) record_fits_nonempty by auto
  have IH: "distinct (map fst (recs_at crc f ?m rs))"
    "\<forall>p \<in> set (recs_at crc f ?m rs). ?m \<le> unat (offset (fst p)) \<and> unat (offset (fst p)) < ?m + length (file_bytes crc rs)"
    using Cons.IH [of ?m] Cons.prems by (auto simp: add.assoc)
  have u: "unat (word_of_nat n :: u64) = n" using Cons.prems(2) by (intro unat_of_nat_64) simp
  then show ?case using IH pos by (force simp: add.assoc)
qed simp

lemma located_distinct:
  assumes "sorted_wrt (\<lambda>a b. fst a < fst b) fs"
    and "list_all (holds_file crc dir w) fs"
  shows "distinct (map fst (located crc fs))"
  using assms
proof (induction fs)
  case (Cons e fs)
  obtain f rs where e: "e = (f, rs)" by (cases e)
  have "fid (fst p) \<in> fst ` set fs" if "p \<in> set (located crc fs)" for p
    using fid_located [OF that] .
  moreover have "fid (fst p) = f" if "p \<in> set (recs_at crc f 0 rs)" for p using fid_recs_at [OF that] .
  moreover have "f \<notin> fst ` set fs" using Cons.prems(1) e by force
  ultimately have "fst ` set (recs_at crc f 0 rs) \<inter> fst ` set (located crc fs) = {}" by force
  then show ?case using Cons e recs_at_distinct [of rs 0 crc f] by (auto simp: holds_file_def)
qed simp

lemma log_inv_distinct: "log_inv crc dir w fs \<Longrightarrow> distinct (map fst (located crc fs))"
  by (rule located_distinct) (auto simp: log_inv_def)

section \<open>Appending to the log\<close>

text \<open>What an append leaves alone.\<close>

definition same_db :: "DB \<Rightarrow> DB \<Rightarrow> bool" where
  "same_db db db' \<longleftrightarrow> db_options db' = db_options db \<and> db_index db' = db_index db
     \<and> db_file_ids db' = db_file_ids db \<and> db_txn_id db' = db_txn_id db \<and> db_is_merging db' = db_is_merging db"

definition same_world :: "string \<Rightarrow> world \<Rightarrow> world \<Rightarrow> bool" where
  "same_world dir w w' \<longleftrightarrow> dirs w' = dirs w \<and> dir_order w' = dir_order w \<and> wr_script w' = wr_script w
     \<and> sync_script w' = sync_script w \<and> (\<forall>p. (\<forall>f. p \<noteq> GetDataFileName dir f) \<longrightarrow> content w' p = content w p)"

lemma same_db_refl [simp]: "same_db db db"
  by (simp add: same_db_def)

lemma same_db_trans: "same_db a b \<Longrightarrow> same_db b c \<Longrightarrow> same_db a c"
  by (simp add: same_db_def)

lemma same_world_refl [simp]: "same_world d w w"
  by (simp add: same_world_def)

lemma same_world_trans: "same_world d a b \<Longrightarrow> same_world d b c \<Longrightarrow> same_world d a c"
  by (simp add: same_world_def)

lemma NewActiveDataFile_eq:
  "NewActiveDataFile (db, w) =
     (Ok (), db\<lparr>db_next_file_id := db_next_file_id db + 1,
        db_active := Some \<lparr>file_id = db_next_file_id db, write_off = 0,
          io_handler = GetDataFileName (dir_path (db_options db)) (db_next_file_id db)\<rparr>\<rparr>,
      open_create (GetDataFileName (dir_path (db_options db)) (db_next_file_id db)) w)"
  by (simp add: NewActiveDataFile_def CHECK_OK_def on_world_def zoom_def OpenDataFile_def NewDataFile_def
      NewIOHandler_def ok_def on_db_def update_state_def)

lemma tidy_open_create: "tidy dir w \<Longrightarrow> tidy dir (open_create (GetDataFileName dir n) w)"
  by (auto simp: tidy_def open_create_def content_def map_of_eq_None_iff)

lemma tidy_set_content: "tidy dir w \<Longrightarrow> content w p \<noteq> None \<Longrightarrow> tidy dir (set_content p c w)"
proof -
  assume t: "tidy dir w" and "content w p \<noteq> None"
  then have "p \<in> fst ` set (files w)" by (simp add: content_def map_of_eq_None_iff)
  then have keys: "fst ` set (AList.update p c (files w)) = fst ` set (files w)"
    by (simp add: dom_update insert_absorb)
  have "distinct (map fst (AList.update p c (files w)))" using t by (simp add: tidy_def distinct_update)
  then show ?thesis using t unfolding tidy_def set_content_def by (simp add: keys)
qed

lemma log_inv_new_file:
  assumes inv: "log_inv crc dir w fs" and n: "\<forall>f \<in> fst ` set fs. f < n"
  shows "log_inv crc dir (open_create (GetDataFileName dir n) w) (fs @ [(n, [])])"
    and "same_world dir w (open_create (GetDataFileName dir n) w)"
proof -
  have "n \<notin> fst ` set fs" using n by auto
  then have fresh: "content w (GetDataFileName dir n) = None" and dir: "dir \<in> set (dirs w)"
    using inv by (auto simp: log_inv_def)
  have c: "content (open_create (GetDataFileName dir n) w) p
      = (if p = GetDataFileName dir n then Some [] else content w p)" for p
    using fresh dir by (simp add: fs_simps)
  have "holds_file crc dir (open_create (GetDataFileName dir n) w) e \<longleftrightarrow> holds_file crc dir w e" if "e \<in> set fs" for e
    using that \<open>n \<notin> fst ` set fs\<close> by (auto simp: holds_file_def c)
  moreover have "holds_file crc dir (open_create (GetDataFileName dir n) w) (n, [])"
    by (simp add: holds_file_def c)
  ultimately show "log_inv crc dir (open_create (GetDataFileName dir n) w) (fs @ [(n, [])])"
    using inv n tidy_open_create [of dir w n] by (auto simp: log_inv_def sorted_wrt_append c list_all_iff)
  show "same_world dir w (open_create (GetDataFileName dir n) w)"
    by (simp add: same_world_def c)
qed

lemma log_inv_append:
  assumes inv: "log_inv crc dir w (fs @ [(f, rs)])" and fits: "record_fits lr"
    and len: "length (file_bytes crc rs) + length (EncodeLogRecord crc lr) < 2 ^ 64"
  shows "log_inv crc dir (set_content (GetDataFileName dir f) (file_bytes crc rs @ EncodeLogRecord crc lr) w)
           (fs @ [(f, rs @ [lr])])"
    and "same_world dir w (set_content (GetDataFileName dir f) (file_bytes crc rs @ EncodeLogRecord crc lr) w)"
proof -
  let ?w = "set_content (GetDataFileName dir f) (file_bytes crc rs @ EncodeLogRecord crc lr) w"
  have "f \<notin> fst ` set fs" using inv by (auto simp: log_inv_def sorted_wrt_append)
  then have "holds_file crc dir ?w e \<longleftrightarrow> holds_file crc dir w e" if "e \<in> set fs" for e
    using that by (auto simp: holds_file_def content_set_content)
  moreover have "holds_file crc dir ?w (f, rs @ [lr])"
    using inv fits len by (simp add: log_inv_def holds_file_def content_set_content)
  ultimately show "log_inv crc dir ?w (fs @ [(f, rs @ [lr])])"
    using inv tidy_set_content [of dir w "GetDataFileName dir f"]
    by (auto simp: log_inv_def sorted_wrt_append content_set_content list_all_iff holds_file_def)
  show "same_world dir w (set_content (GetDataFileName dir f) (file_bytes crc rs @ EncodeLogRecord crc lr) w)"
    by (simp add: same_world_def content_set_content)
qed

lemma on_active_eq:
  assumes "db_active db = Some df" and "m (df, w) = (r, df', w')"
  shows "on_active m (db, w) = (r, db\<lparr>db_active := Some df'\<rparr>, w')"
  using assms by (simp add: on_active_def)

text \<open>A retired file stays reachable in \<open>older_files_\<close>.\<close>

lemma retire_active_eq:
  "db_active db = Some df \<Longrightarrow> retire_active (db, w) =
     (Ok (), db\<lparr>db_older := AList.update (file_id df) (Some df) (db_older db), db_active := None\<rparr>, w)"
  by (simp add: retire_active_def ok_def)

definition healthy :: "world \<Rightarrow> bool" where
  "healthy w \<longleftrightarrow> wr_script w = [] \<and> sync_script w = []"

lemma healthy_same_world: "healthy w \<Longrightarrow> same_world dir w w' \<Longrightarrow> healthy w'"
  by (simp add: healthy_def same_world_def)

text \<open>The three ways an append can go, each as the resulting state.\<close>

lemma write_active_ok:
  assumes log: "log_inv crc dir w (fs @ [(f, rs)])" and fi: "files_inv crc db (fs @ [(f, rs)])"
    and dir: "dir = dir_path (db_options db)" and ok: "healthy w" and fits: "record_fits lr"
    and len: "length (file_bytes crc rs) + length (EncodeLogRecord crc lr) < 2 ^ 64"
  shows "\<exists>db' w'. write_active (EncodeLogRecord crc lr) (db, w)
      = (Ok \<lparr>fid = f, offset = word_of_nat (length (file_bytes crc rs))\<rparr>, db', w')
    \<and> log_inv crc dir w' (fs @ [(f, rs @ [lr])]) \<and> files_inv crc db' (fs @ [(f, rs @ [lr])])
    \<and> same_db db db' \<and> same_world dir w w' \<and> db_next_file_id db' = db_next_file_id db"
proof -
  let ?df = "\<lparr>file_id = f, write_off = length (file_bytes crc rs), io_handler = GetDataFileName dir f\<rparr>"
  let ?df' = "?df\<lparr>write_off := length (file_bytes crc rs) + length (EncodeLogRecord crc lr)\<rparr>"
  let ?w = "set_content (GetDataFileName dir f) (file_bytes crc rs @ EncodeLogRecord crc lr) w"
  let ?db = "db\<lparr>db_active := Some ?df'\<rparr>"
  have act: "db_active db = Some ?df" using fi dir by (simp add: files_inv_def)
  have c: "content w (GetDataFileName dir f) = Some (file_bytes crc rs)"
    using log by (simp add: log_inv_def holds_file_def)
  have wr: "on_active (DataFile_Write (EncodeLogRecord crc lr)) (db, w) = (Ok (), ?db, ?w)"
    using DataFile_Write_ok [of w ?df "file_bytes crc rs"] c ok record_fits_length [OF fits]
    by (intro on_active_eq [OF act]) (simp add: healthy_def)
  have sy: "on_active DataFile_Sync (?db, ?w) = (Ok (), ?db, ?w)"
    using DataFile_Sync_ok [of ?w ?df'] ok on_active_eq [of ?db ?df' DataFile_Sync ?w]
    by (simp add: healthy_def content_set_content)
  have "write_active (EncodeLogRecord crc lr) (db, w)
      = (Ok \<lparr>fid = f, offset = word_of_nat (length (file_bytes crc rs))\<rparr>, ?db, ?w)"
    using act wr sy by (simp add: write_active_def CHECK_OK_def ok_def)
  moreover have "files_inv crc ?db (fs @ [(f, rs @ [lr])])" using fi dir by (simp add: files_inv_def)
  ultimately show ?thesis
    using log_inv_append [OF log fits len] by (auto simp: same_db_def)
qed

lemma unat_Suc_u32: "unat (n :: u32) + 1 < 2 ^ 32 \<Longrightarrow> unat (n + 1) = unat n + 1"
  by (simp add: unat_word_ariths)

lemma files_inv_next_above:
  assumes "log_inv crc dir w fs" and "files_inv crc db fs"
  shows "\<forall>f \<in> fst ` set fs. f < db_next_file_id db"
proof (cases fs rule: rev_cases)
  case (snoc gs e)
  have "unat (fst e) < unat (db_next_file_id db)" using assms(2) snoc by (simp add: files_inv_def)
  then have "fst e < db_next_file_id db" by (simp add: word_less_nat_alt)
  moreover have "\<forall>g \<in> set gs. fst g < fst e" using assms(1) snoc by (auto simp: log_inv_def sorted_wrt_append)
  ultimately show ?thesis using snoc by (auto intro: less_trans)
qed simp

lemma first_file_ok:
  assumes log: "log_inv crc dir w []" and fi: "files_inv crc db []" and dir: "dir = dir_path (db_options db)"
  shows "\<exists>db' w'. NewActiveDataFile (db, w) = (Ok (), db', w')
    \<and> log_inv crc dir w' [(0, [])] \<and> files_inv crc db' [(0, [])] \<and> same_db db db' \<and> same_world dir w w'
    \<and> unat (db_next_file_id db') = 1"
  using log_inv_new_file [OF log, of 0] fi dir
  by (auto simp: NewActiveDataFile_eq files_inv_def same_db_def)

lemma rotate_ok:
  assumes log: "log_inv crc dir w (fs @ [(f, rs)])" and fi: "files_inv crc db (fs @ [(f, rs)])"
    and dir: "dir = dir_path (db_options db)" and ok: "healthy w"
    and full: "unat (data_file_size (db_options db)) < length (file_bytes crc rs) + n"
    and ids: "unat (db_next_file_id db) + 1 < 2 ^ 32"
  shows "\<exists>db' w'. rotate_if_full n (db, w) = (Ok (), db', w')
    \<and> log_inv crc dir w' ((fs @ [(f, rs)]) @ [(db_next_file_id db, [])])
    \<and> files_inv crc db' ((fs @ [(f, rs)]) @ [(db_next_file_id db, [])])
    \<and> same_db db db' \<and> same_world dir w w' \<and> unat (db_next_file_id db') = unat (db_next_file_id db) + 1"
proof -
  let ?n = "db_next_file_id db"
  let ?df = "\<lparr>file_id = f, write_off = length (file_bytes crc rs), io_handler = GetDataFileName dir f\<rparr>"
  let ?db1 = "db\<lparr>db_older := AList.update f (Some ?df) (db_older db), db_active := None\<rparr>"
  let ?w = "open_create (GetDataFileName dir ?n) w"
  let ?db2 = "?db1\<lparr>db_next_file_id := ?n + 1,
      db_active := Some \<lparr>file_id = ?n, write_off = 0, io_handler = GetDataFileName dir ?n\<rparr>\<rparr>"
  have act: "db_active db = Some ?df" using fi dir by (simp add: files_inv_def)
  have c: "content w (GetDataFileName dir f) = Some (file_bytes crc rs)"
    using log by (simp add: log_inv_def holds_file_def)
  have sync: "on_active DataFile_Sync (db, w) = (Ok (), db, w)"
    using DataFile_Sync_ok [of w ?df] c ok on_active_eq [OF act, of DataFile_Sync w] act
    by (simp add: healthy_def)
  have "rotate_if_full n (db, w) = (Ok (), ?db2, ?w)"
    using act full sync retire_active_eq [OF act, of w] NewActiveDataFile_eq [of ?db1 w] dir
    by (simp add: rotate_if_full_def CHECK_OK_def)
  moreover note log_inv_new_file [OF log files_inv_next_above [OF log fi]]
  moreover have "files_inv crc ?db2 ((fs @ [(f, rs)]) @ [(?n, [])])"
    using fi dir unat_Suc_u32 [OF ids] by (auto simp: files_inv_def update_conv' butlast_append)
  ultimately show ?thesis using unat_Suc_u32 [OF ids] by (auto simp: same_db_def)
qed

lemma no_rotate:
  assumes "db_active db = Some df" and "write_off df + n \<le> unat (data_file_size (db_options db))"
  shows "rotate_if_full n (db, w) = (Ok (), db, w)"
  using assms by (simp add: rotate_if_full_def ok_def)

text \<open>The record \<open>lr\<close> was added at \<open>pst\<close>, and the log \<open>fs\<close> became \<open>fs'\<close>.\<close>

definition appended ::
    "crc_fun \<Rightarrow> LogRecord \<Rightarrow> st \<Rightarrow> log \<Rightarrow> LogRecordPst \<Rightarrow> st \<Rightarrow> log \<Rightarrow> bool" where
  "appended crc lr s fs pst s' fs' \<longleftrightarrow>
     log_inv crc (dir_path (db_options (fst s))) (snd s') fs' \<and> files_inv crc (fst s') fs'
     \<and> located crc fs' = located crc fs @ [(pst, lr)] \<and> same_db (fst s) (fst s')
     \<and> same_world (dir_path (db_options (fst s))) (snd s) (snd s')
     \<and> ([] \<notin> snd ` set fs \<longrightarrow> [] \<notin> snd ` set fs')
     \<and> unat (db_next_file_id (fst s')) \<le> unat (db_next_file_id (fst s)) + 1"

text \<open>
  What an operation leaves alone: the options, the world but for the data files of the directory,
  and the file numbers but for at most \<open>n\<close> new ones.
\<close>

definition grown :: "nat \<Rightarrow> st \<Rightarrow> st \<Rightarrow> bool" where
  "grown n s s' \<longleftrightarrow> db_options (fst s') = db_options (fst s)
     \<and> same_world (dir_path (db_options (fst s))) (snd s) (snd s')
     \<and> unat (db_next_file_id (fst s')) \<le> unat (db_next_file_id (fst s)) + n"

lemma grown_refl [simp]: "grown n s s"
  by (simp add: grown_def)

lemma grown_trans: "grown n s s' \<Longrightarrow> grown k s' s'' \<Longrightarrow> grown (n + k) s s''"
  unfolding grown_def by (metis (no_types, lifting) add.assoc add_le_mono1 le_trans same_world_trans)

lemma grown_mono: "grown n s s' \<Longrightarrow> n \<le> k \<Longrightarrow> grown k s s'"
  by (simp add: grown_def)

lemma grown_healthy: "grown n s s' \<Longrightarrow> healthy (snd s) \<Longrightarrow> healthy (snd s')"
  using healthy_same_world by (auto simp: grown_def)

lemma appended_grown: "appended crc lr s fs pst s' fs' \<Longrightarrow> grown 1 s s'"
  by (simp add: appended_def grown_def same_db_def)

lemma grown_index: "grown n s (db, w) \<Longrightarrow> grown n s (db\<lparr>db_index := i\<rparr>, w)"
  by (simp add: grown_def)

lemma AppendLogRecord_steps:
  assumes "(if db_active db = None then NewActiveDataFile else ok ()) (db, w) = (Ok (), db1, w1)"
    and "rotate_if_full (length (EncodeLogRecord crc lr)) (db1, w1) = (Ok (), db2, w2)"
  shows "AppendLogRecord crc lr True (db, w) = write_active (EncodeLogRecord crc lr) (db2, w2)"
  using assms by (simp add: AppendLogRecord_def CHECK_OK_def Let_def)

lemma data_file_size_bound: "unat (data_file_size opts) < 2 ^ 64"
  using unsigned_less [of "data_file_size opts", where ?'a = nat] by simp

lemma append_first:
  assumes log: "log_inv crc (dir_path (db_options db)) w []" and fi: "files_inv crc db []"
    and ok: "healthy w" and fits: "record_fits lr"
    and len: "length (EncodeLogRecord crc lr) \<le> unat (data_file_size (db_options db))"
  shows "\<exists>pst s' fs'. AppendLogRecord crc lr True (db, w) = (Ok pst, s') \<and> appended crc lr (db, w) [] pst s' fs'"
proof -
  let ?dir = "dir_path (db_options db)"
  obtain db1 w1 where 1: "NewActiveDataFile (db, w) = (Ok (), db1, w1)" "log_inv crc ?dir w1 ([] @ [(0, [])])"
    "files_inv crc db1 ([] @ [(0, [])])" "same_db db db1" "same_world ?dir w w1" "unat (db_next_file_id db1) = 1"
    using first_file_ok [OF log fi refl] by auto
  have rot: "rotate_if_full (length (EncodeLogRecord crc lr)) (db1, w1) = (Ok (), db1, w1)"
    using 1(3,4) len by (intro no_rotate) (auto simp: files_inv_def same_db_def)
  have dir1: "?dir = dir_path (db_options db1)" using 1(4) by (simp add: same_db_def)
  obtain db' w' where 2: "write_active (EncodeLogRecord crc lr) (db1, w1)
      = (Ok \<lparr>fid = 0, offset = word_of_nat 0\<rparr>, db', w')" "log_inv crc ?dir w' [(0, [lr])]"
    "files_inv crc db' [(0, [lr])]" "same_db db1 db'" "same_world ?dir w1 w'" "db_next_file_id db' = db_next_file_id db1"
    using write_active_ok [OF 1(2,3) dir1 healthy_same_world [OF ok 1(5)] fits] len data_file_size_bound [of "db_options db"]
    by auto
  have "db_active db = None" using fi by (simp add: files_inv_def)
  then have "AppendLogRecord crc lr True (db, w) = (Ok \<lparr>fid = 0, offset = word_of_nat 0\<rparr>, db', w')"
    using AppendLogRecord_steps [OF _ rot, of db w] 1(1) 2(1) by simp
  moreover have "appended crc lr (db, w) [] \<lparr>fid = 0, offset = word_of_nat 0\<rparr> (db', w') [(0, [lr])]"
    unfolding appended_def using 1 2 same_db_trans [OF 1(4) 2(4)] same_world_trans [OF 1(5) 2(5)] by simp
  ultimately show ?thesis by blast
qed

lemma append_fits:
  assumes log: "log_inv crc (dir_path (db_options db)) w (gs @ [(f, rs)])" and fi: "files_inv crc db (gs @ [(f, rs)])"
    and ok: "healthy w" and fits: "record_fits lr"
    and len: "length (file_bytes crc rs) + length (EncodeLogRecord crc lr) \<le> unat (data_file_size (db_options db))"
  shows "\<exists>pst s' fs'. AppendLogRecord crc lr True (db, w) = (Ok pst, s')
    \<and> appended crc lr (db, w) (gs @ [(f, rs)]) pst s' fs'"
proof -
  let ?dir = "dir_path (db_options db)"
  have act: "db_active db = Some \<lparr>file_id = f, write_off = length (file_bytes crc rs), io_handler = GetDataFileName ?dir f\<rparr>"
    using fi by (simp add: files_inv_def)
  then have first: "(if db_active db = None then NewActiveDataFile else ok ()) (db, w) = (Ok (), db, w)"
    by (simp add: ok_def)
  obtain db' w' where 2: "write_active (EncodeLogRecord crc lr) (db, w)
      = (Ok \<lparr>fid = f, offset = word_of_nat (length (file_bytes crc rs))\<rparr>, db', w')"
    "log_inv crc ?dir w' (gs @ [(f, rs @ [lr])])" "files_inv crc db' (gs @ [(f, rs @ [lr])])"
    "same_db db db'" "same_world ?dir w w'" "db_next_file_id db' = db_next_file_id db"
    using write_active_ok [OF log fi refl ok fits] len data_file_size_bound [of "db_options db"] by auto
  have "AppendLogRecord crc lr True (db, w)
      = (Ok \<lparr>fid = f, offset = word_of_nat (length (file_bytes crc rs))\<rparr>, db', w')"
    using AppendLogRecord_steps [OF first no_rotate [OF act]] len 2(1) by simp
  moreover have "appended crc lr (db, w) (gs @ [(f, rs)])
      \<lparr>fid = f, offset = word_of_nat (length (file_bytes crc rs))\<rparr> (db', w') (gs @ [(f, rs @ [lr])])"
    unfolding appended_def using 2 by (auto simp: recs_at_append)
  ultimately show ?thesis by blast
qed

lemma append_rotates:
  assumes log: "log_inv crc (dir_path (db_options db)) w (gs @ [(f, rs)])" and fi: "files_inv crc db (gs @ [(f, rs)])"
    and ok: "healthy w" and fits: "record_fits lr"
    and len: "length (EncodeLogRecord crc lr) \<le> unat (data_file_size (db_options db))"
    and full: "unat (data_file_size (db_options db)) < length (file_bytes crc rs) + length (EncodeLogRecord crc lr)"
    and ids: "unat (db_next_file_id db) + 1 < 2 ^ 32"
  shows "\<exists>pst s' fs'. AppendLogRecord crc lr True (db, w) = (Ok pst, s')
    \<and> appended crc lr (db, w) (gs @ [(f, rs)]) pst s' fs'"
proof -
  let ?dir = "dir_path (db_options db)" and ?n = "db_next_file_id db"
  have "db_active db \<noteq> None" using fi by (simp add: files_inv_def)
  then have first: "(if db_active db = None then NewActiveDataFile else ok ()) (db, w) = (Ok (), db, w)"
    by (auto simp: ok_def)
  obtain db1 w1 where 1: "rotate_if_full (length (EncodeLogRecord crc lr)) (db, w) = (Ok (), db1, w1)"
    "log_inv crc ?dir w1 ((gs @ [(f, rs)]) @ [(?n, [])])" "files_inv crc db1 ((gs @ [(f, rs)]) @ [(?n, [])])"
    "same_db db db1" "same_world ?dir w w1" "unat (db_next_file_id db1) = unat ?n + 1"
    using rotate_ok [OF log fi refl ok full ids] by blast
  have dir1: "?dir = dir_path (db_options db1)" using 1(4) by (simp add: same_db_def)
  obtain db' w' where 2: "write_active (EncodeLogRecord crc lr) (db1, w1)
      = (Ok \<lparr>fid = ?n, offset = word_of_nat 0\<rparr>, db', w')"
    "log_inv crc ?dir w' ((gs @ [(f, rs)]) @ [(?n, [lr])])" "files_inv crc db' ((gs @ [(f, rs)]) @ [(?n, [lr])])"
    "same_db db1 db'" "same_world ?dir w1 w'" "db_next_file_id db' = db_next_file_id db1"
    using write_active_ok [OF 1(2,3) dir1 healthy_same_world [OF ok 1(5)] fits] len data_file_size_bound [of "db_options db"]
    by auto
  have "AppendLogRecord crc lr True (db, w) = (Ok \<lparr>fid = ?n, offset = word_of_nat 0\<rparr>, db', w')"
    using AppendLogRecord_steps [OF first 1(1)] 2(1) by simp
  moreover have "appended crc lr (db, w) (gs @ [(f, rs)]) \<lparr>fid = ?n, offset = word_of_nat 0\<rparr> (db', w')
      ((gs @ [(f, rs)]) @ [(?n, [lr])])"
    unfolding appended_def
    using 1(6) 2 same_db_trans [OF 1(4) 2(4)] same_world_trans [OF 1(5) 2(5)] by simp
  ultimately show ?thesis by blast
qed

lemma AppendLogRecord_ok:
  assumes log: "log_inv crc (dir_path (db_options db)) w fs" and fi: "files_inv crc db fs"
    and ok: "healthy w" and fits: "record_fits lr"
    and len: "length (EncodeLogRecord crc lr) \<le> unat (data_file_size (db_options db))"
    and ids: "unat (db_next_file_id db) + 1 < 2 ^ 32"
  shows "\<exists>pst s' fs'. AppendLogRecord crc lr True (db, w) = (Ok pst, s') \<and> appended crc lr (db, w) fs pst s' fs'"
proof (cases fs rule: rev_cases)
  case Nil
  then show ?thesis using append_first [OF log [unfolded Nil] fi [unfolded Nil] ok fits len] by simp
next
  case (snoc gs e)
  obtain f rs where e: "e = (f, rs)" by (cases e)
  note fs = snoc [unfolded e]
  show ?thesis
  proof (cases "length (file_bytes crc rs) + length (EncodeLogRecord crc lr) \<le> unat (data_file_size (db_options db))")
    case True
    then show ?thesis using append_fits [OF log [unfolded fs] fi [unfolded fs] ok fits] fs by simp
  next
    case False
    then show ?thesis using append_rotates [OF log [unfolded fs] fi [unfolded fs] ok fits len _ ids] fs by simp
  qed
qed

end
