(* ===== verification/DB_Refine.thy ===== *)
theory DB_Refine
  imports DB_Inv
begin

text \<open>
  The contract of a database: it is a finite map from keys to values. \<open>models crc s M\<close>
  relates a state to that map, and \<open>Put\<close>, \<open>Get\<close> and \<open>Delete\<close> are shown to be the map's
  update, lookup and removal. The relation carries more than a single run needs: the
  index is what a replay of the log on disk gives, which is what recovery uses.
\<close>

section \<open>Replaying a log\<close>

text \<open>The effect of one committed record on the index; removing a key that is not there fails.\<close>

definition upd_spec :: "bytes \<times> LogRecordType \<times> LogRecordPst \<Rightarrow> (bytes \<rightharpoonup> LogRecordPst) \<Rightarrow> (bytes \<rightharpoonup> LogRecordPst) option" where
  "upd_spec = (\<lambda>(k, ty, pst) m.
     if ty = DeletedLogRecord then if m k = None then None else Some (m(k := None))
     else Some (m(k \<mapsto> pst)))"

primrec upds_spec :: "(bytes \<times> LogRecordType \<times> LogRecordPst) list \<Rightarrow> (bytes \<rightharpoonup> LogRecordPst) \<Rightarrow> (bytes \<rightharpoonup> LogRecordPst) option" where
  "upds_spec [] m = Some m"
| "upds_spec (u # us) m = Option.bind (upd_spec u m) (upds_spec us)"

text \<open>
  A replay in progress: the index, the records of the transactions that are not
  finished, by the 32 low bits of their number, and the highest number seen.
\<close>

type_synonym replay_state =
  "(bytes \<rightharpoonup> LogRecordPst) \<times> (u32 \<Rightarrow> (bytes \<times> LogRecordType \<times> LogRecordPst) list) \<times> u64"

definition replay_step :: "LogRecordPst \<times> LogRecord \<Rightarrow> replay_state \<Rightarrow> replay_state option" where
  "replay_step = (\<lambda>(pst, lr) (m, T, c).
     case DecodeLogRecordWithTxnID (lr_key lr) of Fault _ \<Rightarrow> None
     | Return (k, t) \<Rightarrow>
        (if t = K_NON_TXN_ID then map_option (\<lambda>m'. (m', T, c)) (upd_spec (cstr k, lr_type lr, pst) m)
         else if lr_type lr = TxnFinishedLogRecord
         then map_option (\<lambda>m'. (m', T(ucast t := []), max c t)) (upds_spec (T (ucast t)) m)
         else Some (m, T(ucast t := T (ucast t) @ [(cstr k, lr_type lr, pst)]), max c t)))"

primrec replay :: "(LogRecordPst \<times> LogRecord) list \<Rightarrow> replay_state \<Rightarrow> replay_state option" where
  "replay [] s = Some s"
| "replay (r # rs) s = Option.bind (replay_step r s) (replay rs)"

definition replay_init :: replay_state where
  "replay_init = (Map.empty, (\<lambda>_. []), K_NON_TXN_ID)"

lemma replay_append: "replay (xs @ ys) s = Option.bind (replay xs s) (replay ys)"
  by (induction xs arbitrary: s) (auto split: bind_splits)

lemma upds_spec_append: "upds_spec (us @ vs) m = Option.bind (upds_spec us m) (upds_spec vs)"
  by (induction us arbitrary: m) (auto split: bind_splits)

lemma replay_step_single:
  "replay_step (pst, \<lparr>lr_key = EncodeVarint64 K_NON_TXN_ID @ cstr k, lr_value = v, lr_type = ty\<rparr>) (m, T, c)
     = map_option (\<lambda>m'. (m', T, c)) (upd_spec (cstr k, ty, pst) m)"
  using DecodeLogRecordWithTxnID_enc [of K_NON_TXN_ID "cstr k"]
  by (simp add: replay_step_def K_NON_TXN_ID_def)

section \<open>The relation between a state and its map\<close>

text \<open>The index holds \<open>m\<close>: a non-null pointer to a position for every key of \<open>m\<close>.\<close>

definition index_holds :: "Indexer \<Rightarrow> (bytes \<rightharpoonup> LogRecordPst) \<Rightarrow> bool" where
  "index_holds i m \<longleftrightarrow> idx_rep i (\<lambda>k. map_option Some (m k))"

text \<open>Every position in the index is that of a record of the log that is not a deletion.\<close>

definition live :: "crc_fun \<Rightarrow> log \<Rightarrow> (bytes \<rightharpoonup> LogRecordPst) \<Rightarrow> bool" where
  "live crc fs m \<longleftrightarrow> (\<forall>pst \<in> ran m. \<exists>lr. map_of (located crc fs) pst = Some lr \<and> lr_type lr \<noteq> DeletedLogRecord)"

definition kv :: "crc_fun \<Rightarrow> log \<Rightarrow> (bytes \<rightharpoonup> LogRecordPst) \<Rightarrow> (bytes \<rightharpoonup> bytes)" where
  "kv crc fs m k = Option.bind (m k) (\<lambda>pst. map_option lr_value (map_of (located crc fs) pst))"

definition db_inv :: "crc_fun \<Rightarrow> st \<Rightarrow> log \<Rightarrow> (bytes \<rightharpoonup> LogRecordPst) \<Rightarrow> bool" where
  "db_inv crc s fs m \<longleftrightarrow>
     log_inv crc (dir_path (db_options (fst s))) (snd s) fs \<and> files_inv crc (fst s) fs
     \<and> [] \<notin> snd ` set fs \<and> index_holds (db_index (fst s)) m \<and> live crc fs m
     \<and> (\<exists>T c. replay (located crc fs) replay_init = Some (m, T, c) \<and> c \<le> db_txn_id (fst s)
          \<and> (\<forall>t. db_txn_id (fst s) < t \<longrightarrow> unat t < 2 ^ 32 \<longrightarrow> T (ucast t) = []))"

definition models :: "crc_fun \<Rightarrow> st \<Rightarrow> (bytes \<rightharpoonup> bytes) \<Rightarrow> bool" where
  "models crc s M \<longleftrightarrow> (\<exists>fs m. db_inv crc s fs m \<and> M = kv crc fs m)"

section \<open>The index commands\<close>

lemma index_Put_holds:
  assumes "index_holds (db_index db) m"
  shows "\<exists>i. index_Put k (Some pst) (db, w) = (Ok True, db\<lparr>db_index := i\<rparr>, w) \<and> index_holds i (m(cstr k \<mapsto> pst))"
proof -
  have "(\<lambda>j. map_option Some ((m(cstr k \<mapsto> pst)) j)) = (\<lambda>j. map_option Some (m j))(cstr k \<mapsto> Some pst)"
    by (simp add: fun_eq_iff)
  then show ?thesis
    using idx.put_law [OF assms [unfolded index_holds_def], of k "Some pst"]
    by (auto simp: index_Put_def index_holds_def ok_def)
qed

lemma index_Get_holds:
  assumes "index_holds (db_index db) m"
  shows "index_Get k (db, w) = (Ok (m (cstr k)), db, w)"
  using idx.get_law [OF assms [unfolded index_holds_def], of k]
  by (cases "m (cstr k)") (simp_all add: index_Get_def ok_def)

lemma index_Delete_holds:
  assumes "index_holds (db_index db) m"
  shows "\<exists>i. index_Delete k (db, w) = (Ok (m (cstr k) \<noteq> None), db\<lparr>db_index := i\<rparr>, w) \<and> index_holds i (m(cstr k := None))"
proof -
  have "(\<lambda>j. map_option Some ((m(cstr k := None)) j)) = (\<lambda>j. map_option Some (m j))(cstr k := None)"
    by (simp add: fun_eq_iff)
  then show ?thesis
    using idx.del_law [OF assms [unfolded index_holds_def], of k]
    by (auto simp: index_Delete_def index_holds_def ok_def)
qed

section \<open>\<open>Get\<close>\<close>

lemma file_of_log:
  assumes "files_inv crc db fs" and "f \<in> fst ` set fs"
  shows "\<exists>df. file_of f (db, w) = (Ok (Some df), db, w) \<and> io_handler df = GetDataFileName (dir_path (db_options db)) f"
proof (cases fs rule: rev_cases)
  case (snoc gs e)
  then have act: "db_active db = Some \<lparr>file_id = fst e, write_off = length (file_bytes crc (snd e)),
      io_handler = GetDataFileName (dir_path (db_options db)) (fst e)\<rparr>"
    using assms(1) by (simp add: files_inv_def)
  show ?thesis
  proof (cases "f = fst e")
    case True
    then show ?thesis using act by (simp add: file_of_def ok_def)
  next
    case False
    then have "f \<in> fst ` set (butlast fs)" using assms(2) snoc by auto
    then obtain df where "map_of (db_older db) f = Some (Some df)"
      "io_handler df = GetDataFileName (dir_path (db_options db)) f" using assms(1) by (force simp: files_inv_def)
    then show ?thesis using act False by (simp add: file_of_def ok_def)
  qed
qed (use assms in simp)

lemma read_held:
  assumes held: "list_all (holds_file crc dir w) fs" and crc: "crc_extends crc" and "map_of (located crc fs) pst = Some lr"
    and df: "io_handler df = GetDataFileName dir (fid pst)"
  shows "\<exists>n. ReadLogRecord crc df (unat (offset pst)) w = (Ok (lr, n), w)"
proof -
  obtain f rs1 rs2 where f: "(f, rs1 @ lr # rs2) \<in> set fs"
    "pst = \<lparr>fid = f, offset = word_of_nat (length (file_bytes crc rs1))\<rparr>"
    using located_split [OF map_of_SomeD [OF assms(3)]] .
  have h: "content w (GetDataFileName dir f) = Some (file_bytes crc (rs1 @ lr # rs2))" "record_fits lr"
    "length (file_bytes crc (rs1 @ lr # rs2)) < 2 ^ 64"
    using held f(1) by (auto simp: holds_file_def list_all_iff)
  then have "unat (offset pst) = length (file_bytes crc rs1)"
    using f(2) unat_of_nat_64 [of "length (file_bytes crc rs1)"] by simp
  then show ?thesis
    using ReadLogRecord_written [of w df "file_bytes crc rs1" crc lr "file_bytes crc rs2"] h df f(2) crc by simp
qed

text \<open>A lookup needs the index, the files it can reach and their contents.\<close>

lemma Get_held:
  assumes held: "list_all (holds_file crc (dir_path (db_options db)) w) fs" and crc: "crc_extends crc" and key: "key \<noteq> []"
    and idx: "index_holds (db_index db) m" and live: "live crc fs m"
    and files: "\<forall>f \<in> fst ` set fs. \<exists>df. file_of f (db, w) = (Ok (Some df), db, w) \<and> io_handler df = GetDataFileName (dir_path (db_options db)) f"
  shows "DB_Get crc key True (db, w) = (case kv crc fs m (cstr key) of None \<Rightarrow> Err kNotFound | Some v \<Rightarrow> Ok v, db, w)"
proof (cases "m (cstr key)")
  case None
  then show ?thesis using key index_Get_holds [OF idx, of key w] by (simp add: DB_Get_def CHECK_OK_def kv_def err_def)
next
  case (Some pst)
  then obtain lr where lr: "map_of (located crc fs) pst = Some lr" "lr_type lr \<noteq> DeletedLogRecord"
    using live by (auto simp: live_def ran_def)
  have "fid pst \<in> fst ` set fs" using fid_located [OF map_of_SomeD [OF lr(1)]] by simp
  then obtain df where df: "file_of (fid pst) (db, w) = (Ok (Some df), db, w)"
    "io_handler df = GetDataFileName (dir_path (db_options db)) (fid pst)" using files by blast
  obtain n where "ReadLogRecord crc df (unat (offset pst)) w = (Ok (lr, n), w)"
    using read_held [OF held crc lr(1) df(2)] by blast
  then show ?thesis
    using key Some lr df index_Get_holds [OF idx, of key w]
    by (simp add: DB_Get_def CHECK_OK_def kv_def GetValueByLogRecordPst_def on_world_def zoom_def ok_def)
qed

lemma Get_inv:
  assumes inv: "db_inv crc (db, w) fs m" and crc: "crc_extends crc" and key: "key \<noteq> []"
  shows "DB_Get crc key True (db, w) =
    (case kv crc fs m (cstr key) of None \<Rightarrow> (Err kNotFound, db, w) | Some v \<Rightarrow> (Ok v, db, w))"
proof -
  have "list_all (holds_file crc (dir_path (db_options db)) w) fs" "files_inv crc db fs" "index_holds (db_index db) m" "live crc fs m"
    using inv by (auto simp: db_inv_def log_inv_def)
  then show ?thesis using Get_held [of crc db w fs key m] crc key file_of_log [of crc db fs] by (auto split: option.split)
qed

section \<open>\<open>Put\<close> and \<open>Delete\<close>\<close>

lemma located_fresh:
  assumes "log_inv crc dir w fs'" and "located crc fs' = located crc fs @ [(pst, lr)]"
  shows "map_of (located crc fs') = (map_of (located crc fs))(pst \<mapsto> lr)"
    and "map_of (located crc fs) pst = None"
proof -
  have d: "distinct (map fst (located crc fs @ [(pst, lr)]))"
    using log_inv_distinct [OF assms(1)] assms(2) by simp
  then show none: "map_of (located crc fs) pst = None" by (auto simp: map_of_eq_None_iff)
  show "map_of (located crc fs') = (map_of (located crc fs))(pst \<mapsto> lr)"
    unfolding assms(2) using none by (auto simp: fun_eq_iff map_add_def split: option.split)
qed

lemma live_append:
  assumes "log_inv crc dir w fs'" and "located crc fs' = located crc fs @ [(pst, lr)]" and "live crc fs m"
  shows "live crc fs' m" and "kv crc fs' m = kv crc fs m"
    and "lr_type lr \<noteq> DeletedLogRecord \<Longrightarrow> live crc fs' (m(k \<mapsto> pst))"
    and "kv crc fs' (m(k \<mapsto> pst)) = (kv crc fs m)(k \<mapsto> lr_value lr)"
proof -
  note f = located_fresh [OF assms(1,2)]
  have ne: "p \<noteq> pst" if "p \<in> ran m" for p using assms(3) f(2) that by (auto simp: live_def)
  show "live crc fs' m" using assms(3) ne by (auto simp: live_def f(1))
  then show "lr_type lr \<noteq> DeletedLogRecord \<Longrightarrow> live crc fs' (m(k \<mapsto> pst))"
    by (auto simp: live_def f(1) ran_def split: if_splits)
  have same: "Option.bind (m j) (\<lambda>p. map_option lr_value (map_of (located crc fs') p))
      = Option.bind (m j) (\<lambda>p. map_option lr_value (map_of (located crc fs) p))" for j
    using ne [of "the (m j)"] by (cases "m j") (auto simp: f(1) ran_def)
  then show "kv crc fs' m = kv crc fs m" by (simp add: kv_def fun_eq_iff)
  show "kv crc fs' (m(k \<mapsto> pst)) = (kv crc fs m)(k \<mapsto> lr_value lr)"
    using same by (simp add: kv_def fun_eq_iff f(1))
qed

text \<open>Room for one more record: its size, the size limit of a file and the file numbers.\<close>

definition room_for :: "DB \<Rightarrow> bytes \<Rightarrow> bytes \<Rightarrow> bool" where
  "room_for db key value \<longleftrightarrow>
     16 + length key + length value < 2 ^ 31
     \<and> 16 + length key + length value \<le> unat (data_file_size (db_options db))
     \<and> unat (db_next_file_id db) + 1 < 2 ^ 32"

lemma room_for_record:
  assumes "length k \<le> Suc (length key)" and "k \<noteq> []" and "length v \<le> length value" and "room_for db key value"
  shows "record_fits \<lparr>lr_key = k, lr_value = v, lr_type = ty\<rparr>"
    and "length (EncodeLogRecord crc \<lparr>lr_key = k, lr_value = v, lr_type = ty\<rparr>) \<le> unat (data_file_size (db_options db))"
proof -
  show "record_fits \<lparr>lr_key = k, lr_value = v, lr_type = ty\<rparr>"
    using assms by (simp add: record_fits_def room_for_def layout_consts)
  show "length (EncodeLogRecord crc \<lparr>lr_key = k, lr_value = v, lr_type = ty\<rparr>) \<le> unat (data_file_size (db_options db))"
    using assms header_len_bounds(2) [of "\<lparr>lr_key = k, lr_value = v, lr_type = ty\<rparr>"]
    by (simp add: length_EncodeLogRecord room_for_def K_MAX_LOG_RECORD_HEADER_SIZE_def)
qed

lemma EncodeVarint64_0: "EncodeVarint64 0 = [0]"
  by (subst EncodeVarint64.simps) simp

lemma key_single:
  "EncodeLogRecordWithTxnID key K_NON_TXN_ID = Return (EncodeVarint64 K_NON_TXN_ID @ cstr key)"
  "EncodeVarint64 K_NON_TXN_ID @ cstr key \<noteq> []"
  "length (EncodeVarint64 K_NON_TXN_ID @ cstr key) \<le> Suc (length key)"
  using EncodeLogRecordWithTxnID_Return [of K_NON_TXN_ID key] length_cstr_le [of key]
  by (simp_all add: K_NON_TXN_ID_def EncodeVarint64_0)

text \<open>Appending a record outside of transactions and updating the index as a replay would.\<close>

lemma db_inv_single:
  assumes inv: "db_inv crc (db, w) fs m"
    and app: "appended crc \<lparr>lr_key = EncodeVarint64 K_NON_TXN_ID @ cstr key, lr_value = v, lr_type = ty\<rparr> (db, w) fs pst (db', w') fs'"
    and upd: "upd_spec (cstr key, ty, pst) m = Some m'"
    and idx: "index_holds i m'" and live: "live crc fs' m'"
  shows "db_inv crc (db'\<lparr>db_index := i\<rparr>, w') fs' m'"
proof -
  obtain T c where T: "replay (located crc fs) replay_init = Some (m, T, c)" "c \<le> db_txn_id db"
    "\<forall>t. db_txn_id db < t \<longrightarrow> unat t < 2 ^ 32 \<longrightarrow> T (ucast t) = []"
    using inv by (auto simp: db_inv_def)
  have "replay (located crc fs') replay_init = Some (m', T, c)"
    using app T(1) upd by (simp add: appended_def replay_append replay_step_single)
  then show ?thesis
    using inv app T(2,3) idx live
    by (auto simp: db_inv_def appended_def same_db_def files_inv_def)
qed

lemma Put_inv:
  assumes inv: "db_inv crc (db, w) fs m" and ok: "healthy w" and key: "key \<noteq> []" and room: "room_for db key value"
  shows "\<exists>s' fs' m'. DB_Put crc key value (db, w) = (Ok (), s') \<and> db_inv crc s' fs' m' \<and> grown 1 (db, w) s'
    \<and> db_txn_id (fst s') = db_txn_id db
    \<and> kv crc fs' m' = (kv crc fs m)(cstr key \<mapsto> cstr value)"
proof -
  let ?lr = "\<lparr>lr_key = EncodeVarint64 K_NON_TXN_ID @ cstr key, lr_value = cstr value, lr_type = NormalLogRecord\<rparr>"
  note fits = room_for_record [OF key_single(3,2) length_cstr_le room, where ty = NormalLogRecord]
  obtain pst db1 w1 fs' where app: "AppendLogRecord crc ?lr True (db, w) = (Ok pst, db1, w1)"
    "appended crc ?lr (db, w) fs pst (db1, w1) fs'"
    using AppendLogRecord_ok [of crc db w fs ?lr] inv ok fits room by (force simp: db_inv_def room_for_def)
  have holds: "index_holds (db_index db1) m" using inv app(2) by (simp add: db_inv_def appended_def same_db_def)
  obtain i where i: "index_Put key (Some pst) (db1, w1) = (Ok True, db1\<lparr>db_index := i\<rparr>, w1)"
    "index_holds i (m(cstr key \<mapsto> pst))" using index_Put_holds [OF holds] by blast
  have log: "log_inv crc (dir_path (db_options db)) w1 fs'" "located crc fs' = located crc fs @ [(pst, ?lr)]"
    using app(2) by (auto simp: appended_def)
  have "live crc fs m" using inv by (simp add: db_inv_def)
  note live = live_append [OF log this]
  have nd: "NormalLogRecord \<noteq> DeletedLogRecord" by (simp add: NormalLogRecord_def DeletedLogRecord_def)
  have "db_inv crc (db1\<lparr>db_index := i\<rparr>, w1) fs' (m(cstr key \<mapsto> pst))"
    by (rule db_inv_single [OF inv app(2) _ i(2)]) (use live(3) nd in \<open>simp_all add: upd_spec_def\<close>)
  moreover have "DB_Put crc key value (db, w) = (Ok (), db1\<lparr>db_index := i\<rparr>, w1)"
    using key app(1) i(1) by (simp add: DB_Put_def key_single(1) CHECK_OK_def ok_def)
  moreover have "grown 1 (db, w) (db1\<lparr>db_index := i\<rparr>, w1)" using appended_grown [OF app(2)] by (rule grown_index)
  moreover have "db_txn_id db1 = db_txn_id db" using app(2) by (simp add: appended_def same_db_def)
  ultimately show ?thesis using live(4) [of "cstr key"] by (intro exI conjI) (auto)
qed

lemma Delete_inv:
  assumes inv: "db_inv crc (db, w) fs m" and ok: "healthy w" and key: "key \<noteq> []" and room: "room_for db key []"
  shows "\<exists>s' fs' m'. DB_Delete crc key (db, w) = (Ok (), s') \<and> db_inv crc s' fs' m' \<and> grown 1 (db, w) s'
    \<and> db_txn_id (fst s') = db_txn_id db
    \<and> kv crc fs' m' = (kv crc fs m)(cstr key := None)"
proof (cases "m (cstr key)")
  case None
  have "index_holds (db_index db) m" using inv by (simp add: db_inv_def)
  from index_Get_holds [OF this, of key w] have "DB_Delete crc key (db, w) = (Ok (), db, w)"
    using None key by (simp add: DB_Delete_def CHECK_OK_def ok_def)
  moreover have "(kv crc fs m)(cstr key := None) = kv crc fs m" using None by (simp add: kv_def fun_eq_iff)
  ultimately show ?thesis using inv by (intro exI conjI) (auto)
next
  case (Some old)
  let ?lr = "\<lparr>lr_key = EncodeVarint64 K_NON_TXN_ID @ cstr key, lr_value = [], lr_type = DeletedLogRecord\<rparr>"
  note fits = room_for_record [OF key_single(3,2) _ room, where v = "[]" and ty = DeletedLogRecord]
  obtain pst db1 w1 fs' where app: "AppendLogRecord crc ?lr True (db, w) = (Ok pst, db1, w1)"
    "appended crc ?lr (db, w) fs pst (db1, w1) fs'"
    using AppendLogRecord_ok [of crc db w fs ?lr] inv ok fits room by (force simp: db_inv_def room_for_def)
  have holds: "index_holds (db_index db) m" "index_holds (db_index db1) m"
    using inv app(2) by (simp_all add: db_inv_def appended_def same_db_def)
  obtain i where i: "index_Put key (Some pst) (db1, w1) = (Ok True, db1\<lparr>db_index := i\<rparr>, w1)"
    "index_holds i (m(cstr key \<mapsto> pst))" using index_Put_holds [OF holds(2)] by blast
  then obtain i' where i': "index_Delete key (db1\<lparr>db_index := i\<rparr>, w1) = (Ok True, db1\<lparr>db_index := i'\<rparr>, w1)"
    "index_holds i' (m(cstr key := None))"
    using index_Delete_holds [of "db1\<lparr>db_index := i\<rparr>" "m(cstr key \<mapsto> pst)" key w1] by auto
  have log: "log_inv crc (dir_path (db_options db)) w1 fs'" "located crc fs' = located crc fs @ [(pst, ?lr)]"
    using app(2) by (auto simp: appended_def)
  have "live crc fs m" using inv by (simp add: db_inv_def)
  note live = live_append [OF log this]
  have live': "live crc fs' (m(cstr key := None))" using live(1) by (auto simp: live_def ran_def split: if_splits)
  have "db_inv crc (db1\<lparr>db_index := i'\<rparr>, w1) fs' (m(cstr key := None))"
    by (rule db_inv_single [OF inv app(2) _ i'(2) live']) (simp add: upd_spec_def Some)
  moreover have "DB_Delete crc key (db, w) = (Ok (), db1\<lparr>db_index := i'\<rparr>, w1)"
    using key Some index_Get_holds [OF holds(1), of key w] app(1) i(1) i'(1)
    by (simp add: DB_Delete_def key_single(1) CHECK_OK_def ok_def)
  moreover have "grown 1 (db, w) (db1\<lparr>db_index := i'\<rparr>, w1)" using appended_grown [OF app(2)] by (rule grown_index)
  moreover have "db_txn_id db1 = db_txn_id db" using app(2) by (simp add: appended_def same_db_def)
  moreover have "kv crc fs' (m(cstr key := None)) = (kv crc fs m)(cstr key := None)"
    using live(2) by (auto simp: kv_def fun_eq_iff)
  ultimately show ?thesis by (intro exI conjI) auto
qed

end
