(* ===== verification/Recovery.thy ===== *)
theory Recovery
  imports DB_Refine
begin

text \<open>
  The part of \<^verbatim>\<open>db.cpp\<close> that rebuilds a database from its directory:
  \<open>LoadDataFiles\<close>, \<open>LoadMergenceFiles\<close>, \<open>GetNonMergedFileID\<close>,
  \<open>LoadIndexFromHintFile\<close> and \<open>LoadIndexFromDataFiles\<close>.

  The loops that read a file record by record stop at its end. Every turn moves the
  offset forward by the size of a record, so one turn more than the file has bytes is
  always enough; that many turns is the bound of \<open>for_records\<close>.
\<close>

section \<open>Reading a file record by record\<close>

primrec for_records ::
    "nat \<Rightarrow> crc_fun \<Rightarrow> DataFile \<Rightarrow> (LogRecord \<Rightarrow> nat \<Rightarrow> 'a \<Rightarrow> (st, 'a) cmd) \<Rightarrow> nat \<Rightarrow> 'a \<Rightarrow> (st, nat \<times> 'a) cmd" where
  "for_records 0 crc df body ofs a = crash Stuck"
| "for_records (Suc n) crc df body ofs a =
     CHECK_OK (on_world (ReadLogRecord crc df ofs)) (\<lambda>(log_record, sz).
       if sz = 0 then ok (ofs, a)
       else CHECK_OK (body log_record ofs a) (\<lambda>a'. for_records n crc df body (ofs + sz) a'))"

text \<open>The loop from offset 0: the offset it ends at and what the body accumulated.\<close>

definition each_record ::
    "crc_fun \<Rightarrow> DataFile \<Rightarrow> (LogRecord \<Rightarrow> nat \<Rightarrow> 'a \<Rightarrow> (st, 'a) cmd) \<Rightarrow> 'a \<Rightarrow> (st, nat \<times> 'a) cmd" where
  "each_record crc df body a = (\<lambda>(db, w).
     for_records (Suc (FileIO_Size (io_handler df) w)) crc df body 0 a (db, w))"

text \<open>
  A block with a \<open>defer\<close>: the deferred call runs when the block is left, by a return or by an
  exception.
\<close>

definition with_defer :: "('s, unit) cmd \<Rightarrow> ('s, 'a) cmd \<Rightarrow> ('s, 'a) cmd" where
  "with_defer d m s =
     (case m s of
        (r, s') \<Rightarrow>
          (if (case r of Crash f \<Rightarrow> f = Uncaught | _ \<Rightarrow> True)
           then (case d s' of (Crash g, s'') \<Rightarrow> (Crash g, s'') | (_, s'') \<Rightarrow> (r, s''))
           else (r, s')))"

section \<open>\<open>LoadDataFiles\<close>\<close>

text \<open>
  The file number is read by \<open>std::stoi\<close> from \<open>split_names[0].data()\<close>, which is the name
  from its start on.
\<close>

primrec scan_names :: "string list \<Rightarrow> u32 list \<Rightarrow> (st, u32 list) cmd" where
  "scan_names [] ids = ok ids"
| "scan_names (d_name # names) ids =
     (if EndsWith d_name K_DATA_FILE_SUFFIX
      then CHECK_OK (run_outcome (Split d_name ''.'' True)) (\<lambda>split_names.
             if length split_names \<noteq> 2 then err kCorruption
             else CHECK_OK (run_outcome (stoi d_name)) (\<lambda>file_id.
                    scan_names names (ids @ [word_of_int file_id])))
      else scan_names names ids)"

fun open_files :: "u32 list \<Rightarrow> (st, unit) cmd" where
  "open_files [] = ok ()"
| "open_files [n] = (\<lambda>(db, w).
     CHECK_OK (on_world (OpenDataFile (dir_path (db_options db)) n)) (\<lambda>data_file.
       on_db (\<lambda>db. db\<lparr>db_active := Some data_file\<rparr>)) (db, w))"
| "open_files (n # ns) = (\<lambda>(db, w).
     CHECK_OK (on_world (OpenDataFile (dir_path (db_options db)) n)) (\<lambda>data_file.
     CHECK_OK (on_db (\<lambda>db. db\<lparr>db_older := AList.update n (Some data_file) (db_older db)\<rparr>)) (\<lambda>_.
       open_files ns)) (db, w))"

definition LoadDataFiles :: "(st, unit) cmd" where
  "LoadDataFiles = (\<lambda>(db, w).
     case readdir (dir_path (db_options db)) w of None \<Rightarrow> err kInvalidArgument (db, w)
     | Some names \<Rightarrow>
        CHECK_OK (scan_names names []) (\<lambda>ids.
        CHECK_OK (on_db (\<lambda>db. db\<lparr>db_file_ids := Some (sort ids)\<rparr>)) (\<lambda>_.
        CHECK_OK (open_files (sort ids)) (\<lambda>_.
          on_db (\<lambda>db. db\<lparr>db_next_file_id :=
            (case db_active db of None \<Rightarrow> 0 | Some df \<Rightarrow> file_id df + 1)\<rparr>)))) (db, w))"

section \<open>The merged file and the mergence directory\<close>

definition GetNonMergedFileID :: "crc_fun \<Rightarrow> string \<Rightarrow> (st, u32) cmd" where
  "GetNonMergedFileID crc directory =
     CHECK_OK (on_world (OpenMergedFile directory)) (\<lambda>merged_file.
     CHECK_OK (on_world (ReadLogRecord crc merged_file 0)) (\<lambda>(log_record, sz).
     CHECK_OK (run_outcome (stoi (unstr (lr_value log_record)))) (\<lambda>n. ok (word_of_int n))))"

primrec remove_merged :: "string \<Rightarrow> nat list \<Rightarrow> world \<Rightarrow> world outcome" where
  "remove_merged dir [] w = Return w"
| "remove_merged dir (n # ns) w =
     bind_outcome (RemoveFile (GetDataFileName dir (word_of_nat n)) w) (remove_merged dir ns)"

primrec move_files :: "string \<Rightarrow> string \<Rightarrow> string list \<Rightarrow> (world, unit) cmd" where
  "move_files merge_dir dir [] = ok ()"
| "move_files merge_dir dir (file_name # names) = (\<lambda>w.
     let (r, w') = rename (Format ''{}/{}'' [merge_dir, file_name]) (Format ''{}/{}'' [dir, file_name]) w
     in CHECK_TRUE (r = 0) None (move_files merge_dir dir names) w')"

text \<open>A library call on the world that may end the process.\<close>

definition world_call :: "(world \<Rightarrow> world outcome) \<Rightarrow> (world, unit) cmd" where
  "world_call f w = (case f w of Return w' \<Rightarrow> ok () w' | Fault e \<Rightarrow> crash e w)"

definition LoadMergenceFiles :: "crc_fun \<Rightarrow> (st, unit) cmd" where
  "LoadMergenceFiles crc = (\<lambda>(db, w).
     let dir = dir_path (db_options db); merge_dir = GetMergenceDirectory dir
     in case readdir merge_dir w of None \<Rightarrow> ok () (db, w)
        | Some merged_file_names \<Rightarrow>
            with_defer (on_world (world_call (RemoveDir merge_dir)))
              (if K_MERGED_FILE_NAME \<notin> set merged_file_names then ok ()
               else CHECK_OK (GetNonMergedFileID crc merge_dir) (\<lambda>non_merged_file_id.
                    CHECK_OK (on_world (world_call (remove_merged dir [0..<unat non_merged_file_id]))) (\<lambda>_.
                      on_world (move_files merge_dir dir merged_file_names)))) (db, w))"

section \<open>\<open>LoadIndexFromHintFile\<close>\<close>

definition LoadIndexFromHintFile :: "crc_fun \<Rightarrow> (st, unit) cmd" where
  "LoadIndexFromHintFile crc = (\<lambda>(db, w).
     let dir = dir_path (db_options db)
     in if \<not> IsFileExist (GetHintFileName dir) w then ok () (db, w)
        else CHECK_OK (on_world (OpenHintFile dir)) (\<lambda>hint_file.
             CHECK_OK (each_record crc hint_file (\<lambda>log_record _ _.
               CHECK_OK (run_outcome (DecodeLogRecordPosition (lr_value log_record))) (\<lambda>pst.
               CHECK_OK (index_Put (lr_key log_record) (Some pst)) (\<lambda>b.
                 CHECK_TRUE b (Some ''fail to put index'') (ok ())))) ()) (\<lambda>_. ok ())) (db, w))"

section \<open>\<open>LoadIndexFromDataFiles\<close>\<close>

text \<open>The lambda \<open>update_index\<close>; its checks carry no message.\<close>

definition update_index :: "bytes \<Rightarrow> LogRecordType \<Rightarrow> pst_ptr \<Rightarrow> (st, unit) cmd" where
  "update_index key type pst =
     (if type = DeletedLogRecord then CHECK_OK (index_Delete key) (\<lambda>b. CHECK_TRUE b None (ok ()))
      else CHECK_OK (index_Put key pst) (\<lambda>b. CHECK_TRUE b None (ok ())))"

text \<open>The records of a finished transaction, in the order they were written.\<close>

primrec apply_txn :: "TxnRecord list \<Rightarrow> (st, unit) cmd" where
  "apply_txn [] = ok ()"
| "apply_txn (r # rs) =
     CHECK_OK (update_index (lr_key (txn_log_record r)) (lr_type (txn_log_record r)) (Some (txn_pst r))) (\<lambda>_.
       apply_txn rs)"

text \<open>\<open>txn_records\<close> is keyed by \<open>uint32_t\<close>; the subscript creates an empty entry.\<close>

type_synonym txn_map = "(u32, TxnRecord list) smap"

definition txn_lookup :: "txn_map \<Rightarrow> u32 \<Rightarrow> TxnRecord list" where
  "txn_lookup txns t = (case map_of txns t of None \<Rightarrow> [] | Some rs \<Rightarrow> rs)"

text \<open>The body of the inner loop, for the file \<open>n\<close>.\<close>

definition load_record :: "u32 \<Rightarrow> LogRecord \<Rightarrow> nat \<Rightarrow> txn_map \<times> u64 \<Rightarrow> (st, txn_map \<times> u64) cmd" where
  "load_record n log_record ofs = (\<lambda>(txn_records, current_txn_id).
     CHECK_OK (run_outcome (DecodeLogRecordWithTxnID (lr_key log_record))) (\<lambda>(real_key, txn_id).
     CHECK_OK
       (let pst = \<lparr>fid = n, offset = word_of_nat ofs\<rparr>; t = ucast txn_id
        in if txn_id = K_NON_TXN_ID
           then CHECK_OK (update_index real_key (lr_type log_record)
                  (if lr_type log_record = DeletedLogRecord then None else Some pst)) (\<lambda>_. ok txn_records)
           else if lr_type log_record = TxnFinishedLogRecord
           then CHECK_OK (apply_txn (txn_lookup txn_records t)) (\<lambda>_. ok (smap_erase t txn_records))
           else ok (smap_put t (txn_lookup txn_records t @
                  [\<lparr>txn_log_record = log_record\<lparr>lr_key := real_key\<rparr>, txn_pst = pst\<rparr>]) txn_records))
       (\<lambda>txn_records'. ok (txn_records', if txn_id > current_txn_id then txn_id else current_txn_id))))"

text \<open>The outer loop over the file numbers; \<open>skip\<close> says which files a merge has covered.\<close>

primrec load_files :: "crc_fun \<Rightarrow> (u32 \<Rightarrow> bool) \<Rightarrow> u32 list \<Rightarrow> txn_map \<times> u64 \<Rightarrow> (st, txn_map \<times> u64) cmd" where
  "load_files crc skip [] acc = ok acc"
| "load_files crc skip (n # ns) acc =
     (if skip n then load_files crc skip ns acc
      else CHECK_OK (file_of n) (\<lambda>data_file.
             case data_file of None \<Rightarrow> crash NullDeref
             | Some df \<Rightarrow>
                CHECK_OK (each_record crc df (load_record n) acc) (\<lambda>(ofs, acc').
                CHECK_OK (if ns = [] then on_db (\<lambda>db. db\<lparr>db_active := map_option (\<lambda>df. df\<lparr>write_off := ofs\<rparr>) (db_active db)\<rparr>)
                          else ok ()) (\<lambda>_.
                  load_files crc skip ns acc'))))"

definition LoadIndexFromDataFiles :: "crc_fun \<Rightarrow> (st, unit) cmd" where
  "LoadIndexFromDataFiles crc = (\<lambda>(db, w).
     case db_file_ids db of None \<Rightarrow> crash NullDeref (db, w)
     | Some ids \<Rightarrow>
        (if ids = [] then ok () (db, w)
         else let merged_file_path = Format ''{}/{}'' [dir_path (db_options db), K_MERGED_FILE_NAME]
              in CHECK_OK (if IsFileExist merged_file_path w
                           then CHECK_OK (GetNonMergedFileID crc (dir_path (db_options db))) (\<lambda>n. ok (Some n))
                           else ok None) (\<lambda>non_merged.
                 CHECK_OK (load_files crc (\<lambda>n. case non_merged of None \<Rightarrow> False | Some k \<Rightarrow> n < k) ids
                            ([], K_NON_TXN_ID)) (\<lambda>(_, current_txn_id).
                   on_db (\<lambda>db. db\<lparr>db_txn_id := current_txn_id, db_file_ids := Some []\<rparr>))) (db, w)))"

end
