(* ===== verification/Recovery_Correct.thy ===== *)
theory Recovery_Correct
  imports Recovery "HOL-Library.Multiset"
begin

text \<open>
  Opening a directory gives the index that the log stands for: \<open>LoadDataFiles\<close> finds
  the files of the log in their order, and the loops of \<open>LoadIndexFromDataFiles\<close>
  compute the replay of the log.
\<close>

section \<open>The index updates\<close>

lemma update_index_spec:
  assumes "index_holds (db_index db) m" and "upd_spec (cstr k, ty, pst) m = Some m'"
    and "ty \<noteq> DeletedLogRecord \<Longrightarrow> p = Some pst"
  shows "\<exists>i. update_index k ty p (db, w) = (Ok (), db\<lparr>db_index := i\<rparr>, w) \<and> index_holds i m'"
proof (cases "ty = DeletedLogRecord")
  case True
  then have "m (cstr k) \<noteq> None" "m' = m(cstr k := None)" using assms(2) by (auto simp: upd_spec_def split: if_splits)
  then show ?thesis
    using True index_Delete_holds [OF assms(1), of k w] by (auto simp: update_index_def CHECK_OK_def ok_def)
next
  case False
  then have "m' = m(cstr k \<mapsto> pst)" using assms(2) by (simp add: upd_spec_def)
  then show ?thesis
    using False assms(3) index_Put_holds [OF assms(1), of k pst w] by (auto simp: update_index_def CHECK_OK_def ok_def)
qed

definition txn_entry :: "TxnRecord \<Rightarrow> bytes \<times> LogRecordType \<times> LogRecordPst" where
  "txn_entry r = (cstr (lr_key (txn_log_record r)), lr_type (txn_log_record r), txn_pst r)"

lemma apply_txn_spec:
  assumes "index_holds (db_index db) m" and "upds_spec (map txn_entry rs) m = Some m'"
  shows "\<exists>i. apply_txn rs (db, w) = (Ok (), db\<lparr>db_index := i\<rparr>, w) \<and> index_holds i m'"
  using assms
proof (induction rs arbitrary: db m)
  case Nil
  then have "apply_txn [] (db, w) = (Ok (), db\<lparr>db_index := db_index db\<rparr>, w)" by (simp add: ok_def)
  moreover have "index_holds (db_index db) m'" using Nil by simp
  ultimately show ?case by blast
next
  case (Cons r rs)
  then obtain m1 where m1: "upd_spec (txn_entry r) m = Some m1" "upds_spec (map txn_entry rs) m1 = Some m'"
    by (auto split: bind_splits)
  obtain i where i: "update_index (lr_key (txn_log_record r)) (lr_type (txn_log_record r)) (Some (txn_pst r)) (db, w)
      = (Ok (), db\<lparr>db_index := i\<rparr>, w)" "index_holds i m1"
    using update_index_spec [OF Cons.prems(1) m1(1) [unfolded txn_entry_def] refl] by blast
  have "index_holds (db_index (db\<lparr>db_index := i\<rparr>)) m1" using i(2) by simp
  from Cons.IH [OF this m1(2)] i(1) show ?case by (auto simp: CHECK_OK_def)
qed

text \<open>The map \<open>txn_records\<close> holds the records of the unfinished transactions.\<close>

definition txns_hold :: "txn_map \<Rightarrow> (u32 \<Rightarrow> (bytes \<times> LogRecordType \<times> LogRecordPst) list) \<Rightarrow> bool" where
  "txns_hold txns T \<longleftrightarrow> sorted_keys txns \<and> (\<forall>t. map txn_entry (txn_lookup txns t) = T t)"

lemma txns_hold_erase: "txns_hold txns T \<Longrightarrow> txns_hold (smap_erase t txns) (T(t := []))"
  by (auto simp: txns_hold_def txn_lookup_def)

lemma txns_hold_put:
  assumes "txns_hold txns T"
  shows "txns_hold (smap_put t (txn_lookup txns t @ [r]) txns) (T(t := T t @ [txn_entry r]))"
proof -
  have "map txn_entry (txn_lookup (smap_put t (txn_lookup txns t @ [r]) txns) u) = (T(t := T t @ [txn_entry r])) u" for u
    using assms unfolding txns_hold_def txn_lookup_def by (cases "u = t") auto
  then show ?thesis using assms by (simp add: txns_hold_def)
qed

lemma load_record_spec:
  assumes "index_holds (db_index db) m" and "txns_hold txns T"
    and "replay_step (\<lparr>fid = n, offset = word_of_nat ofs\<rparr>, lr) (m, T, c) = Some (m', T', c')"
  shows "\<exists>i txns'. load_record n lr ofs (txns, c) (db, w) = (Ok (txns', c'), db\<lparr>db_index := i\<rparr>, w)
    \<and> index_holds i m' \<and> txns_hold txns' T'"
proof -
  let ?pst = "\<lparr>fid = n, offset = word_of_nat ofs\<rparr> :: LogRecordPst"
  obtain k t where d: "DecodeLogRecordWithTxnID (lr_key lr) = Return (k, t)"
    using assms(3) by (auto simp: replay_step_def split: outcome.splits)
  have mx: "(if t > c then t else c) = max c t" by (auto simp: max_def)
  consider (single) "t = K_NON_TXN_ID" | (finish) "t \<noteq> K_NON_TXN_ID" "lr_type lr = TxnFinishedLogRecord"
    | (pending) "t \<noteq> K_NON_TXN_ID" "lr_type lr \<noteq> TxnFinishedLogRecord" by blast
  then show ?thesis
  proof cases
    case single
    then have r: "upd_spec (cstr k, lr_type lr, ?pst) m = Some m'" "T' = T" "c' = c"
      using assms(3) d by (auto simp: replay_step_def)
    have "max c t = c" using single by (simp add: K_NON_TXN_ID_def)
    then show ?thesis
      using update_index_spec [OF assms(1) r(1), of "if lr_type lr = DeletedLogRecord then None else Some ?pst" w] assms(2) d single r mx
      by (auto simp: load_record_def CHECK_OK_def ok_def)
  next
    case finish
    then have r: "upds_spec (map txn_entry (txn_lookup txns (ucast t))) m = Some m'" "T' = T(ucast t := [])" "c' = max c t"
      using assms(2,3) d by (auto simp: replay_step_def txns_hold_def)
    obtain i where i: "apply_txn (txn_lookup txns (ucast t)) (db, w) = (Ok (), db\<lparr>db_index := i\<rparr>, w)" "index_holds i m'"
      using apply_txn_spec [OF assms(1) r(1)] by blast
    then have "load_record n lr ofs (txns, c) (db, w) = (Ok (smap_erase (ucast t) txns, c'), db\<lparr>db_index := i\<rparr>, w)"
      using d finish r(3) mx by (simp add: load_record_def CHECK_OK_def ok_def Let_def)
    then show ?thesis using txns_hold_erase [OF assms(2), of "ucast t"] i(2) r(2) by blast
  next
    case pending
    then have r: "m' = m" "T' = T(ucast t := T (ucast t) @ [(cstr k, lr_type lr, ?pst)])" "c' = max c t"
      using assms(3) d by (auto simp: replay_step_def)
    let ?r = "\<lparr>txn_log_record = lr\<lparr>lr_key := k\<rparr>, txn_pst = ?pst\<rparr>"
    have "load_record n lr ofs (txns, c) (db, w) =
        (Ok (smap_put (ucast t) (txn_lookup txns (ucast t) @ [?r]) txns, c'), db\<lparr>db_index := db_index db\<rparr>, w)"
      using d pending r mx by (simp add: load_record_def ok_def Let_def)
    moreover have "txns_hold (smap_put (ucast t) (txn_lookup txns (ucast t) @ [?r]) txns) T'"
      using txns_hold_put [OF assms(2), of "ucast t" ?r] r(2) by (simp add: txn_entry_def)
    ultimately show ?thesis using assms(1) r(1) by blast
  qed
qed

section \<open>The loop over the records of a file\<close>

lemma length_file_bytes: "list_all record_fits rs \<Longrightarrow> length rs \<le> length (file_bytes crc rs)"
proof (induction rs)
  case (Cons r rs)
  then have "0 < length (EncodeLogRecord crc r)" using record_fits_nonempty by auto
  then show ?case using Cons by (simp del: length_greater_0_conv)
qed simp

text \<open>
  The rule of the loop: an invariant \<open>I\<close> of the records read so far, which keeps the file, holds
  of all its records at the end.
\<close>

lemma for_records_inv:
  assumes held: "\<And>rs1 a s. I rs1 a s \<Longrightarrow> content (snd s) (io_handler df) = Some (file_bytes crc rs)"
    and fits: "rs \<noteq> []" "list_all record_fits rs" and crc: "crc_extends crc"
    and step: "\<And>rs1 r rs2 a s. rs = rs1 @ r # rs2 \<Longrightarrow> I rs1 a s
      \<Longrightarrow> \<exists>a' s'. body r (length (file_bytes crc rs1)) a s = (Ok a', s') \<and> I (rs1 @ [r]) a' s'"
  shows "rs = rs1 @ rs2 \<Longrightarrow> length rs2 < fuel \<Longrightarrow> I rs1 a s
    \<Longrightarrow> \<exists>a' s'. for_records fuel crc df body (length (file_bytes crc rs1)) a s = (Ok (length (file_bytes crc rs), a'), s') \<and> I rs a' s'"
proof (induction rs2 arbitrary: rs1 fuel a s)
  case Nil
  obtain db w where s: "s = (db, w)" by (cases s)
  obtain k where k: "fuel = Suc k" using Nil by (cases fuel) auto
  have "content w (io_handler df) = Some (file_bytes crc rs)" using held [OF Nil.prems(3)] s by simp
  moreover have "file_bytes crc rs \<noteq> []" using fits length_file_bytes [of rs crc] by (cases rs) auto
  ultimately have "ReadLogRecord crc df (length (file_bytes crc rs)) w = (Ok (fresh_record, 0), w)"
    by (intro ReadLogRecord_eof) auto
  then show ?case using Nil k s by (auto simp: CHECK_OK_def on_world_def zoom_def ok_def)
next
  case (Cons r rs2)
  let ?ofs = "length (file_bytes crc rs1)"
  obtain db w where s: "s = (db, w)" by (cases s)
  obtain k where k: "fuel = Suc k" using Cons.prems by (cases fuel) auto
  have c: "content w (io_handler df) = Some (file_bytes crc rs1 @ EncodeLogRecord crc r @ file_bytes crc rs2)" "record_fits r"
    using held [OF Cons.prems(3)] fits(2) s Cons.prems(1) by simp_all
  have "ReadLogRecord crc df ?ofs w = (Ok (r, length (EncodeLogRecord crc r)), w)" by (rule ReadLogRecord_written [OF c crc])
  moreover have "length (EncodeLogRecord crc r) \<noteq> 0" using record_fits_nonempty [OF c(2)] by simp
  moreover obtain a' s' where b: "body r ?ofs a s = (Ok a', s')" "I (rs1 @ [r]) a' s'" using step [OF Cons.prems(1,3)] by blast
  ultimately have "for_records fuel crc df body ?ofs a s = for_records k crc df body (length (file_bytes crc (rs1 @ [r]))) a' s'"
    using s k by (simp add: CHECK_OK_def on_world_def zoom_def)
  then show ?case using Cons.IH [of "rs1 @ [r]" k a' s'] Cons.prems(1,2) b(2) k by simp
qed

lemma each_record_inv:
  assumes init: "I [] a s" and held: "\<And>rs1 a s. I rs1 a s \<Longrightarrow> content (snd s) (io_handler df) = Some (file_bytes crc rs)"
    and fits: "rs \<noteq> []" "list_all record_fits rs" and crc: "crc_extends crc"
    and step: "\<And>rs1 r rs2 a s. rs = rs1 @ r # rs2 \<Longrightarrow> I rs1 a s
      \<Longrightarrow> \<exists>a' s'. body r (length (file_bytes crc rs1)) a s = (Ok a', s') \<and> I (rs1 @ [r]) a' s'"
  shows "\<exists>a' s'. each_record crc df body a s = (Ok (length (file_bytes crc rs), a'), s') \<and> I rs a' s'"
proof -
  have "length rs < Suc (FileIO_Size (io_handler df) (snd s))"
    using held [OF init] length_file_bytes [OF fits(2), of crc] by (simp add: FileIO_Size_def)
  from for_records_inv [of I, OF held fits crc step _ this init] show ?thesis
    by (simp add: each_record_def split_beta del: for_records.simps)
qed

lemma each_record_spec:
  assumes "content w (io_handler df) = Some (file_bytes crc rs)" and "rs \<noteq> []"
    and "list_all record_fits rs" and "crc_extends crc"
    and "index_holds (db_index db) m" and "txns_hold txns T"
    and rep: "replay (recs_at crc n 0 rs) (m, T, c) = Some (m', T', c')"
  shows "\<exists>i txns'. each_record crc df (load_record n) (txns, c) (db, w)
      = (Ok (length (file_bytes crc rs), txns', c'), db\<lparr>db_index := i\<rparr>, w)
    \<and> index_holds i m' \<and> txns_hold txns' T'"
proof -
  define I where "I rs1 = (\<lambda>(txns1, c1) s. \<exists>i m1 T1. s = (db\<lparr>db_index := i\<rparr>, w) \<and> index_holds i m1 \<and> txns_hold txns1 T1
    \<and> replay (recs_at crc n 0 rs1) (m, T, c) = Some (m1, T1, c1))" for rs1
  have step: "\<exists>a' s'. load_record n r (length (file_bytes crc rs1)) a s = (Ok a', s') \<and> I (rs1 @ [r]) a' s'"
    if rs: "rs = rs1 @ r # rs2" and i: "I rs1 a s" for rs1 r rs2 a s
  proof -
    obtain txns1 c1 i m1 T1 where a: "a = (txns1, c1)" "s = (db\<lparr>db_index := i\<rparr>, w)" "index_holds i m1" "txns_hold txns1 T1"
      "replay (recs_at crc n 0 rs1) (m, T, c) = Some (m1, T1, c1)" using i by (auto simp: I_def)
    let ?pst = "\<lparr>fid = n, offset = word_of_nat (length (file_bytes crc rs1))\<rparr>"
    obtain m2 T2 c2 where s: "replay_step (?pst, r) (m1, T1, c1) = Some (m2, T2, c2)"
      using rep a(5) by (auto simp: rs recs_at_append replay_append split: bind_splits)
    from load_record_spec [OF _ a(4) s, of "db\<lparr>db_index := i\<rparr>" w] obtain j txns2 where
      "load_record n r (length (file_bytes crc rs1)) a s = (Ok (txns2, c2), db\<lparr>db_index := j\<rparr>, w)" "index_holds j m2" "txns_hold txns2 T2"
      using a(1-3) by auto
    moreover have "replay (recs_at crc n 0 (rs1 @ [r])) (m, T, c) = Some (m2, T2, c2)" using a(5) s by (simp add: recs_at_append replay_append)
    ultimately show ?thesis by (auto simp: I_def)
  qed
  have "I [] (txns, c) (db, w)" using assms(5,6) by (auto simp: I_def intro: exI [of _ "db_index db"])
  from each_record_inv [of I, OF this _ assms(2-4) step] assms(1,7) show ?thesis by (fastforce simp: I_def)
qed

section \<open>The loop over the files\<close>

lemma file_of_index:
  "file_of f (db, w) = (Ok (Some df), db, w) \<Longrightarrow> file_of f (db\<lparr>db_index := i\<rparr>, w) = (Ok (Some df), db\<lparr>db_index := i\<rparr>, w)"
  by (auto simp: file_of_def ok_def crash_def split: option.splits if_splits)

lemma load_files_spec:
  assumes "list_all (holds_file crc dir w) fs" and "[] \<notin> snd ` set fs" and "crc_extends crc"
    and "\<forall>f \<in> fst ` set fs. \<exists>df. file_of f (db, w) = (Ok (Some df), db, w) \<and> io_handler df = GetDataFileName dir f"
    and "index_holds (db_index db) m" and "txns_hold txns T"
    and "replay (located crc fs) (m, T, c) = Some (m', T', c')"
  shows "\<exists>i txns'. load_files crc (\<lambda>_. False) (map fst fs) (txns, c) (db, w) =
      (Ok (txns', c'), (if fs = [] then db else db\<lparr>db_active := map_option (\<lambda>df. df\<lparr>write_off :=
         length (file_bytes crc (snd (last fs)))\<rparr>) (db_active db)\<rparr>)\<lparr>db_index := i\<rparr>, w)
    \<and> index_holds i m' \<and> txns_hold txns' T'"
  using assms
proof (induction fs arbitrary: db m T txns c)
  case Nil
  then have "load_files crc (\<lambda>_. False) [] (txns, c) (db, w) = (Ok (txns, c'), db\<lparr>db_index := db_index db\<rparr>, w)"
    by (simp add: ok_def)
  moreover have "index_holds (db_index db) m'" "txns_hold txns T'" using Nil by auto
  ultimately show ?case by (auto intro!: exI [of _ "db_index db"])
next
  case (Cons e fs)
  obtain f rs where e: "e = (f, rs)" by (cases e)
  obtain df where df: "file_of f (db, w) = (Ok (Some df), db, w)" "io_handler df = GetDataFileName dir f"
    using Cons.prems(4) e by auto
  have h: "content w (io_handler df) = Some (file_bytes crc rs)" "list_all record_fits rs" "rs \<noteq> []"
    using Cons.prems(1,2) e df(2) by (auto simp: holds_file_def)
  obtain m1 T1 c1 where s: "replay (recs_at crc f 0 rs) (m, T, c) = Some (m1, T1, c1)"
    "replay (located crc fs) (m1, T1, c1) = Some (m', T', c')"
    using Cons.prems(7) e by (auto simp: replay_append split: bind_splits)
  obtain i txns1 where i: "each_record crc df (load_record f) (txns, c) (db, w)
      = (Ok (length (file_bytes crc rs), txns1, c1), db\<lparr>db_index := i\<rparr>, w)" "index_holds i m1" "txns_hold txns1 T1"
    using each_record_spec [OF h(1,3,2) Cons.prems(3,5,6) s(1)] by blast
  show ?case
  proof (cases "fs = []")
    case True
    have eq: "db\<lparr>db_index := i, db_active := a\<rparr> = db\<lparr>db_active := a, db_index := i\<rparr>" for a by simp
    have "load_files crc (\<lambda>_. False) (map fst (e # fs)) (txns, c) (db, w) = (Ok (txns1, c1), (db\<lparr>db_active :=
        map_option (\<lambda>df. df\<lparr>write_off := length (file_bytes crc rs)\<rparr>) (db_active db)\<rparr>)\<lparr>db_index := i\<rparr>, w)"
      using True e df(1) i(1) by (simp add: CHECK_OK_def on_db_def update_state_def ok_def eq)
    then show ?thesis using True e s(2) i(2,3) by auto
  next
    case False
    then have "load_files crc (\<lambda>_. False) (map fst (e # fs)) (txns, c) (db, w)
        = load_files crc (\<lambda>_. False) (map fst fs) (txns1, c1) (db\<lparr>db_index := i\<rparr>, w)"
      using e df(1) i(1) by (simp add: CHECK_OK_def ok_def)
    moreover have "\<forall>f \<in> fst ` set fs. \<exists>df. file_of f (db\<lparr>db_index := i\<rparr>, w) = (Ok (Some df), db\<lparr>db_index := i\<rparr>, w)
        \<and> io_handler df = GetDataFileName dir f" using Cons.prems(4) file_of_index by fastforce
    ultimately show ?thesis
      using Cons.IH [of "db\<lparr>db_index := i\<rparr>" m1 txns1 T1 c1] Cons.prems(1-3) i(2,3) s(2) False by simp
  qed
qed

section \<open>Finding the files\<close>

definition name_id :: "string \<Rightarrow> u32" where
  "name_id d = word_of_nat (dec_val (takeWhile isdigit d))"

lemma takeWhile_file_name: "takeWhile isdigit (to_string n @ K_DATA_FILE_SUFFIX) = to_string n"
  using to_string_digits [of n] by (subst takeWhile_append2) (auto simp: list_all_iff file_names isdigit_def)

lemma name_id_file [simp]: "name_id (to_string (unat f) @ K_DATA_FILE_SUFFIX) = f"
  by (simp add: name_id_def takeWhile_file_name)

lemma find_sub_dot: "CHR ''.'' \<notin> set s \<Longrightarrow> find_sub (s @ CHR ''.'' # t) ''.'' = Some (length s)"
  by (induction s) auto

lemma Split_file_name: "Split (to_string n @ K_DATA_FILE_SUFFIX) ''.'' True = Return [to_string n, ''bitdb-data'']"
proof -
  have "CHR ''.'' \<notin> set (to_string n)" using to_string_digits [of n] by (auto simp: list_all_iff isdigit_def)
  from find_sub_dot [OF this, of "''bitdb-data''"] show ?thesis
    by (simp add: Split_def file_names) (simp add: Split_loop.simps)
qed

lemma stoi_file_name: "n < 2 ^ 31 \<Longrightarrow> stoi (to_string n @ K_DATA_FILE_SUFFIX) = Return (int n)"
  using stoi_digits [of "to_string n" K_DATA_FILE_SUFFIX] to_string_digits [of n] by (simp add: file_names isdigit_def)

lemma EndsWith_file_name [simp]: "EndsWith (s @ K_DATA_FILE_SUFFIX) K_DATA_FILE_SUFFIX"
  by (auto simp: EndsWith_iff)

lemma scan_names_spec:
  assumes "\<forall>d \<in> set names. EndsWith d K_DATA_FILE_SUFFIX \<longrightarrow> (\<exists>f :: u32. unat f < 2 ^ 31 \<and> d = to_string (unat f) @ K_DATA_FILE_SUFFIX)"
  shows "scan_names names ids s = (Ok (ids @ map name_id (filter (\<lambda>d. EndsWith d K_DATA_FILE_SUFFIX) names)), s)"
  using assms
proof (induction names arbitrary: ids)
  case (Cons d names)
  show ?case
  proof (cases "EndsWith d K_DATA_FILE_SUFFIX")
    case True
    then obtain f :: u32 where f: "unat f < 2 ^ 31" "d = to_string (unat f) @ K_DATA_FILE_SUFFIX"
      using Cons.prems by auto
    have "scan_names (d # names) ids s = scan_names names (ids @ [f]) s"
      using f by (simp add: Split_file_name stoi_file_name)
    then show ?thesis using Cons f(2) by simp
  qed (use Cons in simp)
qed (simp add: ok_def)

text \<open>What \<open>readdir\<close> lists is a permutation of the names; the numbers of the files fit an \<open>int\<close>.\<close>

definition listing :: "world \<Rightarrow> bool" where
  "listing w \<longleftrightarrow> (\<forall>names. mset (dir_order w names) = mset names)"

definition small_ids :: "log \<Rightarrow> bool" where
  "small_ids fs \<longleftrightarrow> (\<forall>f \<in> fst ` set fs. unat f < 2 ^ 31)"

definition data_paths :: "string \<Rightarrow> world \<Rightarrow> string list" where
  "data_paths dir w = filter (\<lambda>p. dirname p = dir \<and> EndsWith (basename p) K_DATA_FILE_SUFFIX) (map fst (files w))"

lemma data_paths_log:
  assumes "log_inv crc dir w fs"
  shows "set (data_paths dir w) = GetDataFileName dir ` fst ` set fs" and "distinct (data_paths dir w)"
proof -
  have some: "content w p \<noteq> None \<longleftrightarrow> p \<in> fst ` set (files w)" for p by (simp add: content_def map_of_eq_None_iff)
  have tidy: "\<exists>f. p = GetDataFileName dir f"
    if "p \<in> fst ` set (files w)" "dirname p = dir" "EndsWith (basename p) K_DATA_FILE_SUFFIX" for p
    using assms that unfolding log_inv_def tidy_def by blast
  have fs: "f \<in> fst ` set fs \<longleftrightarrow> GetDataFileName dir f \<in> fst ` set (files w)" for f
  proof
    assume "f \<in> fst ` set fs"
    then obtain e where "e \<in> set fs" "f = fst e" by blast
    moreover from this(1) have "holds_file crc dir w e" using assms by (simp add: log_inv_def list_all_iff)
    ultimately have "content w (GetDataFileName dir f) \<noteq> None" by (simp add: holds_file_def)
    then show "GetDataFileName dir f \<in> fst ` set (files w)" unfolding some .
  next
    assume "GetDataFileName dir f \<in> fst ` set (files w)"
    then have "content w (GetDataFileName dir f) \<noteq> None" using some by blast
    moreover have "f \<notin> fst ` set fs \<Longrightarrow> content w (GetDataFileName dir f) = None" using assms by (simp add: log_inv_def)
    ultimately show "f \<in> fst ` set fs" by argo
  qed
  have "p \<in> set (data_paths dir w) \<longleftrightarrow> p \<in> GetDataFileName dir ` fst ` set fs" for p
  proof
    assume "p \<in> set (data_paths dir w)"
    then have "p \<in> fst ` set (files w)" "dirname p = dir" "EndsWith (basename p) K_DATA_FILE_SUFFIX"
      by (auto simp: data_paths_def)
    from this(1) tidy [OF this] obtain f where "p = GetDataFileName dir f" "f \<in> fst ` set fs" using fs by metis
    then show "p \<in> GetDataFileName dir ` fst ` set fs" by (rule image_eqI)
  next
    assume "p \<in> GetDataFileName dir ` fst ` set fs"
    then obtain f where "p = GetDataFileName dir f" "f \<in> fst ` set fs" by (rule imageE)
    then have "p = GetDataFileName dir f" "p \<in> fst ` set (files w)" using fs by simp_all
    then show "p \<in> set (data_paths dir w)" by (simp add: data_paths_def fs_simps)
  qed
  then show "set (data_paths dir w) = GetDataFileName dir ` fst ` set fs" by blast
  show "distinct (data_paths dir w)" using assms by (simp add: data_paths_def log_inv_def tidy_def)
qed

lemma filter_names:
  assumes "tidy dir w"
  shows "filter (\<lambda>d. EndsWith d K_DATA_FILE_SUFFIX)
      (''.'' # ''..'' # subnames dir (map fst (files w)) @ subnames dir (dirs w)) = map basename (data_paths dir w)"
proof -
  have "filter (\<lambda>d. EndsWith d K_DATA_FILE_SUFFIX) (subnames dir (dirs w)) = []"
    using assms by (auto simp: subnames_def filter_empty_conv tidy_def)
  moreover have "\<not> EndsWith ''.'' K_DATA_FILE_SUFFIX" "\<not> EndsWith ''..'' K_DATA_FILE_SUFFIX"
    by (simp_all add: EndsWith_def file_names)
  moreover have "filter (\<lambda>d. EndsWith d K_DATA_FILE_SUFFIX) (subnames dir ps) =
      map basename (filter (\<lambda>p. dirname p = dir \<and> EndsWith (basename p) K_DATA_FILE_SUFFIX) ps)" for ps
    by (induction ps) (auto simp: subnames_def)
  ultimately show ?thesis by (simp add: data_paths_def)
qed

lemma readdir_names:
  assumes log: "log_inv crc dir w fs" and "listing w" and "readdir dir w = Some names"
  shows "mset (filter (\<lambda>d. EndsWith d K_DATA_FILE_SUFFIX) names) = mset (map basename (data_paths dir w))"
proof -
  have "dir \<in> set (dirs w)" and tidy: "tidy dir w" using log by (auto simp: log_inv_def)
  then have "mset names = mset (''.'' # ''..'' # subnames dir (map fst (files w)) @ subnames dir (dirs w))"
    using assms(2,3) unfolding readdir_def listing_def by (metis option.inject)
  from arg_cong [OF this, of "filter_mset (\<lambda>d. EndsWith d K_DATA_FILE_SUFFIX)"] show ?thesis
    unfolding mset_filter [symmetric] filter_names [OF tidy] .
qed

lemma name_id_basename: "name_id (basename (GetDataFileName dir f)) = f"
  by (simp add: fs_simps)

lemma sort_ids:
  assumes log: "log_inv crc dir w fs" and "listing w" and "readdir dir w = Some names"
  shows "sort (map name_id (filter (\<lambda>d. EndsWith d K_DATA_FILE_SUFFIX) names)) = map fst fs"
proof (rule sorted_distinct_set_unique)
  let ?ids = "map name_id (filter (\<lambda>d. EndsWith d K_DATA_FILE_SUFFIX) names)"
  let ?all = "map (\<lambda>p. name_id (basename p)) (data_paths dir w)"
  have ids: "mset ?ids = mset ?all"
    using arg_cong [OF readdir_names [OF assms], of "image_mset name_id"] by (simp add: multiset.map_comp comp_def)
  have p: "set (data_paths dir w) = GetDataFileName dir ` fst ` set fs" "distinct (data_paths dir w)"
    using data_paths_log [OF log] .
  have "inj_on (\<lambda>p. name_id (basename p)) (GetDataFileName dir ` A)" for A
    by (auto simp: inj_on_def name_id_basename)
  then have "distinct ?all" unfolding distinct_map p(1) using p(2) by simp
  then show "distinct (sort ?ids)" using mset_eq_imp_distinct_iff [OF ids] by simp
  have "set ?all = fst ` set fs" by (simp add: p(1) image_image name_id_basename)
  then show "set (sort ?ids) = set (map fst fs)" using mset_eq_setD [OF ids] by simp
  show "sorted (sort ?ids)" by simp
  have "sorted_wrt (<) (map fst fs)" using log by (simp add: log_inv_def sorted_wrt_map)
  then show "sorted (map fst fs)" "distinct (map fst fs)" by (simp_all add: strict_sorted_iff)
qed

lemma scan_log_names:
  assumes log: "log_inv crc dir w fs" and "listing w" and names: "readdir dir w = Some names" and "small_ids fs"
  shows "\<exists>ids. scan_names names [] s = (Ok ids, s) \<and> sort ids = map fst fs"
proof -
  have "set (filter (\<lambda>d. EndsWith d K_DATA_FILE_SUFFIX) names) = basename ` GetDataFileName dir ` fst ` set fs"
    using mset_eq_setD [OF readdir_names [OF log assms(2,3)]] data_paths_log(1) [OF log] by simp
  then have "\<exists>f \<in> fst ` set fs. d = basename (GetDataFileName dir f)"
    if "d \<in> set names" "EndsWith d K_DATA_FILE_SUFFIX" for d using that by auto
  then have "\<forall>d \<in> set names. EndsWith d K_DATA_FILE_SUFFIX \<longrightarrow> (\<exists>f :: u32. unat f < 2 ^ 31 \<and> d = to_string (unat f) @ K_DATA_FILE_SUFFIX)"
    using assms(4) unfolding small_ids_def basename_GetDataFileName by blast
  from scan_names_spec [OF this, of "[]" s] sort_ids [OF log assms(2) names] show ?thesis by auto
qed

section \<open>Opening the files\<close>

definition opened :: "string \<Rightarrow> u32 \<Rightarrow> DataFile" where
  "opened dir n = \<lparr>file_id = n, write_off = 0, io_handler = GetDataFileName dir n\<rparr>"

lemma OpenDataFile_there:
  "content w (GetDataFileName dir n) \<noteq> None \<Longrightarrow> on_world (OpenDataFile dir n) (db, w) = (Ok (opened dir n), db, w)"
  by (simp add: on_world_def zoom_def OpenDataFile_def NewDataFile_def NewIOHandler_def open_create_def ok_def opened_def)

lemma open_files_spec:
  assumes "\<forall>n \<in> set ns. content w (GetDataFileName (dir_path (db_options db)) n) \<noteq> None" and "ns \<noteq> []" and "distinct ns"
  shows "\<exists>old. open_files ns (db, w) =
      (Ok (), db\<lparr>db_older := old, db_active := Some (opened (dir_path (db_options db)) (last ns))\<rparr>, w)
    \<and> (\<forall>f \<in> set (butlast ns). map_of old f = Some (Some (opened (dir_path (db_options db)) f)))
    \<and> (\<forall>f. f \<notin> set (butlast ns) \<longrightarrow> map_of old f = map_of (db_older db) f)"
  using assms
proof (induction ns arbitrary: db rule: open_files.induct)
  case (2 n)
  then have "open_files [n] (db, w) =
      (Ok (), db\<lparr>db_older := db_older db, db_active := Some (opened (dir_path (db_options db)) n)\<rparr>, w)"
    using OpenDataFile_there [of w "dir_path (db_options db)" n db]
    by (simp add: CHECK_OK_def on_db_def update_state_def)
  then show ?case by (intro exI [of _ "db_older db"]) simp
next
  case (3 n n' ns)
  let ?dir = "dir_path (db_options db)"
  let ?db = "db\<lparr>db_older := AList.update n (Some (opened ?dir n)) (db_older db)\<rparr>"
  have step: "open_files (n # n' # ns) (db, w) = open_files (n' # ns) (?db, w)"
    using OpenDataFile_there [of w ?dir n db] "3.prems"(1) by (simp add: CHECK_OK_def on_db_def update_state_def)
  obtain old where old: "open_files (n' # ns) (?db, w) =
      (Ok (), ?db\<lparr>db_older := old, db_active := Some (opened ?dir (last (n' # ns)))\<rparr>, w)"
    "\<forall>f \<in> set (butlast (n' # ns)). map_of old f = Some (Some (opened ?dir f))"
    "\<forall>f. f \<notin> set (butlast (n' # ns)) \<longrightarrow> map_of old f = map_of (db_older ?db) f"
    using "3.IH" [of ?db] "3.prems" by auto
  have "n \<notin> set (butlast (n' # ns))" using "3.prems"(3) in_set_butlastD [of n "n' # ns"] by auto
  then have "map_of old n = Some (Some (opened ?dir n))" using old(3) by (simp add: update_conv')
  moreover have "map_of old f = map_of (db_older db) f" if "f \<notin> set (butlast (n # n' # ns))" for f
    using old(3) that by (simp add: update_conv')
  ultimately show ?case using step old(1,2) by (intro exI [of _ old]) auto
qed simp

lemma LoadDataFiles_spec:
  assumes log: "log_inv crc dir w fs" and list: "listing w" and small: "small_ids fs" and dir: "dir_path (db_options db) = dir"
    and fresh: "db_active db = None" "db_older db = []"
  shows "\<exists>old. LoadDataFiles (db, w) = (Ok (), db\<lparr>db_file_ids := Some (map fst fs), db_older := old,
        db_active := (if fs = [] then None else Some (opened dir (fst (last fs)))),
        db_next_file_id := (if fs = [] then 0 else fst (last fs) + 1)\<rparr>, w)
    \<and> (\<forall>f \<in> fst ` set (butlast fs). map_of old f = Some (Some (opened dir f)))"
proof -
  let ?db = "db\<lparr>db_file_ids := Some (map fst fs)\<rparr>"
  obtain names where names: "readdir dir w = Some names" using log by (simp add: log_inv_def readdir_def)
  obtain ids where ids: "scan_names names [] (db, w) = (Ok ids, db, w)" "sort ids = map fst fs"
    using scan_log_names [OF log list names small] by blast
  have eq: "LoadDataFiles (db, w) = CHECK_OK (open_files (map fst fs)) (\<lambda>_. on_db (\<lambda>db. db\<lparr>db_next_file_id :=
      (case db_active db of None \<Rightarrow> 0 | Some df \<Rightarrow> file_id df + 1)\<rparr>)) (?db, w)"
    using names ids dir by (simp add: LoadDataFiles_def CHECK_OK_def on_db_def update_state_def)
  show ?thesis
  proof (cases "fs = []")
    case True
    then show ?thesis using fresh eq by (intro exI [of _ "[]"]) (simp add: on_db_def update_state_def)
  next
    case False
    have "\<forall>n \<in> set (map fst fs). content w (GetDataFileName dir n) \<noteq> None"
      using log by (auto simp: log_inv_def list_all_iff holds_file_def)
    moreover have "distinct (map fst fs)" using log by (simp add: log_inv_def strict_sorted_iff flip: sorted_wrt_map)
    ultimately obtain old where "open_files (map fst fs) (?db, w) =
        (Ok (), ?db\<lparr>db_older := old, db_active := Some (opened dir (last (map fst fs)))\<rparr>, w)"
      "\<forall>f \<in> set (butlast (map fst fs)). map_of old f = Some (Some (opened dir f))"
      using open_files_spec [of "map fst fs" w ?db] False dir by auto
    then show ?thesis using False eq
      by (intro exI [of _ old]) (simp add: CHECK_OK_def on_db_def update_state_def opened_def last_map flip: map_butlast)
  qed
qed

end
