(* ===== verification/Merge.thy ===== *)
theory Merge
  imports Recovery
begin

text \<open>
  \<open>DB::Merge\<close> and \<open>DB::Open\<close> of \<^verbatim>\<open>db.cpp\<close>, which call each other: opening a
  database merges it, and a merge opens a temporary database in the mergence
  directory. The first argument bounds the nesting. The temporary database is opened
  in a directory that was just created, so it has no active file and its own merge
  returns at once: \<open>Merge\<close>, \<open>Open\<close> and \<open>Merge\<close> are three levels, which is the bound of
  \<open>DB_Merge\<close>, and \<open>DB_Open\<close> adds one.
\<close>

section \<open>\<open>Merge\<close>\<close>

text \<open>
  The files to be merged in the order of their numbers. The comparison reads
  \<open>(*a)->file_id\<close> and the loop \<open>(*file_ptr)->ReadLogRecord\<close>, so a null entry of
  \<open>older_files_\<close> faults.
\<close>

definition files_to_merge :: "(st, DataFile list) cmd" where
  "files_to_merge = (\<lambda>(db, w).
     let fs = map snd (db_older db)
     in if None \<in> set fs then crash NullDeref (db, w)
        else ok (sort_key file_id (map the fs)) (db, w))"

text \<open>Commands on the temporary database and on the hint file, in the world of the main one.\<close>

definition on_temp :: "(st, 'a) cmd \<Rightarrow> DB \<Rightarrow> (st, DB \<times> 'a) cmd" where
  "on_temp m temp_db = (\<lambda>(db, w).
     let (r, temp_db', w') = m (temp_db, w)
     in (case r of Ok a \<Rightarrow> Ok (temp_db', a) | Err c \<Rightarrow> Err c | Crash f \<Rightarrow> Crash f, db, w'))"

definition on_file :: "(DataFile \<times> world, 'a) cmd \<Rightarrow> DataFile \<Rightarrow> (st, DataFile \<times> 'a) cmd" where
  "on_file m df = (\<lambda>(db, w).
     let (r, df', w') = m (df, w)
     in (case r of Ok a \<Rightarrow> Ok (df', a) | Err c \<Rightarrow> Err c | Crash f \<Rightarrow> Crash f, db, w'))"

text \<open>The body of the loop: a record that the index still refers to is copied.\<close>

definition merge_record :: "crc_fun \<Rightarrow> DataFile \<Rightarrow> LogRecord \<Rightarrow> nat \<Rightarrow> DB \<times> DataFile \<Rightarrow> (st, DB \<times> DataFile) cmd" where
  "merge_record crc df log_record ofs = (\<lambda>(temp_db, hint_file).
     CHECK_OK (run_outcome (DecodeLogRecordWithTxnID (lr_key log_record))) (\<lambda>(real_key, _).
     CHECK_OK (index_Get real_key) (\<lambda>pst.
       if (case pst of None \<Rightarrow> False | Some p \<Rightarrow> fid p = file_id df \<and> unat (offset p) = ofs)
       then CHECK_OK (run_outcome (EncodeLogRecordWithTxnID real_key K_NON_TXN_ID)) (\<lambda>k.
            CHECK_OK (on_temp (AppendLogRecord crc (log_record\<lparr>lr_key := k\<rparr>) True) temp_db) (\<lambda>(temp_db', tmp_pst).
            CHECK_OK (on_file (WriteHintRecord crc real_key tmp_pst) hint_file) (\<lambda>(hint_file', _).
              ok (temp_db', hint_file'))))
       else ok (temp_db, hint_file))))"

primrec merge_files :: "crc_fun \<Rightarrow> DataFile list \<Rightarrow> DB \<times> DataFile \<Rightarrow> (st, DB \<times> DataFile) cmd" where
  "merge_files crc [] acc = ok acc"
| "merge_files crc (df # dfs) acc =
     CHECK_OK (each_record crc df (merge_record crc df) acc) (\<lambda>(_, acc'). merge_files crc dfs acc')"

text \<open>The part of \<open>Merge\<close> from opening the hint file on, given the opened temporary database.\<close>

definition merge_into :: "crc_fun \<Rightarrow> string \<Rightarrow> u32 \<Rightarrow> DataFile list \<Rightarrow> DB \<Rightarrow> (st, unit) cmd" where
  "merge_into crc merge_dir non_merged_file_id files_to_be_merged temp_db =
     CHECK_OK (on_world (OpenHintFile merge_dir)) (\<lambda>hint_file.
     CHECK_OK (merge_files crc files_to_be_merged (temp_db, hint_file)) (\<lambda>(temp_db, hint_file).
     CHECK_OK (on_file DataFile_Sync hint_file) (\<lambda>_.
     CHECK_OK (on_temp DB_Sync temp_db) (\<lambda>_.
     CHECK_OK (on_world (OpenMergedFile merge_dir)) (\<lambda>merged_file.
     CHECK_OK (on_file (DataFile_Write (EncodeLogRecord crc
         \<lparr>lr_key = K_MERGED_LOG_RECORD_KEY, lr_value = str (to_string (unat non_merged_file_id)), lr_type = 0\<rparr>))
         merged_file) (\<lambda>(merged_file, _).
     CHECK_OK (on_file DataFile_Sync merged_file) (\<lambda>_. ok ())))))))"

text \<open>Removing what an earlier merge left and creating the mergence directory.\<close>

definition prepare_merge_dir :: "string \<Rightarrow> (st, unit) cmd" where
  "prepare_merge_dir merge_dir = (\<lambda>(db, w).
     CHECK_OK (if IsFileExist merge_dir w then on_world (world_call (RemoveDir merge_dir)) else ok ()) (\<lambda>_ (db, w).
       let (b, w') = CheckOrCreateDirectory merge_dir w in CHECK_TRUE b None (ok ()) (db, w')) (db, w))"

fun Open_rec :: "nat \<Rightarrow> crc_fun \<Rightarrow> Random \<Rightarrow> Options \<Rightarrow> bool \<Rightarrow> (world, DB) cmd"
and Merge_rec :: "nat \<Rightarrow> crc_fun \<Rightarrow> Random \<Rightarrow> (st, unit) cmd" where
  "Open_rec 0 crc r opts merge_after_open = crash Stuck"
| "Open_rec (Suc depth) crc r opts merge_after_open = (\<lambda>w.
     case CheckOptions opts of Some c \<Rightarrow> err c w
     | None \<Rightarrow>
        (let (b, w1) = CheckOrCreateDirectory (dir_path opts) w
         in CHECK_TRUE b None (\<lambda>w1.
              let (res, db, w2) =
                CHECK_OK (LoadMergenceFiles crc) (\<lambda>_.
                CHECK_OK LoadDataFiles (\<lambda>_.
                CHECK_OK (LoadIndexFromHintFile crc) (\<lambda>_.
                CHECK_OK (LoadIndexFromDataFiles crc) (\<lambda>_.
                  if merge_after_open then Merge_rec depth crc r else ok ())))) (DB_init r opts, w1)
              in (case res of Ok _ \<Rightarrow> ok db w2 | Err c \<Rightarrow> err c w2 | Crash f \<Rightarrow> crash f w2)) w1))"
| "Merge_rec 0 crc r = crash Stuck"
| "Merge_rec (Suc depth) crc r = (\<lambda>(db, w).
     case db_active db of None \<Rightarrow> ok () (db, w)
     | Some active_file \<Rightarrow>
        (if db_is_merging db then err kCheckError (db, w)
         else with_defer (on_db (\<lambda>db. db\<lparr>db_is_merging := False\<rparr>))
                (CHECK_OK (on_db (\<lambda>db. db\<lparr>db_is_merging := True\<rparr>)) (\<lambda>_.
                 CHECK_OK (on_active DataFile_Sync) (\<lambda>_.
                 CHECK_OK retire_active (\<lambda>_.
                 CHECK_OK NewActiveDataFile (\<lambda>_.
                 CHECK_OK files_to_merge (\<lambda>files_to_be_merged.
                   let merge_dir = GetMergenceDirectory (dir_path (db_options db));
                       mergence_options = (db_options db)\<lparr>dir_path := merge_dir, is_sync_write := False\<rparr>
                   in CHECK_OK (prepare_merge_dir merge_dir) (\<lambda>_.
                      CHECK_OK (on_world (Open_rec depth crc r mergence_options True)) (\<lambda>temp_db.
                        merge_into crc merge_dir (file_id active_file) files_to_be_merged temp_db)))))))) (db, w)))"

definition DB_Open :: "crc_fun \<Rightarrow> Random \<Rightarrow> Options \<Rightarrow> bool \<Rightarrow> (world, DB) cmd" where
  "DB_Open = Open_rec 4"

definition DB_Merge :: "crc_fun \<Rightarrow> Random \<Rightarrow> (st, unit) cmd" where
  "DB_Merge = Merge_rec 3"

end
