(* ===== verification/Open_Correct.thy ===== *)
theory Open_Correct
  imports Recovery_Correct Merge
begin

text \<open>
  Opening a directory that a running database has left: the new database stands for
  the same map. The directory has neither a mergence directory nor a hint file, so
  what is read are the data files alone.
\<close>

section \<open>Replays and transaction numbers\<close>

definition txns_below :: "(u32 \<Rightarrow> 'a list) \<Rightarrow> u64 \<Rightarrow> bool" where
  "txns_below T c \<longleftrightarrow> (\<forall>t. T t \<noteq> [] \<longrightarrow> (\<exists>u \<le> c. t = ucast u))"

lemma replay_step_below:
  assumes "replay_step e (m, T, c) = Some (m', T', c')" and "txns_below T c"
  shows "txns_below T' c'"
proof -
  have mono: "txns_below T (max c t)" for t
    using assms(2) unfolding txns_below_def by (metis max.coboundedI1)
  have upd: "txns_below (T(ucast t := xs)) (max c t)" for t xs
    using mono [of t] unfolding txns_below_def by (metis fun_upd_apply max.cobounded2)
  show ?thesis
    using assms mono upd by (auto simp: replay_step_def split: outcome.splits if_splits prod.splits)
qed

lemma replay_below:
  assumes "replay rs (m, T, c) = Some (m', T', c')" and "txns_below T c"
  shows "txns_below T' c'"
  using assms
proof (induction rs arbitrary: m T c)
  case (Cons e rs)
  then obtain s where s: "replay_step e (m, T, c) = Some s" "replay rs s = Some (m', T', c')"
    by (auto split: bind_splits)
  obtain m1 T1 c1 where "s = (m1, T1, c1)" by (cases s)
  then show ?case using Cons.IH s replay_step_below [of e m T c m1 T1 c1] Cons.prems(2) by simp
qed simp

lemma replay_init_below:
  assumes "replay rs replay_init = Some (m, T, c)" and "c < t" and "unat t < 2 ^ 32"
  shows "T (ucast t) = []"
proof (rule ccontr)
  assume "T (ucast t) \<noteq> []"
  moreover have "txns_below T c"
    using replay_below [of rs _ _ _ m T c] assms(1) by (simp add: replay_init_def txns_below_def)
  ultimately obtain u where u: "u \<le> c" "(ucast t :: u32) = ucast u" unfolding txns_below_def by blast
  have lt: "unat u < unat t" "unat u < 2 ^ 32"
    using u(1) assms(2,3) by (simp_all add: word_le_nat_alt word_less_nat_alt)
  then show False using u(2) ucast_u32_inject [OF assms(3) lt(2)] by simp
qed

section \<open>Opening\<close>

text \<open>Nothing of a merge is in the directory.\<close>

definition unmerged :: "string \<Rightarrow> world \<Rightarrow> bool" where
  "unmerged dir w \<longleftrightarrow> GetMergenceDirectory dir \<notin> set (dirs w)
     \<and> \<not> IsFileExist (GetHintFileName dir) w \<and> \<not> IsFileExist (GetMergedFileName dir) w"

lemma log_file_of:
  assumes "f \<in> fst ` set fs" and "db_active db = Some (opened dir (fst (last fs)))"
    and "\<forall>f \<in> fst ` set (butlast fs). map_of (db_older db) f = Some (Some (opened dir f))"
  shows "\<exists>df. file_of f (db, w) = (Ok (Some df), db, w) \<and> io_handler df = GetDataFileName dir f"
proof (cases "f = fst (last fs)")
  case True
  then show ?thesis using assms(2) by (simp add: file_of_def opened_def ok_def)
next
  case False
  have "f \<in> fst ` set (butlast fs)" using assms(1) False by (cases fs rule: rev_cases) auto
  with assms(3) have "map_of (db_older db) f = Some (Some (opened dir f))" by (rule bspec)
  then show ?thesis using assms(2) False by (simp add: file_of_def opened_def ok_def)
qed

lemma LoadIndexFromDataFiles_spec:
  assumes log: "log_inv crc (dir_path (db_options db)) w fs" and ne: "[] \<notin> snd ` set fs" and crc: "crc_extends crc"
    and rep: "replay (located crc fs) replay_init = Some (m, T, c)"
    and act: "db_active db = Some (opened (dir_path (db_options db)) (fst (last fs)))"
    and old: "\<forall>f \<in> fst ` set (butlast fs). map_of (db_older db) f = Some (Some (opened (dir_path (db_options db)) f))"
    and ids: "db_file_ids db = Some (map fst fs)" and idx: "index_holds (db_index db) Map.empty"
    and un: "unmerged (dir_path (db_options db)) w" and "fs \<noteq> []"
  shows "\<exists>i. LoadIndexFromDataFiles crc (db, w) = (Ok (), db\<lparr>db_active := Some ((opened (dir_path (db_options db)) (fst (last fs)))
      \<lparr>write_off := length (file_bytes crc (snd (last fs)))\<rparr>), db_index := i, db_txn_id := c, db_file_ids := Some []\<rparr>, w)
    \<and> index_holds i m"
proof -
  let ?dir = "dir_path (db_options db)"
  have "list_all (holds_file crc ?dir w) fs" using log by (simp add: log_inv_def)
  moreover have "\<forall>f \<in> fst ` set fs. \<exists>df. file_of f (db, w) = (Ok (Some df), db, w) \<and> io_handler df = GetDataFileName ?dir f"
    using log_file_of [OF _ act old] by blast
  moreover have "txns_hold [] (\<lambda>_. [])" by (simp add: txns_hold_def txn_lookup_def)
  ultimately obtain i txns where i: "load_files crc (\<lambda>_. False) (map fst fs) ([], K_NON_TXN_ID) (db, w) =
      (Ok (txns, c), (db\<lparr>db_active := map_option (\<lambda>df. df\<lparr>write_off := length (file_bytes crc (snd (last fs)))\<rparr>)
        (db_active db)\<rparr>)\<lparr>db_index := i\<rparr>, w)" "index_holds i m"
    using load_files_spec [of crc ?dir w fs db Map.empty "[]" "\<lambda>_. []" K_NON_TXN_ID m T c] ne crc idx rep \<open>fs \<noteq> []\<close>
    by (auto simp: replay_init_def)
  have "\<not> IsFileExist (Format ''{}/{}'' [?dir, K_MERGED_FILE_NAME]) w"
    using un by (simp add: unmerged_def GetMergedFileName_def)
  then have "LoadIndexFromDataFiles crc (db, w) = (Ok (), db\<lparr>db_active := Some ((opened ?dir (fst (last fs)))
      \<lparr>write_off := length (file_bytes crc (snd (last fs)))\<rparr>), db_index := i, db_txn_id := c, db_file_ids := Some []\<rparr>, w)"
    using ids \<open>fs \<noteq> []\<close> i(1) act
    by (simp add: LoadIndexFromDataFiles_def CHECK_OK_def ok_def Let_def on_db_def update_state_def)
  then show ?thesis using i(2) by blast
qed

lemma CheckOrCreateDirectory_there: "d \<in> set (dirs w) \<Longrightarrow> CheckOrCreateDirectory d w = (True, w)"
  by (simp add: CheckOrCreateDirectory_def)

lemma no_merge_loads:
  assumes "unmerged (dir_path (db_options db)) w"
  shows "LoadMergenceFiles crc (db, w) = (Ok (), db, w)" and "LoadIndexFromHintFile crc (db, w) = (Ok (), db, w)"
  using assms by (simp_all add: unmerged_def LoadMergenceFiles_def LoadIndexFromHintFile_def readdir_def ok_def Let_def)

lemma Open_rec_eq:
  assumes "CheckOptions opts = None" and "dir_path opts \<in> set (dirs w)" and un: "unmerged (dir_path opts) w"
    and load: "LoadDataFiles (DB_init r opts, w) = (Ok (), db1, w)" and "db_options db1 = opts"
    and idx: "LoadIndexFromDataFiles crc (db1, w) = (Ok (), db2, w)"
  shows "Open_rec (Suc d) crc r opts False w = (Ok db2, w)"
proof -
  have "db_options (DB_init r opts) = opts" by (simp add: DB_init_def)
  then have "CHECK_OK (LoadMergenceFiles crc) (\<lambda>_. CHECK_OK LoadDataFiles (\<lambda>_. CHECK_OK (LoadIndexFromHintFile crc) (\<lambda>_.
      CHECK_OK (LoadIndexFromDataFiles crc) (\<lambda>_. ok ())))) (DB_init r opts, w) = (Ok (), db2, w)"
    using no_merge_loads [of "DB_init r opts" w crc] no_merge_loads [of db1 w crc] assms
    by (simp add: CHECK_OK_def ok_def)
  then show ?thesis using assms(1,2) by (simp add: CheckOrCreateDirectory_there ok_def)
qed

lemma sorted_last: "sorted_wrt (<) xs \<Longrightarrow> x \<in> set xs \<Longrightarrow> x \<le> (last xs :: 'a::linorder)"
  by (induction xs) (auto simp: less_le)

lemma files_inv_small:
  assumes "log_inv crc dir w fs" and "files_inv crc db fs" and "unat (db_next_file_id db) \<le> 2 ^ 31"
  shows "small_ids fs"
  unfolding small_ids_def
proof
  fix f assume f: "f \<in> fst ` set fs"
  then have "fs \<noteq> []" by auto
  then have "unat (fst (last fs)) < 2 ^ 31" using assms(2,3) by (simp add: files_inv_def)
  moreover have "sorted_wrt (<) (map fst fs)" using assms(1) by (simp add: log_inv_def sorted_wrt_map)
  then have "f \<le> fst (last fs)" using sorted_last [of "map fst fs" f] f \<open>fs \<noteq> []\<close> by (simp add: last_map)
  ultimately show "unat f < 2 ^ 31" by (simp add: word_le_nat_alt)
qed

text \<open>The database that is opened satisfies the invariant of the one that was there, for the same log.\<close>

lemma Open_inv:
  assumes inv: "db_inv crc (db, w) fs m" and crc: "crc_extends crc" and opts: "CheckOptions opts = None"
    and dir: "dir_path opts = dir_path (db_options db)" and list: "listing w" and un: "unmerged (dir_path opts) w"
    and small: "unat (db_next_file_id db) \<le> 2 ^ 31"
  shows "\<exists>db'. Open_rec (Suc d) crc r opts False w = (Ok db', w) \<and> db_inv crc (db', w) fs m \<and> db_options db' = opts
    \<and> db_next_file_id db' = db_next_file_id db \<and> db_txn_id db' \<le> db_txn_id db"
proof -
  let ?db = "DB_init r opts"
  have log: "log_inv crc (dir_path opts) w fs" and fi: "files_inv crc db fs" and ne: "[] \<notin> snd ` set fs"
    and live: "live crc fs m" using inv dir by (auto simp: db_inv_def)
  obtain T c where rep: "replay (located crc fs) replay_init = Some (m, T, c)" "c \<le> db_txn_id db" using inv by (auto simp: db_inv_def)
  have sm: "small_ids fs" using files_inv_small [OF _ fi small] log by blast
  have idx: "index_holds (db_index ?db) Map.empty"
    using NewIndexer_rep [of r "index_type opts"] by (simp add: index_holds_def DB_init_def)
  obtain old where load: "LoadDataFiles (?db, w) = (Ok (), ?db\<lparr>db_file_ids := Some (map fst fs), db_older := old,
        db_active := (if fs = [] then None else Some (opened (dir_path opts) (fst (last fs)))),
        db_next_file_id := (if fs = [] then 0 else fst (last fs) + 1)\<rparr>, w)" (is "_ = (_, ?db1, _)")
    "\<forall>f \<in> fst ` set (butlast fs). map_of old f = Some (Some (opened (dir_path opts) f))"
    using LoadDataFiles_spec [OF log list sm, of ?db] by (auto simp: DB_init_def)
  have dirs: "dir_path opts \<in> set (dirs w)" using log by (simp add: log_inv_def)
  note opn = Open_rec_eq [OF opts dirs un load(1)]
  have T: "\<forall>t. c < t \<longrightarrow> unat t < 2 ^ 32 \<longrightarrow> T (ucast t) = []" using replay_init_below [OF rep(1)] by blast
  show ?thesis
  proof (cases "fs = []")
    case True
    then have "LoadIndexFromDataFiles crc (?db1, w) = (Ok (), ?db1, w)"
      by (simp add: LoadIndexFromDataFiles_def ok_def)
    from opn [OF _ this] have "Open_rec (Suc d) crc r opts False w = (Ok ?db1, w)" by (simp add: DB_init_def)
    moreover have "db_inv crc (?db1, w) fs m"
      using True log live rep T idx by (simp add: db_inv_def files_inv_def DB_init_def replay_init_def K_NON_TXN_ID_def)
    ultimately show ?thesis using True fi by (intro exI [of _ ?db1]) (simp add: DB_init_def files_inv_def)
  next
    case False
    obtain i where i: "LoadIndexFromDataFiles crc (?db1, w) = (Ok (), ?db1\<lparr>db_active := Some ((opened (dir_path opts) (fst (last fs)))
      \<lparr>write_off := length (file_bytes crc (snd (last fs)))\<rparr>), db_index := i, db_txn_id := c, db_file_ids := Some []\<rparr>, w)"
      (is "_ = (_, ?db2, _)") "index_holds i m"
      using LoadIndexFromDataFiles_spec [of crc ?db1 w fs m T c] log ne crc rep load(2) idx un False by (auto simp: DB_init_def)
    from opn [OF _ i(1)] have "Open_rec (Suc d) crc r opts False w = (Ok ?db2, w)" by (simp add: DB_init_def)
    moreover have "unat (fst (last fs)) + 1 < 2 ^ 32" "unat (db_next_file_id db) = unat (fst (last fs)) + 1"
      using fi small False by (simp_all add: files_inv_def)
    then have next_id: "unat (fst (last fs) + 1) = unat (fst (last fs)) + 1" "db_next_file_id db = fst (last fs) + 1"
      by (simp_all add: unat_word_ariths word_unat_eq_iff)
    then have "files_inv crc ?db2 fs" using False load(2) by (simp add: files_inv_def opened_def DB_init_def)
    then have "db_inv crc (?db2, w) fs m"
      using log ne live rep T i(2) by (auto simp: db_inv_def DB_init_def)
    ultimately show ?thesis using False next_id(2) rep(2) by (intro exI [of _ ?db2]) (simp add: DB_init_def)
  qed
qed

end
