(* ===== verification/Batch.thy ===== *)
theory Batch
  imports DB_Refine
begin

text \<open>
  \<^verbatim>\<open>batch.h\<close> and \<^verbatim>\<open>batch.cpp\<close>: a batch collects writes and commits them as one
  transaction. A command of a batch runs on the batch paired with the state of its
  database.
\<close>

section \<open>Definitions\<close>

record WriteBatch =
  wb_options :: WriteBatchOptions
  pending_writes :: "(bytes, LogRecord) smap"
  committed :: bool
  rollbacked :: bool

definition WriteBatch_init :: "WriteBatchOptions \<Rightarrow> WriteBatch" where
  "WriteBatch_init options = \<lparr>wb_options = options, pending_writes = [], committed = False, rollbacked = False\<rparr>"

text \<open>\<open>has_ptr\<close>: the pointer \<open>wb_ptr\<close> is not null.\<close>

definition DB_NewWriteBach :: "bool \<Rightarrow> WriteBatchOptions \<Rightarrow> (st, WriteBatch) cmd" where
  "DB_NewWriteBach has_ptr options = (if \<not> has_ptr then err kInvalidArgument else ok (WriteBatch_init options))"

type_synonym wst = "WriteBatch \<times> st"

definition on_batch :: "(WriteBatch \<Rightarrow> WriteBatch) \<Rightarrow> (wst, unit) cmd" where
  "on_batch f = update_state (map_prod f id)"

definition on_st :: "(st, 'a) cmd \<Rightarrow> (wst, 'a) cmd" where
  "on_st = zoom snd (\<lambda>s (wb, _). (wb, s))"

text \<open>\<open>emplace\<close>: a key that is pending keeps its first record.\<close>

definition WriteBatch_Put :: "bytes \<Rightarrow> bytes \<Rightarrow> (wst, unit) cmd" where
  "WriteBatch_Put key value =
     (if key = [] then err kInvalidArgument
      else on_batch (\<lambda>wb. wb\<lparr>pending_writes := smap_emplace (cstr key)
             \<lparr>lr_key = cstr key, lr_value = cstr value, lr_type = NormalLogRecord\<rparr> (pending_writes wb)\<rparr>))"

text \<open>The value of the lookup is not wanted, so \<open>Get\<close> is given a null pointer.\<close>

definition WriteBatch_Delete :: "crc_fun \<Rightarrow> bytes \<Rightarrow> (wst, unit) cmd" where
  "WriteBatch_Delete crc key =
     (if key = [] then err kInvalidArgument
      else (\<lambda>s. case on_st (DB_Get crc key False) s of
               (Crash f, s') \<Rightarrow> crash f s'
             | (Err c, s') \<Rightarrow>
                 (if c = kNotFound
                  then on_batch (\<lambda>wb. if map_of (pending_writes wb) (cstr key) \<noteq> None
                         then wb\<lparr>pending_writes := smap_erase (cstr key) (pending_writes wb)\<rparr> else wb) s'
                  else on_batch (\<lambda>wb. wb\<lparr>pending_writes := smap_emplace (cstr key)
                         \<lparr>lr_key = cstr key, lr_value = [], lr_type = DeletedLogRecord\<rparr> (pending_writes wb)\<rparr>) s')
             | (Ok _, s') \<Rightarrow> on_batch (\<lambda>wb. wb\<lparr>pending_writes := smap_emplace (cstr key)
                         \<lparr>lr_key = cstr key, lr_value = [], lr_type = DeletedLogRecord\<rparr> (pending_writes wb)\<rparr>) s'))"

text \<open>
  The first loop of \<open>Commit\<close>. It changes the keys of the pending records in place and
  collects the positions by key.
\<close>

primrec commit_writes ::
    "crc_fun \<Rightarrow> u64 \<Rightarrow> (bytes, LogRecord) smap \<Rightarrow> (bytes, LogRecordPst) smap \<Rightarrow> (wst, (bytes, LogRecordPst) smap) cmd" where
  "commit_writes crc txn_id [] positions = ok positions"
| "commit_writes crc txn_id (e # es) positions =
     CHECK_OK (run_outcome (EncodeLogRecordWithTxnID (lr_key (snd e)) txn_id)) (\<lambda>k.
     CHECK_OK (on_batch (\<lambda>wb. wb\<lparr>pending_writes := smap_put (fst e) ((snd e)\<lparr>lr_key := k\<rparr>) (pending_writes wb)\<rparr>)) (\<lambda>_.
     CHECK_OK (on_st (AppendLogRecord crc ((snd e)\<lparr>lr_key := k\<rparr>) True)) (\<lambda>pst.
       commit_writes crc txn_id es (smap_emplace (fst e) pst positions))))"

text \<open>The second loop; its checks carry no message.\<close>

primrec commit_index :: "(bytes, LogRecord) smap \<Rightarrow> (bytes, LogRecordPst) smap \<Rightarrow> (st, unit) cmd" where
  "commit_index [] positions = ok ()"
| "commit_index (e # es) positions =
     CHECK_OK (if lr_type (snd e) = NormalLogRecord
               then CHECK_OK (index_Put (fst e) (map_of positions (fst e))) (\<lambda>b. CHECK_TRUE b None (ok ()))
               else if lr_type (snd e) = DeletedLogRecord
               then CHECK_OK (index_Delete (fst e)) (\<lambda>b. CHECK_TRUE b None (ok ()))
               else ok ()) (\<lambda>_. commit_index es positions)"

definition WriteBatch_Commit :: "crc_fun \<Rightarrow> (wst, unit) cmd" where
  "WriteBatch_Commit crc = (\<lambda>(wb, db, w).
     if pending_writes wb = [] then ok () (wb, db, w)
     else if length (pending_writes wb) > unat (max_batch_num (wb_options wb)) then err kNotSupported (wb, db, w)
     else let txn_id = db_txn_id db + 1
          in CHECK_OK (on_st (on_db (\<lambda>db. db\<lparr>db_txn_id := txn_id\<rparr>))) (\<lambda>_.
             CHECK_OK (commit_writes crc txn_id (pending_writes wb) []) (\<lambda>positions.
             CHECK_OK (run_outcome (EncodeLogRecordWithTxnID K_TXN_FINISHED_KEY txn_id)) (\<lambda>k.
             CHECK_OK (on_st (AppendLogRecord crc \<lparr>lr_key = k, lr_value = [], lr_type = TxnFinishedLogRecord\<rparr> True)) (\<lambda>_.
             CHECK_OK (\<lambda>(wb, s). on_st (commit_index (pending_writes wb) positions) (wb, s)) (\<lambda>_.
               on_batch (\<lambda>wb. wb\<lparr>committed := True\<rparr>)))))) (wb, db, w))"

definition WriteBatch_Rollback :: "(wst, unit) cmd" where
  "WriteBatch_Rollback = (\<lambda>(wb, s).
     if committed wb then err kCheckError (wb, s)
     else if rollbacked wb then err kCheckError (wb, s)
     else ok () (wb\<lparr>pending_writes := [], rollbacked := True\<rparr>, s))"

end
