(* ===== verification/Batch_Correct.thy ===== *)
theory Batch_Correct
  imports Batch
begin

text \<open>
  A committed batch is one update of the map, and until its last record is on disk the
  batch is not seen: neither by the running database nor by one that is opened from
  the files.
\<close>

section \<open>Records of a transaction\<close>

text \<open>The records of the unfinished transaction \<open>t\<close> in a log.\<close>

definition open_txn :: "crc_fun \<Rightarrow> log \<Rightarrow> u64 \<Rightarrow> (bytes \<times> LogRecordType \<times> LogRecordPst) list \<Rightarrow> bool" where
  "open_txn crc fs t us \<longleftrightarrow> (\<exists>m T c. replay (located crc fs) replay_init = Some (m, T, c) \<and> T (ucast t) = us)"

definition txn_record :: "u64 \<Rightarrow> LogRecord \<Rightarrow> LogRecord" where
  "txn_record t lr = lr\<lparr>lr_key := EncodeVarint64 t @ cstr (lr_key lr)\<rparr>"

definition txn_room :: "DB \<Rightarrow> LogRecord \<Rightarrow> bool" where
  "txn_room db lr \<longleftrightarrow> 19 + length (lr_key lr) + length (lr_value lr) < 2 ^ 31
     \<and> 19 + length (lr_key lr) + length (lr_value lr) \<le> unat (data_file_size (db_options db))"

lemma txn_room_simps [simp]: "txn_room (db\<lparr>db_txn_id := t\<rparr>) = txn_room db"
  by (simp add: txn_room_def fun_eq_iff)

lemma txn_record_fits:
  assumes "unat t < 2 ^ 28" and "txn_room db lr"
  shows "record_fits (txn_record t lr)"
    and "length (EncodeLogRecord crc (txn_record t lr)) \<le> unat (data_file_size (db_options db))"
proof -
  have l: "length (EncodeVarint64 t) \<le> 4" "EncodeVarint64 t \<noteq> []"
    using length_EncodeVarint64_le4 [of t] assms(1) by auto
  have k: "length (lr_key (txn_record t lr)) \<le> 4 + length (lr_key lr)" "lr_key (txn_record t lr) \<noteq> []"
    "lr_value (txn_record t lr) = lr_value lr"
    using l length_cstr_le [of "lr_key lr"] by (auto simp: txn_record_def)
  show "record_fits (txn_record t lr)"
    using k assms(2) by (simp add: record_fits_def txn_room_def layout_consts)
  show "length (EncodeLogRecord crc (txn_record t lr)) \<le> unat (data_file_size (db_options db))"
    using k assms(2) header_len_bounds(2) [of "txn_record t lr"]
    by (simp add: length_EncodeLogRecord txn_room_def K_MAX_LOG_RECORD_HEADER_SIZE_def)
qed

lemma replay_step_txn:
  assumes "unat t < 2 ^ 28" and "t \<noteq> K_NON_TXN_ID"
  shows "lr_type lr \<noteq> TxnFinishedLogRecord \<Longrightarrow> replay_step (pst, txn_record t lr) (m, T, c) =
      Some (m, T(ucast t := T (ucast t) @ [(cstr (lr_key lr), lr_type lr, pst)]), max c t)"
    and "lr_type lr = TxnFinishedLogRecord \<Longrightarrow> replay_step (pst, txn_record t lr) (m, T, c) =
      map_option (\<lambda>m'. (m', T(ucast t := []), max c t)) (upds_spec (T (ucast t)) m)"
  using DecodeLogRecordWithTxnID_enc [of t "cstr (lr_key lr)"] assms
  by (simp_all add: replay_step_def txn_record_def)

text \<open>Writing a record of a transaction that is not its last changes neither the index nor the map.\<close>

lemma append_txn:
  assumes inv: "db_inv crc (db, w) fs m" and ok: "healthy w" and t: "db_txn_id db = t" "t \<noteq> K_NON_TXN_ID" "unat t < 2 ^ 28"
    and ty: "lr_type lr \<noteq> TxnFinishedLogRecord" and room: "txn_room db lr" and ids: "unat (db_next_file_id db) + 1 < 2 ^ 32"
    and us: "open_txn crc fs t us"
  shows "\<exists>pst db' w' fs'. AppendLogRecord crc (txn_record t lr) True (db, w) = (Ok pst, db', w')
    \<and> appended crc (txn_record t lr) (db, w) fs pst (db', w') fs' \<and> db_inv crc (db', w') fs' m
    \<and> kv crc fs' m = kv crc fs m \<and> open_txn crc fs' t (us @ [(cstr (lr_key lr), lr_type lr, pst)])"
proof -
  note fits = txn_record_fits [OF t(3) room]
  obtain pst db' w' fs' where app: "AppendLogRecord crc (txn_record t lr) True (db, w) = (Ok pst, db', w')"
    "appended crc (txn_record t lr) (db, w) fs pst (db', w') fs'"
    using AppendLogRecord_ok [of crc db w fs "txn_record t lr"] inv ok fits ids by (force simp: db_inv_def)
  have log: "log_inv crc (dir_path (db_options db)) w' fs'" "located crc fs' = located crc fs @ [(pst, txn_record t lr)]"
    using app(2) by (auto simp: appended_def)
  have "live crc fs m" using inv by (simp add: db_inv_def)
  note live = live_append [OF log this]
  obtain T c where T: "replay (located crc fs) replay_init = Some (m, T, c)" "c \<le> t"
    "\<forall>u. t < u \<longrightarrow> unat u < 2 ^ 32 \<longrightarrow> T (ucast u) = []"
    using inv t(1) by (auto simp: db_inv_def)
  let ?T = "T(ucast t := T (ucast t) @ [(cstr (lr_key lr), lr_type lr, pst)])"
  have rep: "replay (located crc fs') replay_init = Some (m, ?T, max c t)"
    using T(1) by (simp add: log(2) replay_append replay_step_txn(1) [OF t(3,2) ty])
  have new: "\<forall>u. t < u \<longrightarrow> unat u < 2 ^ 32 \<longrightarrow> ?T (ucast u) = []"
    using T(3) ucast_u32_inject [of t] t(3) by force
  have "db_inv crc (db', w') fs' m"
    using inv app(2) live(1) rep new T(2) t(1) by (auto simp: db_inv_def appended_def same_db_def)
  moreover have "open_txn crc fs' t (us @ [(cstr (lr_key lr), lr_type lr, pst)])"
    using rep us T(1) by (auto simp: open_txn_def)
  ultimately show ?thesis using app live(2) by blast
qed

section \<open>The first loop\<close>

text \<open>The pending writes of a batch that has only seen \<open>Put\<close>.\<close>

definition puts_only :: "(bytes, LogRecord) smap \<Rightarrow> bool" where
  "puts_only ps \<longleftrightarrow> sorted_keys ps \<and> (\<forall>e \<in> set ps. lr_key (snd e) = fst e \<and> cstr (fst e) = fst e
     \<and> lr_type (snd e) = NormalLogRecord)"

definition batch_map :: "(bytes, LogRecord) smap \<Rightarrow> (bytes \<rightharpoonup> bytes)" where
  "batch_map ps k = map_option lr_value (map_of ps k)"

text \<open>The keys and the types of the pending writes, which is what the second loop reads.\<close>

definition key_types :: "(bytes, LogRecord) smap \<Rightarrow> (bytes \<times> LogRecordType) list" where
  "key_types ps = map (\<lambda>e. (fst e, lr_type (snd e))) ps"

lemma key_types_put:
  "map_of ps k = Some lr \<Longrightarrow> sorted_keys ps \<Longrightarrow> lr_type lr' = lr_type lr \<Longrightarrow> key_types (smap_put k lr' ps) = key_types ps"
  by (induction k lr' ps rule: smap_put.induct) (auto simp: key_types_def split: if_splits, fastforce dest: map_of_SomeD)

text \<open>
  What the loop has done with the entries \<open>es\<close>: their positions are those of records of the log
  with their values, and the log holds them as an unfinished transaction.
\<close>

definition written :: "crc_fun \<Rightarrow> u64 \<Rightarrow> (bytes, LogRecord) smap \<Rightarrow> (bytes, LogRecordPst) smap \<Rightarrow> log \<Rightarrow> bool" where
  "written crc t es positions fs \<longleftrightarrow>
     (\<forall>e \<in> set es. \<exists>pst. map_of positions (fst e) = Some pst
        \<and> map_of (located crc fs) pst = Some (txn_record t (snd e)))"

abbreviation txn_entries :: "(bytes, LogRecord) smap \<Rightarrow> (bytes, LogRecordPst) smap \<Rightarrow> (bytes \<times> LogRecordType \<times> LogRecordPst) list" where
  "txn_entries es positions \<equiv> map (\<lambda>e. (fst e, lr_type (snd e), the (map_of positions (fst e)))) es"

lemma commit_writes_step:
  assumes "EncodeLogRecordWithTxnID (lr_key (snd e)) t = Return (EncodeVarint64 t @ cstr (lr_key (snd e)))"
    and "AppendLogRecord crc (txn_record t (snd e)) True s = (Ok pst, s')"
  shows "commit_writes crc t (e # es) positions (wb, s) = commit_writes crc t es (smap_emplace (fst e) pst positions)
    (wb\<lparr>pending_writes := smap_put (fst e) (txn_record t (snd e)) (pending_writes wb)\<rparr>, s')"
  using assms by (simp add: CHECK_OK_def on_batch_def update_state_def on_st_def zoom_def txn_record_def)

lemma commit_writes_spec:
  assumes "db_inv crc (db, w) fs m" and "healthy w" and "db_txn_id db = t" "t \<noteq> K_NON_TXN_ID" "unat t < 2 ^ 28"
    and "\<forall>e \<in> set es. txn_room db (snd e) \<and> lr_type (snd e) \<noteq> TxnFinishedLogRecord \<and> cstr (lr_key (snd e)) = fst e
          \<and> map_of (pending_writes wb) (fst e) = Some (snd e) \<and> map_of positions (fst e) = None"
    and "distinct (map fst es)" and "sorted_keys (pending_writes wb)" and "unat (db_next_file_id db) + length es < 2 ^ 32"
    and "open_txn crc fs t us"
  shows "\<exists>positions' wb' db' w' fs'. commit_writes crc t es positions (wb, db, w) = (Ok positions', wb', db', w')
    \<and> db_inv crc (db', w') fs' m \<and> kv crc fs' m = kv crc fs m \<and> grown (length es) (db, w) (db', w') \<and> db_txn_id db' = t
    \<and> open_txn crc fs' t (us @ txn_entries es positions')
    \<and> written crc t es positions' fs' \<and> (\<forall>k. k \<notin> fst ` set es \<longrightarrow> map_of positions' k = map_of positions k)
    \<and> map_of (located crc fs) \<subseteq>\<^sub>m map_of (located crc fs')
    \<and> sorted_keys (pending_writes wb') \<and> key_types (pending_writes wb') = key_types (pending_writes wb)
    \<and> wb_options wb' = wb_options wb"
  using assms
proof (induction es arbitrary: wb db w fs us positions)
  case Nil
  show ?case using Nil.prems by (auto simp: ok_def written_def intro!: exI [of _ fs])
next
  case (Cons e es)
  let ?lr = "snd e"
  have e: "txn_room db ?lr" "lr_type ?lr \<noteq> TxnFinishedLogRecord" "cstr (lr_key ?lr) = fst e"
    "map_of (pending_writes wb) (fst e) = Some ?lr" "map_of positions (fst e) = None" using Cons.prems(6) by auto
  have ids: "unat (db_next_file_id db) + 1 < 2 ^ 32" using Cons.prems(9) by simp
  obtain pst db1 w1 fs1 where a: "AppendLogRecord crc (txn_record t ?lr) True (db, w) = (Ok pst, db1, w1)"
    "appended crc (txn_record t ?lr) (db, w) fs pst (db1, w1) fs1" "db_inv crc (db1, w1) fs1 m"
    "kv crc fs1 m = kv crc fs m" "open_txn crc fs1 t (us @ [(fst e, lr_type ?lr, pst)])"
    using append_txn [OF Cons.prems(1-5) e(2,1) ids Cons.prems(10)] e(3) by auto
  have g: "grown 1 (db, w) (db1, w1)" using appended_grown [OF a(2)] .
  let ?wb = "wb\<lparr>pending_writes := smap_put (fst e) (txn_record t ?lr) (pending_writes wb)\<rparr>"
  let ?pos = "smap_emplace (fst e) pst positions"
  have step: "commit_writes crc t (e # es) positions (wb, db, w) = commit_writes crc t es ?pos (?wb, db1, w1)"
    using commit_writes_step [OF EncodeLogRecordWithTxnID_Return [OF Cons.prems(5)] a(1)] by simp
  have notin: "fst e \<notin> fst ` set es" using Cons.prems(7) by simp
  then have fresh: "fst e' \<noteq> fst e" if "e' \<in> set es" for e' using that by (metis imageI)
  have "\<forall>e \<in> set es. txn_room db1 (snd e) \<and> lr_type (snd e) \<noteq> TxnFinishedLogRecord \<and> cstr (lr_key (snd e)) = fst e
      \<and> map_of (pending_writes ?wb) (fst e) = Some (snd e) \<and> map_of ?pos (fst e) = None"
    using Cons.prems(6) g fresh by (auto simp: grown_def txn_room_def map_of_smap_emplace split: option.split)
  moreover have "unat (db_next_file_id db1) + length es < 2 ^ 32" using g Cons.prems(9) by (simp add: grown_def)
  moreover have "healthy w1" using grown_healthy [OF g] Cons.prems(2) by simp
  moreover have "db_txn_id db1 = t" using a(2) Cons.prems(3) by (simp add: appended_def same_db_def)
  ultimately obtain pos' wb' db' w' fs' where r: "commit_writes crc t es ?pos (?wb, db1, w1) = (Ok pos', wb', db', w')"
    "db_inv crc (db', w') fs' m" "kv crc fs' m = kv crc fs1 m" "grown (length es) (db1, w1) (db', w')" "db_txn_id db' = t"
    "open_txn crc fs' t ((us @ [(fst e, lr_type ?lr, pst)]) @ txn_entries es pos')" "written crc t es pos' fs'"
    "\<forall>k. k \<notin> fst ` set es \<longrightarrow> map_of pos' k = map_of ?pos k" "map_of (located crc fs1) \<subseteq>\<^sub>m map_of (located crc fs')"
    "sorted_keys (pending_writes wb')" "key_types (pending_writes wb') = key_types (pending_writes ?wb)"
    "wb_options wb' = wb_options ?wb"
    using Cons.IH [OF a(3) _ _ Cons.prems(4,5) _ _ _ _ a(5), of ?wb ?pos] Cons.prems(7,8) by auto
  have pos_e: "map_of pos' (fst e) = Some pst" using r(8) [rule_format, OF notin] e(5) by (simp add: map_of_smap_emplace)
  have log: "log_inv crc (dir_path (db_options db)) w1 fs1" "located crc fs1 = located crc fs @ [(pst, txn_record t ?lr)]"
    using a(2) by (auto simp: appended_def)
  note fr = located_fresh [OF log]
  have sub: "map_of (located crc fs) \<subseteq>\<^sub>m map_of (located crc fs1)" using fr by (auto simp: map_le_def)
  have at: "map_of (located crc fs') pst = Some (txn_record t ?lr)"
    using r(9) fr(1) by (auto simp: map_le_def dom_def dest!: bspec)
  have "written crc t (e # es) pos' fs'" using r(7) pos_e at by (simp add: written_def)
  moreover have "open_txn crc fs' t (us @ txn_entries (e # es) pos')" using r(6) pos_e by simp
  moreover have "map_of pos' k = map_of positions k" if "k \<notin> fst ` set (e # es)" for k
    using r(8) that by (auto simp: map_of_smap_emplace split: option.split)
  moreover have "key_types (pending_writes wb') = key_types (pending_writes wb)"
    using r(11) key_types_put [OF e(4) Cons.prems(8)] by (simp add: txn_record_def)
  moreover have "grown (length (e # es)) (db, w) (db', w')" using grown_trans [OF g r(4)] by simp
  ultimately show ?case
    using step r(1-3,5,10,12) a(4) map_le_trans [OF sub r(9)] by (intro exI [of _ pos'] exI [of _ wb'] exI [of _ db'] exI [of _ w'] exI [of _ fs']) simp
qed

section \<open>The second loop\<close>

lemma commit_index_cong: "key_types ps = key_types qs \<Longrightarrow> commit_index ps positions = commit_index qs positions"
proof (induction ps arbitrary: qs)
  case (Cons e ps)
  then obtain e' qs' where "qs = e' # qs'" by (cases qs) (auto simp: key_types_def)
  then show ?case using Cons by (simp add: key_types_def)
qed (simp add: key_types_def)

lemma commit_index_spec:
  assumes "index_holds (db_index db) m"
    and "\<forall>e \<in> set es. lr_type (snd e) = NormalLogRecord \<and> cstr (fst e) = fst e \<and> map_of positions (fst e) \<noteq> None"
  shows "\<exists>i. commit_index es positions (db, w) = (Ok (), db\<lparr>db_index := i\<rparr>, w)
    \<and> index_holds i (m ++ (map_of positions |` (fst ` set es)))"
  using assms
proof (induction es arbitrary: db m)
  case Nil
  show ?case using Nil by (auto simp: ok_def intro!: exI [of _ "db_index db"])
next
  case (Cons e es)
  obtain pst where pst: "map_of positions (fst e) = Some pst" using Cons.prems(2) by auto
  obtain i where i: "index_Put (fst e) (Some pst) (db, w) = (Ok True, db\<lparr>db_index := i\<rparr>, w)"
    "index_holds i (m(fst e \<mapsto> pst))"
    using index_Put_holds [OF Cons.prems(1), of "fst e" pst w] Cons.prems(2) by auto
  have step: "commit_index (e # es) positions (db, w) = commit_index es positions (db\<lparr>db_index := i\<rparr>, w)"
    using i(1) pst Cons.prems(2) by (simp add: CHECK_OK_def ok_def)
  have eq: "m(fst e \<mapsto> pst) ++ (map_of positions |` (fst ` set es)) = m ++ (map_of positions |` (fst ` set (e # es)))"
    using pst by (auto simp: fun_eq_iff map_add_def restrict_map_def split: option.split)
  have "index_holds (db_index (db\<lparr>db_index := i\<rparr>)) (m(fst e \<mapsto> pst))" using i(2) by simp
  from Cons.IH [OF this] show ?case unfolding step eq using Cons.prems(2) by simp
qed

lemma upds_spec_puts:
  assumes "\<forall>e \<in> set es. lr_type (snd e) = NormalLogRecord \<and> map_of positions (fst e) \<noteq> None"
  shows "upds_spec (txn_entries es positions) m = Some (m ++ (map_of positions |` (fst ` set es)))"
  using assms
proof (induction es arbitrary: m)
  case (Cons e es)
  obtain pst where pst: "map_of positions (fst e) = Some pst" using Cons.prems by auto
  have eq: "m(fst e \<mapsto> pst) ++ (map_of positions |` (fst ` set es)) = m ++ (map_of positions |` (fst ` set (e # es)))"
    using pst by (auto simp: fun_eq_iff map_add_def restrict_map_def split: option.split)
  have "NormalLogRecord \<noteq> DeletedLogRecord" by (simp add: NormalLogRecord_def DeletedLogRecord_def)
  then show ?case using Cons eq pst by (simp add: upd_spec_def)
qed simp

section \<open>\<open>Commit\<close>\<close>

lemma append_finish:
  assumes inv: "db_inv crc (db, w) fs m" and ok: "healthy w" and t: "db_txn_id db = t" "t \<noteq> K_NON_TXN_ID" "unat t < 2 ^ 28"
    and ty: "lr_type lr = TxnFinishedLogRecord" and room: "txn_room db lr" and ids: "unat (db_next_file_id db) + 1 < 2 ^ 32"
    and us: "open_txn crc fs t us" and upd: "upds_spec us m = Some m'" and lv: "live crc fs m'"
  shows "\<exists>pst db' w' fs'. AppendLogRecord crc (txn_record t lr) True (db, w) = (Ok pst, db', w')
    \<and> grown 1 (db, w) (db', w') \<and> db_index db' = db_index db \<and> db_txn_id db' = t \<and> kv crc fs' m' = kv crc fs m'
    \<and> (\<forall>i. index_holds i m' \<longrightarrow> db_inv crc (db'\<lparr>db_index := i\<rparr>, w') fs' m')"
proof -
  note fits = txn_record_fits [OF t(3) room]
  obtain pst db' w' fs' where app: "AppendLogRecord crc (txn_record t lr) True (db, w) = (Ok pst, db', w')"
    "appended crc (txn_record t lr) (db, w) fs pst (db', w') fs'"
    using AppendLogRecord_ok [of crc db w fs "txn_record t lr"] inv ok fits ids by (force simp: db_inv_def)
  have log: "log_inv crc (dir_path (db_options db)) w' fs'" "located crc fs' = located crc fs @ [(pst, txn_record t lr)]"
    using app(2) by (auto simp: appended_def)
  note live = live_append [OF log lv]
  obtain T c where T: "replay (located crc fs) replay_init = Some (m, T, c)" "c \<le> t"
    "\<forall>u. t < u \<longrightarrow> unat u < 2 ^ 32 \<longrightarrow> T (ucast u) = []" "T (ucast t) = us"
    using inv us t(1) by (auto simp: db_inv_def open_txn_def)
  have rep: "replay (located crc fs') replay_init = Some (m', T(ucast t := []), max c t)"
    using T(1,4) upd by (simp add: log(2) replay_append replay_step_txn(2) [OF t(3,2) ty])
  have "db_inv crc (db'\<lparr>db_index := i\<rparr>, w') fs' m'" if "index_holds i m'" for i
    using inv app(2) live(1) rep T(2,3) t(1) that by (auto simp: db_inv_def appended_def same_db_def files_inv_def)
  moreover have "db_index db' = db_index db" "db_txn_id db' = t" using app(2) t(1) by (simp_all add: appended_def same_db_def)
  ultimately show ?thesis using app(1) appended_grown [OF app(2)] live(2) by blast
qed

text \<open>Room for the records of a batch and its last one.\<close>

definition finish_record :: LogRecord where
  "finish_record = \<lparr>lr_key = K_TXN_FINISHED_KEY, lr_value = [], lr_type = TxnFinishedLogRecord\<rparr>"

definition batch_room :: "DB \<Rightarrow> (bytes, LogRecord) smap \<Rightarrow> bool" where
  "batch_room db ps \<longleftrightarrow> (\<forall>e \<in> set ps. txn_room db (snd e)) \<and> txn_room db finish_record
     \<and> unat (db_next_file_id db) + length ps + 1 < 2 ^ 32 \<and> unat (db_txn_id db) + 1 < 2 ^ 28"

lemma db_inv_next_txn:
  assumes "db_inv crc (db, w) fs m" and "unat (db_txn_id db) + 1 < 2 ^ 28"
  shows "db_inv crc (db\<lparr>db_txn_id := db_txn_id db + 1\<rparr>, w) fs m" and "open_txn crc fs (db_txn_id db + 1) []"
    and "unat (db_txn_id db + 1) = unat (db_txn_id db) + 1"
proof -
  show u: "unat (db_txn_id db + 1) = unat (db_txn_id db) + 1" using assms(2) by (simp add: unat_word_ariths)
  obtain T c where T: "replay (located crc fs) replay_init = Some (m, T, c)" "c \<le> db_txn_id db"
    "\<forall>t. db_txn_id db < t \<longrightarrow> unat t < 2 ^ 32 \<longrightarrow> T (ucast t) = []" using assms(1) by (auto simp: db_inv_def)
  have lt: "db_txn_id db < db_txn_id db + 1" using u by (simp add: word_less_nat_alt)
  show "open_txn crc fs (db_txn_id db + 1) []" using T(1,3) lt u assms(2) by (auto simp: open_txn_def)
  have "c \<le> db_txn_id db + 1" using T(2) lt by simp
  moreover have "\<forall>t. db_txn_id db + 1 < t \<longrightarrow> unat t < 2 ^ 32 \<longrightarrow> T (ucast t) = []" using T(3) lt by (meson less_trans)
  ultimately show "db_inv crc (db\<lparr>db_txn_id := db_txn_id db + 1\<rparr>, w) fs m"
    using assms(1) T(1) by (auto simp: db_inv_def files_inv_def)
qed

lemma kv_batch:
  assumes "written crc t ps positions fs" and "sorted_keys ps"
  shows "kv crc fs (m ++ (map_of positions |` (fst ` set ps))) = kv crc fs m ++ batch_map ps"
proof
  fix k
  show "kv crc fs (m ++ (map_of positions |` (fst ` set ps))) k = (kv crc fs m ++ batch_map ps) k"
  proof (cases "map_of ps k")
    case None
    then have "k \<notin> fst ` set ps" by (simp add: map_of_eq_None_iff)
    then show ?thesis using None by (simp add: kv_def batch_map_def map_add_def)
  next
    case (Some lr)
    then have in_ps: "(k, lr) \<in> set ps" by (rule map_of_SomeD)
    then obtain pst where "map_of positions k = Some pst" "map_of (located crc fs) pst = Some (txn_record t lr)"
      using assms(1) unfolding written_def by (metis fst_conv snd_conv)
    moreover have "k \<in> fst ` set ps" using in_ps by force
    ultimately show ?thesis using Some by (simp add: kv_def batch_map_def map_add_def txn_record_def)
  qed
qed

lemma live_batch:
  assumes "written crc t ps positions fs" and "live crc fs m" and "puts_only ps"
  shows "live crc fs (m ++ (map_of positions |` (fst ` set ps)))"
  unfolding live_def
proof
  fix pst assume "pst \<in> ran (m ++ (map_of positions |` (fst ` set ps)))"
  then consider "pst \<in> ran m" | k where "k \<in> fst ` set ps" "map_of positions k = Some pst"
    by (auto simp: ran_def map_add_def restrict_map_def split: option.splits if_splits)
  then show "\<exists>lr. map_of (located crc fs) pst = Some lr \<and> lr_type lr \<noteq> DeletedLogRecord"
  proof cases
    case 2
    then obtain e where e: "e \<in> set ps" "map_of positions (fst e) = Some pst" by auto
    then have "map_of (located crc fs) pst = Some (txn_record t (snd e))" using assms(1) by (auto simp: written_def)
    moreover have "lr_type (snd e) \<noteq> DeletedLogRecord"
      using e(1) assms(3) by (simp add: puts_only_def NormalLogRecord_def DeletedLogRecord_def)
    ultimately show ?thesis by (simp add: txn_record_def)
  qed (use assms(2) in \<open>simp add: live_def\<close>)
qed

text \<open>
  The state between the two loops: after the first one, and after any part of it, the index and
  the map are those from before.
\<close>

lemma commit_writes_batch:
  assumes inv: "db_inv crc (db, w) fs m" and ok: "healthy w" and puts: "puts_only (pending_writes wb)"
    and room: "batch_room db (pending_writes wb)" and sub: "set es \<subseteq> set (pending_writes wb)" "distinct (map fst es)"
    and len: "length es \<le> length (pending_writes wb)"
  defines "t \<equiv> db_txn_id db + 1"
  shows "\<exists>positions wb' db' w' fs'. commit_writes crc t es [] (wb, db\<lparr>db_txn_id := t\<rparr>, w) = (Ok positions, wb', db', w')
    \<and> db_inv crc (db', w') fs' m \<and> kv crc fs' m = kv crc fs m \<and> grown (length es) (db, w) (db', w') \<and> db_txn_id db' = t
    \<and> open_txn crc fs' t (txn_entries es positions) \<and> written crc t es positions fs'
    \<and> key_types (pending_writes wb') = key_types (pending_writes wb)"
proof -
  let ?db = "db\<lparr>db_txn_id := t\<rparr>"
  have b: "unat (db_txn_id db) + 1 < 2 ^ 28" using room by (simp add: batch_room_def)
  note n = db_inv_next_txn [OF inv b, folded t_def]
  have t: "db_txn_id ?db = t" "t \<noteq> K_NON_TXN_ID" "unat t < 2 ^ 28" using n(3) b by (auto simp: K_NON_TXN_ID_def)
  have ps: "sorted_keys (pending_writes wb)" using puts by (simp add: puts_only_def)
  have nf: "NormalLogRecord \<noteq> TxnFinishedLogRecord" by (simp add: NormalLogRecord_def TxnFinishedLogRecord_def)
  have "map_of (pending_writes wb) (fst e) = Some (snd e)" if "e \<in> set es" for e
    using that sub(1) map_of_is_SomeI [OF sorted_keys_distinct [OF ps], of "fst e" "snd e"] by auto
  moreover have "txn_room ?db (snd e) \<and> lr_type (snd e) = NormalLogRecord \<and> cstr (lr_key (snd e)) = fst e" if "e \<in> set es" for e
    using puts room subsetD [OF sub(1) that] by (simp add: puts_only_def batch_room_def)
  ultimately have "\<forall>e \<in> set es. txn_room ?db (snd e) \<and> lr_type (snd e) \<noteq> TxnFinishedLogRecord \<and> cstr (lr_key (snd e)) = fst e
      \<and> map_of (pending_writes wb) (fst e) = Some (snd e) \<and> map_of [] (fst e) = None"
    using nf by simp
  moreover have "unat (db_next_file_id ?db) + length es < 2 ^ 32" using room len by (simp add: batch_room_def)
  ultimately obtain positions wb' db' w' fs' where r:
    "commit_writes crc t es [] (wb, ?db, w) = (Ok positions, wb', db', w')"
    "db_inv crc (db', w') fs' m" "kv crc fs' m = kv crc fs m" "grown (length es) (?db, w) (db', w')" "db_txn_id db' = t"
    "open_txn crc fs' t ([] @ txn_entries es positions)" "written crc t es positions fs'"
    "key_types (pending_writes wb') = key_types (pending_writes wb)"
    using commit_writes_spec [OF n(1) ok t _ sub(2) ps _ n(2), of "[]"] by blast
  moreover have "grown (length es) (db, w) (db', w')" using r(4) by (simp add: grown_def)
  ultimately show ?thesis by auto
qed

lemma Commit_steps:
  assumes "pending_writes wb \<noteq> []" and "length (pending_writes wb) \<le> unat (max_batch_num (wb_options wb))"
    and "commit_writes crc t (pending_writes wb) [] (wb, db\<lparr>db_txn_id := t\<rparr>, w) = (Ok positions, wb1, db1, w1)"
    and "t = db_txn_id db + 1" and "unat t < 2 ^ 28"
    and "AppendLogRecord crc (txn_record t finish_record) True (db1, w1) = (Ok pst, db2, w2)"
    and "commit_index (pending_writes wb1) positions (db2, w2) = (Ok (), db3, w3)"
  shows "WriteBatch_Commit crc (wb, db, w) = (Ok (), wb1\<lparr>committed := True\<rparr>, db3, w3)"
  using assms EncodeLogRecordWithTxnID_Return [of t K_TXN_FINISHED_KEY]
  by (simp add: WriteBatch_Commit_def Let_def CHECK_OK_def on_st_def zoom_def on_db_def update_state_def
      on_batch_def txn_record_def finish_record_def)

lemma Commit_inv:
  assumes inv: "db_inv crc (db, w) fs m" and ok: "healthy w" and puts: "puts_only (pending_writes wb)"
    and room: "batch_room db (pending_writes wb)" and ne: "pending_writes wb \<noteq> []"
    and max: "length (pending_writes wb) \<le> unat (max_batch_num (wb_options wb))"
  shows "\<exists>wb' s' fs' m'. WriteBatch_Commit crc (wb, db, w) = (Ok (), wb', s') \<and> committed wb'
    \<and> db_inv crc s' fs' m' \<and> kv crc fs' m' = kv crc fs m ++ batch_map (pending_writes wb)
    \<and> grown (length (pending_writes wb) + 1) (db, w) s' \<and> db_txn_id (fst s') = db_txn_id db + 1"
proof -
  let ?ps = "pending_writes wb" and ?t = "db_txn_id db + 1"
  have ps: "sorted_keys ?ps" using puts by (simp add: puts_only_def)
  obtain positions wb1 db1 w1 fs1 where c:
    "commit_writes crc ?t ?ps [] (wb, db\<lparr>db_txn_id := ?t\<rparr>, w) = (Ok positions, wb1, db1, w1)"
    "db_inv crc (db1, w1) fs1 m" "kv crc fs1 m = kv crc fs m" "grown (length ?ps) (db, w) (db1, w1)" "db_txn_id db1 = ?t"
    "open_txn crc fs1 ?t (txn_entries ?ps positions)" "written crc ?t ?ps positions fs1"
    "key_types (pending_writes wb1) = key_types ?ps"
    using commit_writes_batch [OF inv ok puts room subset_refl sorted_keys_distinct [OF ps] order_refl] by blast
  have b: "unat (db_txn_id db) + 1 < 2 ^ 28" using room by (simp add: batch_room_def)
  have t: "?t \<noteq> K_NON_TXN_ID" "unat ?t < 2 ^ 28" using db_inv_next_txn(3) [OF inv b] b by (auto simp: K_NON_TXN_ID_def)
  let ?m = "m ++ (map_of positions |` (fst ` set ?ps))"
  have pos: "\<forall>e \<in> set ?ps. lr_type (snd e) = NormalLogRecord \<and> cstr (fst e) = fst e \<and> map_of positions (fst e) \<noteq> None"
    using puts c(7) by (auto simp: puts_only_def written_def)
  have live: "live crc fs1 ?m" using live_batch [OF c(7) _ puts] c(2) by (simp add: db_inv_def)
  have fr: "txn_room db1 finish_record" "unat (db_next_file_id db1) + 1 < 2 ^ 32" "lr_type finish_record = TxnFinishedLogRecord"
    using room c(4) by (auto simp: batch_room_def grown_def txn_room_def finish_record_def)
  have "healthy w1" using grown_healthy [OF c(4)] ok by simp
  from append_finish [OF c(2) this c(5) t fr(3,1,2) c(6) _ live, of] upds_spec_puts [of ?ps positions m] pos
  obtain pst db2 w2 fs2 where f: "AppendLogRecord crc (txn_record ?t finish_record) True (db1, w1) = (Ok pst, db2, w2)"
    "grown 1 (db1, w1) (db2, w2)" "db_index db2 = db_index db1" "db_txn_id db2 = ?t" "kv crc fs2 ?m = kv crc fs1 ?m"
    "\<And>i. index_holds i ?m \<Longrightarrow> db_inv crc (db2\<lparr>db_index := i\<rparr>, w2) fs2 ?m" by blast
  have "index_holds (db_index db2) m" using c(2) f(3) by (simp add: db_inv_def)
  from commit_index_spec [OF this pos] obtain i where
    i: "commit_index ?ps positions (db2, w2) = (Ok (), db2\<lparr>db_index := i\<rparr>, w2)" "index_holds i ?m" by blast
  have "WriteBatch_Commit crc (wb, db, w) = (Ok (), wb1\<lparr>committed := True\<rparr>, db2\<lparr>db_index := i\<rparr>, w2)"
    using Commit_steps [OF ne max c(1) refl t(2) f(1)] i(1) commit_index_cong [OF c(8)] by simp
  moreover have "kv crc fs2 ?m = kv crc fs m ++ batch_map ?ps" using f(5) kv_batch [OF c(7) ps] c(3) by simp
  moreover have "grown (length ?ps + 1) (db, w) (db2\<lparr>db_index := i\<rparr>, w2)"
    using grown_index [OF grown_trans [OF c(4) f(2)]] .
  ultimately show ?thesis using f(4) f(6) [OF i(2)] by (intro exI [of _ "wb1\<lparr>committed := True\<rparr>"]) auto
qed

end
