(* ===== verification/Store.thy ===== *)
theory Store
  imports Open_Correct Batch_Correct
begin

text \<open>
  The contract of the storage engine towards its users, as an interface: operations
  that update a map, a lookup, and reopening, which keeps the map. Sequences of
  operations are treated once for the interface; the model's own definitions provide it.
\<close>

section \<open>The interface\<close>

primrec run_ops :: "('o \<Rightarrow> ('s, unit) cmd) \<Rightarrow> 'o list \<Rightarrow> ('s, unit) cmd" where
  "run_ops exec [] = ok ()"
| "run_ops exec (x # xs) = CHECK_OK (exec x) (\<lambda>_. run_ops exec xs)"

text \<open>Runs with a reopening after each part: what is on disk is all that is needed.\<close>

primrec run_parts :: "('o \<Rightarrow> ('s, unit) cmd) \<Rightarrow> ('s, unit) cmd \<Rightarrow> 'o list list \<Rightarrow> ('s, unit) cmd" where
  "run_parts exec reopen [] = ok ()"
| "run_parts exec reopen (p # ps) =
     CHECK_OK (run_ops exec p) (\<lambda>_. CHECK_OK reopen (\<lambda>_. run_parts exec reopen ps))"

text \<open>
  \<open>rep n s M\<close>: the state stands for the map \<open>M\<close> and has resources (file and transaction
  numbers) for operations of the total cost \<open>n\<close>.
\<close>

locale kv_store =
  fixes rep :: "nat \<Rightarrow> 's \<Rightarrow> (bytes \<rightharpoonup> bytes) \<Rightarrow> bool"
    and exec :: "'o \<Rightarrow> ('s, unit) cmd"
    and effect :: "'o \<Rightarrow> (bytes \<rightharpoonup> bytes) \<Rightarrow> (bytes \<rightharpoonup> bytes)"
    and cost :: "'o \<Rightarrow> nat"
    and fits :: "'o \<Rightarrow> bool"
    and get :: "bytes \<Rightarrow> ('s, bytes) cmd"
    and reopen :: "('s, unit) cmd"
  assumes exec_law: "rep (cost x + n) s M \<Longrightarrow> fits x \<Longrightarrow> \<exists>s'. exec x s = (Ok (), s') \<and> rep n s' (effect x M)"
    and get_law: "rep n s M \<Longrightarrow> k \<noteq> [] \<Longrightarrow> get k s = (case M (cstr k) of None \<Rightarrow> Err kNotFound | Some v \<Rightarrow> Ok v, s)"
    and reopen_law: "rep n s M \<Longrightarrow> \<exists>s'. reopen s = (Ok (), s') \<and> rep n s' M"
begin

lemma run_law:
  "rep (sum_list (map cost xs) + n) s M \<Longrightarrow> list_all fits xs
     \<Longrightarrow> \<exists>s'. run_ops exec xs s = (Ok (), s') \<and> rep n s' (fold effect xs M)"
proof (induction xs arbitrary: s M)
  case (Cons x xs)
  then have "rep (cost x + (sum_list (map cost xs) + n)) s M" "fits x" by (simp_all add: add.assoc)
  from exec_law [OF this] obtain s1 where s1: "exec x s = (Ok (), s1)" "rep (sum_list (map cost xs) + n) s1 (effect x M)" by blast
  from Cons.IH [OF s1(2)] Cons.prems(2) s1(1) show ?case by (auto simp: CHECK_OK_def)
qed (auto simp: ok_def)

lemma run_parts_law:
  "rep (sum_list (map cost (concat ps)) + n) s M \<Longrightarrow> list_all fits (concat ps)
     \<Longrightarrow> \<exists>s'. run_parts exec reopen ps s = (Ok (), s') \<and> rep n s' (fold effect (concat ps) M)"
proof (induction ps arbitrary: s M)
  case (Cons p ps)
  then have "rep (sum_list (map cost p) + (sum_list (map cost (concat ps)) + n)) s M" "list_all fits p"
    by (simp_all add: add.assoc)
  from run_law [OF this] obtain s1 where s1: "run_ops exec p s = (Ok (), s1)"
    "rep (sum_list (map cost (concat ps)) + n) s1 (fold effect p M)" by blast
  from reopen_law [OF s1(2)] obtain s2 where s2: "reopen s1 = (Ok (), s2)"
    "rep (sum_list (map cost (concat ps)) + n) s2 (fold effect p M)" by blast
  from Cons.IH [OF s2(2)] Cons.prems(2) s1(1) s2(1) show ?case by (auto simp: CHECK_OK_def)
qed (auto simp: ok_def)

lemma durable_law:
  assumes "rep (sum_list (map cost xs) + n) s M" and "list_all fits xs" and "k \<noteq> []"
  shows "\<exists>s1 s2. run_ops exec xs s = (Ok (), s1) \<and> reopen s1 = (Ok (), s2)
    \<and> get k s2 = (case fold effect xs M (cstr k) of None \<Rightarrow> Err kNotFound | Some v \<Rightarrow> Ok v, s2)"
  using run_law [OF assms(1,2)] reopen_law get_law [OF _ assms(3)] by metis

end

section \<open>The operations of a user\<close>

datatype user_op = OpPut bytes bytes | OpDelete bytes | OpBatch "(bytes \<times> bytes) list"

primrec batch_puts :: "(bytes \<times> bytes) list \<Rightarrow> (wst, unit) cmd" where
  "batch_puts [] = ok ()"
| "batch_puts (e # es) = CHECK_OK (WriteBatch_Put (fst e) (snd e)) (\<lambda>_. batch_puts es)"

text \<open>A new batch, its puts and its commit; the batch is dropped afterwards.\<close>

definition run_batch :: "crc_fun \<Rightarrow> WriteBatchOptions \<Rightarrow> (bytes \<times> bytes) list \<Rightarrow> (st, unit) cmd" where
  "run_batch crc wo es s =
     (let (r, _, s') = CHECK_OK (batch_puts es) (\<lambda>_. WriteBatch_Commit crc) (WriteBatch_init wo, s) in (r, s'))"

fun run_op :: "crc_fun \<Rightarrow> WriteBatchOptions \<Rightarrow> user_op \<Rightarrow> (st, unit) cmd" where
  "run_op crc wo (OpPut k v) = DB_Put crc k v"
| "run_op crc wo (OpDelete k) = DB_Delete crc k"
| "run_op crc wo (OpBatch es) = run_batch crc wo es"

text \<open>What it does to the map; of two puts of a key in one batch the first counts.\<close>

fun op_effect :: "user_op \<Rightarrow> (bytes \<rightharpoonup> bytes) \<Rightarrow> (bytes \<rightharpoonup> bytes)" where
  "op_effect (OpPut k v) M = M(cstr k \<mapsto> cstr v)"
| "op_effect (OpDelete k) M = M(cstr k := None)"
| "op_effect (OpBatch es) M = M ++ map_of (map (map_prod cstr cstr) es)"

fun op_cost :: "user_op \<Rightarrow> nat" where
  "op_cost (OpBatch es) = length es + 1"
| "op_cost _ = 1"

definition entry_fits :: "Options \<Rightarrow> bytes \<times> bytes \<Rightarrow> bool" where
  "entry_fits opts e \<longleftrightarrow> fst e \<noteq> [] \<and> 19 + length (fst e) + length (snd e) < 2 ^ 31
     \<and> 19 + length (fst e) + length (snd e) \<le> unat (data_file_size opts)"

fun op_fits :: "Options \<Rightarrow> WriteBatchOptions \<Rightarrow> user_op \<Rightarrow> bool" where
  "op_fits opts wo (OpPut k v) \<longleftrightarrow> entry_fits opts (k, v)"
| "op_fits opts wo (OpDelete k) \<longleftrightarrow> entry_fits opts (k, [])"
| "op_fits opts wo (OpBatch es) \<longleftrightarrow> list_all (entry_fits opts) es \<and> length es \<le> unat (max_batch_num wo)
     \<and> 31 \<le> unat (data_file_size opts)"

text \<open>\<open>Open\<close> of the files that are there, with its last argument.\<close>

definition reopen_db :: "crc_fun \<Rightarrow> Random \<Rightarrow> Options \<Rightarrow> bool \<Rightarrow> (st, unit) cmd" where
  "reopen_db crc r opts merge_after_open = (\<lambda>(db, w).
     case DB_Open crc r opts merge_after_open w of
       (Ok db', w') \<Rightarrow> (Ok (), db', w') | (Err c, w') \<Rightarrow> (Err c, db, w') | (Crash f, w') \<Rightarrow> (Crash f, db, w'))"

text \<open>
  A database that is ready for operations of the total cost \<open>n\<close>: the disk does what it is
  asked to, the directory holds nothing of a merge, file numbers stay in the range of \<open>int\<close>, and
  transaction numbers below \<open>2\<^sup>2\<^sup>8\<close>.
\<close>

definition ready :: "crc_fun \<Rightarrow> Options \<Rightarrow> nat \<Rightarrow> st \<Rightarrow> (bytes \<rightharpoonup> bytes) \<Rightarrow> bool" where
  "ready crc opts n s M \<longleftrightarrow> models crc s M \<and> crc_extends crc \<and> CheckOptions opts = None \<and> db_options (fst s) = opts
     \<and> healthy (snd s) \<and> listing (snd s) \<and> unmerged (dir_path opts) (snd s)
     \<and> unat (db_next_file_id (fst s)) + n \<le> 2 ^ 31 \<and> unat (db_txn_id (fst s)) + n < 2 ^ 28"

section \<open>The model provides the interface\<close>

lemma no_digit_name: "\<not> isdigit (hd n) \<Longrightarrow> n \<noteq> to_string k @ K_DATA_FILE_SUFFIX"
  using to_string_digits [of k] to_string_nonempty [of k] by (cases "to_string k") auto

lemma hint_no_data_file: "GetHintFileName dir \<noteq> GetDataFileName dir f" "GetMergedFileName dir \<noteq> GetDataFileName dir f"
proof -
  have "\<not> isdigit (hd K_HINT_FILE_NAME)" "\<not> isdigit (hd K_MERGED_FILE_NAME)"
    by (simp_all add: file_names isdigit_def)
  then show "GetHintFileName dir \<noteq> GetDataFileName dir f" "GetMergedFileName dir \<noteq> GetDataFileName dir f"
    using no_digit_name by (auto simp: GetHintFileName_def GetMergedFileName_def Format_path2 GetDataFileName_eq)
qed

lemma unmerged_same_world: "same_world dir w w' \<Longrightarrow> unmerged dir w \<Longrightarrow> unmerged dir w'"
  using hint_no_data_file by (auto simp: same_world_def unmerged_def IsFileExist_def)

lemma ready_grown:
  assumes "ready crc opts (k + n) s M" and "grown k s s'" and "models crc s' M'"
    and "unat (db_txn_id (fst s')) \<le> unat (db_txn_id (fst s)) + k"
  shows "ready crc opts n s' M'"
  using assms unmerged_same_world [of "dir_path opts" "snd s" "snd s'"] grown_healthy [OF assms(2)]
  by (auto simp: ready_def grown_def same_world_def listing_def)

lemma ready_inv:
  assumes "ready crc opts n s M"
  obtains fs m where "db_inv crc (fst s, snd s) fs m" and "M = kv crc fs m"
  using assms by (auto simp: ready_def models_def)

lemma Put_ready:
  assumes "ready crc opts (1 + n) s M" and "entry_fits opts (k, v)"
  shows "\<exists>s'. DB_Put crc k v s = (Ok (), s') \<and> ready crc opts n s' (M(cstr k \<mapsto> cstr v))"
proof -
  obtain fs m where i: "db_inv crc (fst s, snd s) fs m" "M = kv crc fs m" using ready_inv [OF assms(1)] .
  have h: "healthy (snd s)" "k \<noteq> []" "room_for (fst s) k v"
    using assms by (auto simp: ready_def entry_fits_def room_for_def)
  from Put_inv [OF i(1) h] obtain s' fs' m' where s': "DB_Put crc k v s = (Ok (), s')" "db_inv crc s' fs' m'"
    "grown 1 s s'" "db_txn_id (fst s') = db_txn_id (fst s)" "kv crc fs' m' = M(cstr k \<mapsto> cstr v)" using i(2) by auto
  have "models crc s' (M(cstr k \<mapsto> cstr v))" using s'(2,5) unfolding models_def by metis
  from ready_grown [OF assms(1) s'(3) this] s'(1,4) show ?thesis by simp
qed

lemma Delete_ready:
  assumes "ready crc opts (1 + n) s M" and "entry_fits opts (k, [])"
  shows "\<exists>s'. DB_Delete crc k s = (Ok (), s') \<and> ready crc opts n s' (M(cstr k := None))"
proof -
  obtain fs m where i: "db_inv crc (fst s, snd s) fs m" "M = kv crc fs m" using ready_inv [OF assms(1)] .
  have h: "healthy (snd s)" "k \<noteq> []" "room_for (fst s) k []"
    using assms by (auto simp: ready_def entry_fits_def room_for_def)
  from Delete_inv [OF i(1) h] obtain s' fs' m' where s': "DB_Delete crc k s = (Ok (), s')" "db_inv crc s' fs' m'"
    "grown 1 s s'" "db_txn_id (fst s') = db_txn_id (fst s)" "kv crc fs' m' = M(cstr k := None)" using i(2) by auto
  have "models crc s' (M(cstr k := None))" using s'(2,5) unfolding models_def by metis
  from ready_grown [OF assms(1) s'(3) this] s'(1,4) show ?thesis by simp
qed

subsection \<open>Batches\<close>

lemma set_smap_put: "set (smap_put k v m) \<subseteq> insert (k, v) (set m)"
  by (induction k v m rule: smap_put.induct) auto

lemma batch_puts_spec:
  assumes "puts_only (pending_writes wb)" and "\<forall>e \<in> set es. fst e \<noteq> []"
    and "\<forall>e \<in> set (pending_writes wb). txn_room db (snd e)" and "list_all (entry_fits (db_options db)) es"
  shows "\<exists>wb'. batch_puts es (wb, s) = (Ok (), wb', s) \<and> puts_only (pending_writes wb') \<and> wb_options wb' = wb_options wb
    \<and> batch_map (pending_writes wb') = map_of (map (map_prod cstr cstr) es) ++ batch_map (pending_writes wb)
    \<and> length (pending_writes wb') \<le> length (pending_writes wb) + length es
    \<and> (\<forall>e \<in> set (pending_writes wb'). txn_room db (snd e))"
  using assms
proof (induction es arbitrary: wb)
  case (Cons e es)
  let ?k = "cstr (fst e)" and ?lr = "\<lparr>lr_key = cstr (fst e), lr_value = cstr (snd e), lr_type = NormalLogRecord\<rparr>"
  let ?wb = "wb\<lparr>pending_writes := smap_emplace ?k ?lr (pending_writes wb)\<rparr>"
  have step: "batch_puts (e # es) (wb, s) = batch_puts es (?wb, s)"
    using Cons.prems(2) by (simp add: CHECK_OK_def WriteBatch_Put_def on_batch_def update_state_def)
  have new: "e' = (?k, ?lr) \<or> e' \<in> set (pending_writes wb)" if "e' \<in> set (pending_writes ?wb)" for e'
    using that set_smap_put [of ?k ?lr "pending_writes wb"] by (auto simp: smap_emplace_def split: if_splits)
  have sorted: "sorted_keys (pending_writes wb)" using Cons.prems(1) by (simp add: puts_only_def)
  then have puts: "puts_only (pending_writes ?wb)"
    using Cons.prems(1) new unfolding puts_only_def by fastforce
  have room: "\<forall>e \<in> set (pending_writes ?wb). txn_room db (snd e)"
    using Cons.prems(3,4) new length_cstr_le [of "fst e"] length_cstr_le [of "snd e"]
    by (fastforce simp: entry_fits_def txn_room_def)
  have len: "length (pending_writes ?wb) \<le> Suc (length (pending_writes wb))"
    using length_smap_put [OF sorted, of ?k ?lr] by (simp add: smap_emplace_def)
  have bm: "batch_map (pending_writes ?wb) = [?k \<mapsto> cstr (snd e)] ++ batch_map (pending_writes wb)"
    by (auto simp: batch_map_def fun_eq_iff map_add_def map_of_smap_emplace split: option.split)
  from Cons.IH [OF puts _ room] Cons.prems(2,4) obtain wb' where wb': "batch_puts es (?wb, s) = (Ok (), wb', s)"
    "puts_only (pending_writes wb')" "wb_options wb' = wb_options ?wb"
    "batch_map (pending_writes wb') = map_of (map (map_prod cstr cstr) es) ++ batch_map (pending_writes ?wb)"
    "length (pending_writes wb') \<le> length (pending_writes ?wb) + length es"
    "\<forall>e \<in> set (pending_writes wb'). txn_room db (snd e)" by auto
  have "batch_map (pending_writes wb') = map_of (map (map_prod cstr cstr) (e # es)) ++ batch_map (pending_writes wb)"
    unfolding wb'(4) bm by (cases e) (simp add: map_add_assoc)
  moreover have "length (pending_writes wb') \<le> length (pending_writes wb) + length (e # es)" using wb'(5) len by simp
  moreover have "wb_options wb' = wb_options wb" using wb'(3) by simp
  ultimately show ?case unfolding step using wb'(1,2,6) by blast
qed (auto simp: ok_def)

lemma Commit_ready:
  assumes "ready crc opts (length (pending_writes wb) + 1 + n) s M" and "puts_only (pending_writes wb)"
    and "batch_room (fst s) (pending_writes wb)" and "pending_writes wb \<noteq> []"
    and "length (pending_writes wb) \<le> unat (max_batch_num (wb_options wb))"
  shows "\<exists>wb' s'. WriteBatch_Commit crc (wb, s) = (Ok (), wb', s') \<and> committed wb'
    \<and> ready crc opts n s' (M ++ batch_map (pending_writes wb))"
proof -
  obtain fs m where i: "db_inv crc (fst s, snd s) fs m" "M = kv crc fs m" using ready_inv [OF assms(1)] .
  let ?M = "M ++ batch_map (pending_writes wb)"
  have "healthy (snd s)" using assms(1) by (simp add: ready_def)
  from Commit_inv [OF i(1) this assms(2-5)] obtain wb' s' fs' m' where
    c: "WriteBatch_Commit crc (wb, s) = (Ok (), wb', s')" "committed wb'" "db_inv crc s' fs' m'" "kv crc fs' m' = ?M"
    "grown (length (pending_writes wb) + 1) s s'" "db_txn_id (fst s') = db_txn_id (fst s) + 1"
    using i(2) by auto
  have "models crc s' ?M" using c(3,4) unfolding models_def by metis
  moreover have "unat (db_txn_id (fst s) + 1) \<le> unat (db_txn_id (fst s)) + 1" by (auto simp: unat_plus_if')
  ultimately have "ready crc opts n s' ?M" using ready_grown [OF assms(1) c(5)] c(6) by simp
  then show ?thesis using c(1,2) by blast
qed

lemma ready_mono: "ready crc opts n s M \<Longrightarrow> k \<le> n \<Longrightarrow> ready crc opts k s M"
  by (simp add: ready_def)

lemma run_batch_ready:
  assumes "ready crc opts (length es + 1 + n) s M" and "op_fits opts wo (OpBatch es)"
  shows "\<exists>s'. run_batch crc wo es s = (Ok (), s') \<and> ready crc opts n s' (M ++ map_of (map (map_prod cstr cstr) es))"
proof -
  obtain fs m where i: "db_inv crc (fst s, snd s) fs m" "M = kv crc fs m" using ready_inv [OF assms(1)] .
  let ?wb = "WriteBatch_init wo" and ?M = "M ++ map_of (map (map_prod cstr cstr) es)"
  have init: "pending_writes ?wb = []" "wb_options ?wb = wo" by (simp_all add: WriteBatch_init_def)
  have opts: "db_options (fst s) = opts" using assms(1) by (simp add: ready_def)
  have fits: "list_all (entry_fits (db_options (fst s))) es" using assms(2) opts by simp
  have keys: "\<forall>e \<in> set es. fst e \<noteq> []" using fits by (auto simp: list_all_iff entry_fits_def)
  obtain wb where wb: "batch_puts es (?wb, s) = (Ok (), wb, s)" "puts_only (pending_writes wb)" "wb_options wb = wo"
    "batch_map (pending_writes wb) = map_of (map (map_prod cstr cstr) es)" "length (pending_writes wb) \<le> length es"
    "\<forall>e \<in> set (pending_writes wb). txn_room (fst s) (snd e)"
    using batch_puts_spec [of ?wb es "fst s" s] keys fits init
    by (auto simp: puts_only_def batch_map_def map_add_def)
  have run: "run_batch crc wo es s = (let (r, _, s') = WriteBatch_Commit crc (wb, s) in (r, s'))"
    using wb(1) by (simp add: run_batch_def CHECK_OK_def)
  show ?thesis
  proof (cases "pending_writes wb = []")
    case True
    then have "WriteBatch_Commit crc (wb, s) = (Ok (), wb, s)" by (simp add: WriteBatch_Commit_def ok_def split: prod.split)
    moreover have "?M = M" using wb(4) True by (simp add: batch_map_def map_add_def fun_eq_iff flip: wb(4))
    moreover have "ready crc opts n s M" using assms(1) by (simp add: ready_def)
    ultimately show ?thesis using run by simp
  next
    case False
    have room: "batch_room (fst s) (pending_writes wb)"
      using assms wb(5,6) opts
      by (simp add: batch_room_def ready_def txn_room_def finish_record_def K_TXN_FINISHED_KEY_def str_def)
    have max: "length (pending_writes wb) \<le> unat (max_batch_num (wb_options wb))" using assms(2) wb(3,5) by simp
    have "ready crc opts (length (pending_writes wb) + 1 + n) s M" using ready_mono [OF assms(1)] wb(5) by simp
    from Commit_ready [OF this wb(2) room False max] obtain wb' s' where
      c: "WriteBatch_Commit crc (wb, s) = (Ok (), wb', s')" "ready crc opts n s' ?M" unfolding wb(4) by blast
    then show ?thesis using run by simp
  qed
qed

text \<open>A batch that stops after some of its records leaves the map as it was.\<close>

lemma unfinished_ready:
  assumes "ready crc opts (length (pending_writes wb) + 1 + n) s M" and puts: "puts_only (pending_writes wb)"
    and room: "batch_room (fst s) (pending_writes wb)"
  defines "t \<equiv> db_txn_id (fst s) + 1"
  shows "\<exists>positions wb' s'. commit_writes crc t (take k (pending_writes wb)) [] (wb, (fst s)\<lparr>db_txn_id := t\<rparr>, snd s)
      = (Ok positions, wb', s') \<and> ready crc opts n s' M"
proof -
  obtain fs m where i: "db_inv crc (fst s, snd s) fs m" "M = kv crc fs m" using ready_inv [OF assms(1)] .
  let ?es = "take k (pending_writes wb)"
  have ok: "healthy (snd s)" using assms(1) by (simp add: ready_def)
  have "distinct (map fst (pending_writes wb))" using puts by (intro sorted_keys_distinct) (simp add: puts_only_def)
  then have "distinct (map fst ?es)" by (simp add: take_map [symmetric] del: take_map)
  from commit_writes_batch [OF i(1) ok puts room set_take_subset this] obtain positions wb' db' w' fs' where
    c: "commit_writes crc t ?es [] (wb, (fst s)\<lparr>db_txn_id := t\<rparr>, snd s) = (Ok positions, wb', db', w')"
    "db_inv crc (db', w') fs' m" "kv crc fs' m = M" "grown (length ?es) s (db', w')" "db_txn_id db' = t"
    using i(2) by (auto simp: t_def)
  have "models crc (db', w') M" using c(2,3) unfolding models_def by metis
  moreover have "grown (length (pending_writes wb) + 1) s (db', w')" using grown_mono [OF c(4)] by simp
  moreover have "unat t \<le> unat (db_txn_id (fst s)) + 1" by (auto simp: t_def unat_plus_if')
  ultimately have "ready crc opts n (db', w') M" using ready_grown [OF assms(1)] c(5) by simp
  then show ?thesis using c(1) by blast
qed

lemma reopen_ready:
  assumes "ready crc opts n s M"
  shows "\<exists>s'. reopen_db crc r opts False s = (Ok (), s') \<and> ready crc opts n s' M"
proof -
  obtain fs m where i: "db_inv crc (fst s, snd s) fs m" "M = kv crc fs m" using ready_inv [OF assms] .
  have h: "crc_extends crc" "CheckOptions opts = None" "dir_path opts = dir_path (db_options (fst s))" "listing (snd s)"
    "unmerged (dir_path opts) (snd s)" "unat (db_next_file_id (fst s)) \<le> 2 ^ 31" using assms by (auto simp: ready_def)
  from Open_inv [OF i(1) h, of 3 r] obtain db' where db': "DB_Open crc r opts False (snd s) = (Ok db', snd s)"
    "db_inv crc (db', snd s) fs m" "db_options db' = opts" "db_next_file_id db' = db_next_file_id (fst s)"
    "db_txn_id db' \<le> db_txn_id (fst s)" by (auto simp: DB_Open_def numeral_eq_Suc simp del: Open_rec.simps)
  have "reopen_db crc r opts False s = (Ok (), db', snd s)" using db'(1) by (cases s) (simp add: reopen_db_def)
  moreover have "models crc (db', snd s) M" using db'(2) i(2) unfolding models_def by metis
  then have "ready crc opts n (db', snd s) M" using assms db'(3-5) by (auto simp: ready_def word_le_nat_alt)
  ultimately show ?thesis by blast
qed

lemma exec_ready:
  assumes "ready crc opts (op_cost x + n) s M" and "op_fits opts wo x"
  shows "\<exists>s'. run_op crc wo x s = (Ok (), s') \<and> ready crc opts n s' (op_effect x M)"
proof (cases x)
  case (OpPut k v)
  then show ?thesis using Put_ready [of crc opts n s M k v] assms by simp
next
  case (OpDelete k)
  then show ?thesis using Delete_ready [of crc opts n s M k] assms by simp
next
  case (OpBatch es)
  then show ?thesis using run_batch_ready [of crc opts es n s M wo] assms by simp
qed

lemma get_ready:
  assumes "ready crc opts n s M" and "k \<noteq> []"
  shows "DB_Get crc k True s = (case M (cstr k) of None \<Rightarrow> Err kNotFound | Some v \<Rightarrow> Ok v, s)"
proof -
  obtain fs m where i: "db_inv crc (fst s, snd s) fs m" "M = kv crc fs m" using ready_inv [OF assms(1)] .
  have "crc_extends crc" using assms(1) by (simp add: ready_def)
  from Get_inv [OF i(1) this assms(2)] i(2) show ?thesis by (simp split: option.split)
qed

interpretation db: kv_store "ready crc opts" "run_op crc wo" op_effect op_cost "op_fits opts wo"
    "\<lambda>k. DB_Get crc k True" "reopen_db crc r opts False"
  for crc opts wo r
  by unfold_locales (rule exec_ready get_ready reopen_ready, assumption+)+

end
