(* ===== verification/Merge_Correct.thy ===== *)
theory Merge_Correct
  imports Store
begin

text \<open>
  What \<open>Merge\<close> does: it writes to the mergence directory a log with one record for each key of the
  database, which stands for the same map, and a hint file with the positions in that log; the running
  database answers as before.
\<close>

section \<open>Keys of records\<close>

lemma DecodeVarint64_loop_pos: "DecodeVarint64_loop src r b n = Return (v, l) \<Longrightarrow> n < l"
proof (induction src arbitrary: r b n)
  case (Cons x src)
  show ?case
  proof (cases "x AND 0x80 \<noteq> 0")
    case True
    then obtain y where "DecodeVarint64_loop src y (b + 7) (n + 1) = Return (v, l)"
      using Cons.prems by (auto simp: bind_outcome_Return_iff)
    from Cons.IH [OF this] show ?thesis by simp
  qed (use Cons.prems in \<open>auto simp: bind_outcome_Return_iff\<close>)
qed simp

lemma decode_shorter:
  assumes "DecodeLogRecordWithTxnID key = Return (k, t)"
  shows "length k < length key"
proof -
  obtain l where l: "DecodeVarint64 (key @ [0]) = Return (t, l)" "l \<le> length key" "k = drop l key"
    using assms by (auto simp: DecodeLogRecordWithTxnID_def bind_outcome_Return_iff split: if_splits)
  have "0 < l" using DecodeVarint64_loop_pos l(1) by (simp add: DecodeVarint64_def)
  then show ?thesis using l(2,3) by auto
qed

text \<open>The key a record is about, without its transaction number.\<close>

definition rec_key :: "LogRecord \<Rightarrow> bytes option" where
  "rec_key lr = (case DecodeLogRecordWithTxnID (lr_key lr) of Return (k, t) \<Rightarrow> Some (cstr k) | Fault _ \<Rightarrow> None)"

text \<open>Every position of the index, and of the unfinished transactions, is that of a record about the key.\<close>

definition keyed :: "(LogRecordPst \<times> LogRecord) set \<Rightarrow> (bytes \<times> LogRecordPst) set \<Rightarrow> bool" where
  "keyed R A \<longleftrightarrow> (\<forall>k pst. (k, pst) \<in> A \<longrightarrow> (\<exists>lr. (pst, lr) \<in> R \<and> rec_key lr = Some k))"

definition map_set :: "('a \<rightharpoonup> 'b) \<Rightarrow> ('a \<times> 'b) set" where
  "map_set m = {(k, v). m k = Some v}"

definition pending :: "(u32 \<Rightarrow> (bytes \<times> LogRecordType \<times> LogRecordPst) list) \<Rightarrow> (bytes \<times> LogRecordPst) set" where
  "pending T = {(k, pst). \<exists>t ty. (k, ty, pst) \<in> set (T t)}"

lemma upd_spec_map_set: "upd_spec (k, ty, pst) m = Some m' \<Longrightarrow> map_set m' \<subseteq> insert (k, pst) (map_set m)"
  by (auto simp: upd_spec_def map_set_def split: if_splits)

lemma upds_spec_map_set:
  "upds_spec us m = Some m' \<Longrightarrow> map_set m' \<subseteq> (\<lambda>(k, ty, pst). (k, pst)) ` set us \<union> map_set m"
proof (induction us arbitrary: m)
  case (Cons u us)
  obtain k ty pst where u: "u = (k, ty, pst)" by (cases u)
  then obtain m1 where "upd_spec (k, ty, pst) m = Some m1" "upds_spec us m1 = Some m'"
    using Cons.prems by (auto split: bind_splits)
  with upd_spec_map_set [OF this(1)] Cons.IH [OF this(2)] u show ?case by auto
qed simp

lemma replay_step_keys:
  assumes "replay_step (pst, lr) (m, T, c) = Some (m', T', c')"
  shows "\<exists>k. rec_key lr = Some k \<and> map_set m' \<union> pending T' \<subseteq> insert (k, pst) (map_set m \<union> pending T)"
proof -
  obtain k t where d: "DecodeLogRecordWithTxnID (lr_key lr) = Return (k, t)"
    using assms by (auto simp: replay_step_def split: outcome.splits)
  note step = assms [unfolded replay_step_def prod.case d outcome.case]
  consider (single) "upd_spec (cstr k, lr_type lr, pst) m = Some m'" "T' = T"
    | (finish) "upds_spec (T (ucast t)) m = Some m'" "T' = T(ucast t := [])"
    | (more) "m' = m" "T' = T(ucast t := T (ucast t) @ [(cstr k, lr_type lr, pst)])"
  proof (cases "t = K_NON_TXN_ID")
    case True
    then show ?thesis using step that(1) by auto
  next
    case False
    then show ?thesis using step that(2,3) by (cases "lr_type lr = TxnFinishedLogRecord") auto
  qed
  then have "map_set m' \<union> pending T' \<subseteq> insert (cstr k, pst) (map_set m \<union> pending T)"
  proof cases
    case single
    then show ?thesis using upd_spec_map_set by blast
  next
    case finish
    have "(\<lambda>(k, ty, pst). (k, pst)) ` set (T (ucast t)) \<subseteq> pending T" by (auto simp: pending_def)
    moreover have "pending T' \<subseteq> pending T" using finish(2) by (auto simp: pending_def split: if_splits)
    ultimately show ?thesis using upds_spec_map_set [OF finish(1)] by blast
  next
    case more
    then show ?thesis by (auto simp: pending_def split: if_splits)
  qed
  then show ?thesis using d by (auto simp: rec_key_def)
qed

lemma replay_keys:
  assumes "replay rs (m, T, c) = Some (m', T', c')" and "keyed R (map_set m \<union> pending T)"
  shows "keyed (R \<union> set rs) (map_set m' \<union> pending T') \<and> (\<forall>(pst, lr) \<in> set rs. rec_key lr \<noteq> None)"
  using assms
proof (induction rs arbitrary: m T c R)
  case (Cons e rs)
  obtain pst lr where e: "e = (pst, lr)" by (cases e)
  obtain m1 T1 c1 where s: "replay_step (pst, lr) (m, T, c) = Some (m1, T1, c1)" "replay rs (m1, T1, c1) = Some (m', T', c')"
    using Cons.prems(1) e by (auto split: bind_splits)
  obtain k where k: "rec_key lr = Some k" "map_set m1 \<union> pending T1 \<subseteq> insert (k, pst) (map_set m \<union> pending T)"
    using replay_step_keys [OF s(1)] by blast
  have "keyed (insert e R) (map_set m1 \<union> pending T1)"
    unfolding keyed_def
  proof (intro allI impI)
    fix j p assume "(j, p) \<in> map_set m1 \<union> pending T1"
    then consider "(j, p) = (k, pst)" | "(j, p) \<in> map_set m \<union> pending T" using k(2) by blast
    then show "\<exists>lr. (p, lr) \<in> insert e R \<and> rec_key lr = Some j"
      using Cons.prems(2) k(1) e unfolding keyed_def by cases blast+
  qed
  from Cons.IH [OF s(2) this] show ?case using e k(1) by auto
qed auto

lemma index_keys:
  assumes "replay (located crc fs) replay_init = Some (m, T, c)"
  shows "m k = Some pst \<Longrightarrow> \<exists>lr. (pst, lr) \<in> set (located crc fs) \<and> rec_key lr = Some k"
    and "(pst, lr) \<in> set (located crc fs) \<Longrightarrow> rec_key lr \<noteq> None"
proof -
  have "keyed {} (map_set Map.empty \<union> pending (\<lambda>_. []))" by (simp add: keyed_def map_set_def pending_def)
  from replay_keys [OF assms [unfolded replay_init_def] this]
  have r: "keyed (set (located crc fs)) (map_set m \<union> pending T)" "\<forall>(pst, lr) \<in> set (located crc fs). rec_key lr \<noteq> None"
    by auto
  then show "m k = Some pst \<Longrightarrow> \<exists>lr. (pst, lr) \<in> set (located crc fs) \<and> rec_key lr = Some k"
    unfolding keyed_def map_set_def by blast
  show "(pst, lr) \<in> set (located crc fs) \<Longrightarrow> rec_key lr \<noteq> None" using r(2) by auto
qed

section \<open>The mergence directory\<close>

lemma PathBase_no_slash: "CHR ''/'' \<notin> set (PathBase p)"
  by (auto simp: PathBase_def dest: set_takeWhileD)

lemma mdir_names:
  shows "dirname (GetMergenceDirectory dir) = dir" and "basename (GetMergenceDirectory dir) = PathBase dir @ ''-merge''"
    and "GetMergenceDirectory dir \<noteq> dir"
proof -
  have eq: "GetMergenceDirectory dir = dir @ CHR ''/'' # (PathBase dir @ ''-merge'')"
    by (simp add: GetMergenceDirectory_def Format_path2 file_names)
  have ns: "CHR ''/'' \<notin> set (PathBase dir @ ''-merge'')" using PathBase_no_slash by simp
  show "dirname (GetMergenceDirectory dir) = dir" "basename (GetMergenceDirectory dir) = PathBase dir @ ''-merge''"
    unfolding eq by (rule dirname_path [OF ns], rule basename_path [OF ns])
  show "GetMergenceDirectory dir \<noteq> dir" unfolding eq by simp
qed

lemma other_names:
  shows "dirname (GetHintFileName d) = d" and "dirname (GetMergedFileName d) = d"
    and "basename (GetHintFileName d) = K_HINT_FILE_NAME" and "basename (GetMergedFileName d) = K_MERGED_FILE_NAME"
    and "GetHintFileName d \<noteq> GetMergedFileName d"
    and "basename (GetHintFileName d) \<noteq> ''.''" and "basename (GetMergedFileName d) \<noteq> ''.''"
  by (simp_all add: GetHintFileName_def GetMergedFileName_def Format_path2 dirname_path basename_path file_names)

text \<open>Every file and every directory below the top lies in a directory of the world.\<close>

definition rooted :: "world \<Rightarrow> bool" where
  "rooted w \<longleftrightarrow> (\<forall>p \<in> fst ` set (files w). dirname p \<in> set (dirs w)) \<and> (\<forall>d \<in> set (dirs w). dirname d = [] \<or> dirname d \<in> set (dirs w))"

lemma log_inv_set_other:
  assumes "log_inv crc dir w fs" and "content w p \<noteq> None" and "\<forall>f. p \<noteq> GetDataFileName dir f"
  shows "log_inv crc dir (set_content p c w) fs"
  using assms tidy_set_content [of dir w p c]
  by (auto simp: log_inv_def list_all_iff holds_file_def content_set_content)

lemma log_inv_open_other:
  assumes "log_inv crc dir w fs" and "\<forall>f. p \<noteq> GetDataFileName dir f" and "\<not> EndsWith (basename p) K_DATA_FILE_SUFFIX"
  shows "log_inv crc dir (open_create p w) fs"
proof -
  have "tidy dir (open_create p w)"
    using assms(1,3) by (auto simp: log_inv_def tidy_def open_create_def content_def map_of_eq_None_iff)
  then show ?thesis
    using assms(1,2) by (auto simp: log_inv_def list_all_iff holds_file_def content_open_create)
qed

text \<open>Opening a database in an empty directory; its merge returns at once.\<close>

lemma Open_empty:
  assumes "log_inv crc (dir_path opts) w []" and "listing w" and "unmerged (dir_path opts) w" and "CheckOptions opts = None"
  shows "\<exists>db. Open_rec (Suc (Suc d)) crc r opts b w = (Ok db, w) \<and> files_inv crc db [] \<and> db_options db = opts"
proof -
  let ?db = "DB_init r opts"
  obtain old where load: "LoadDataFiles (?db, w) = (Ok (), ?db\<lparr>db_file_ids := Some [], db_older := old,
      db_active := None, db_next_file_id := 0\<rparr>, w)" (is "_ = (_, ?db1, _)")
    using LoadDataFiles_spec [OF assms(1,2), of ?db] by (auto simp: DB_init_def small_ids_def)
  have idx: "LoadIndexFromDataFiles crc (?db1, w) = (Ok (), ?db1, w)" by (simp add: LoadIndexFromDataFiles_def ok_def)
  have opts: "db_options ?db = opts" "db_options ?db1 = opts" by (simp_all add: DB_init_def)
  have mrg: "Merge_rec (Suc d) crc r (?db1, w) = (Ok (), ?db1, w)" by (simp add: ok_def)
  have "CHECK_OK (LoadMergenceFiles crc) (\<lambda>_. CHECK_OK LoadDataFiles (\<lambda>_. CHECK_OK (LoadIndexFromHintFile crc) (\<lambda>_.
      CHECK_OK (LoadIndexFromDataFiles crc) (\<lambda>_. if b then Merge_rec (Suc d) crc r else ok ())))) (?db, w) = (Ok (), ?db1, w)"
    using no_merge_loads [of ?db w crc] no_merge_loads [of ?db1 w crc] assms(3) load idx mrg opts
    by (simp add: CHECK_OK_def ok_def del: Merge_rec.simps)
  moreover have "dir_path opts \<in> set (dirs w)" using assms(1) by (simp add: log_inv_def)
  ultimately have "Open_rec (Suc (Suc d)) crc r opts b w = (Ok ?db1, w)"
    using assms(4) by (simp add: CheckOrCreateDirectory_there ok_def del: Merge_rec.simps)
  moreover have "files_inv crc ?db1 []" by (simp add: files_inv_def)
  ultimately show ?thesis using opts by blast
qed

section \<open>The merged log\<close>

definition hint_rec :: "bytes \<times> LogRecordPst \<Rightarrow> LogRecord" where
  "hint_rec = (\<lambda>(k, pst). \<lparr>lr_key = k, lr_value = EncodeVarint32 (fid pst) @ EncodeVarint64 (offset pst), lr_type = 0\<rparr>)"

lemma length_to_string: "n < 10 ^ Suc k \<Longrightarrow> length (to_string n) \<le> Suc k"
proof (induction k arbitrary: n)
  case (Suc k)
  then have "n div 10 < 10 ^ Suc k" by (simp add: less_mult_imp_div_less mult.commute)
  then show ?case using Suc.IH [of "n div 10"] by (subst to_string.simps) simp
qed (subst to_string.simps, simp)

lemma merged_mark_length:
  "length (EncodeLogRecord crc \<lparr>lr_key = K_MERGED_LOG_RECORD_KEY, lr_value = str (to_string (unat (n :: u32))), lr_type = 0\<rparr>) < 2 ^ 31"
proof -
  let ?lr = "\<lparr>lr_key = K_MERGED_LOG_RECORD_KEY, lr_value = str (to_string (unat n)), lr_type = 0\<rparr> :: LogRecord"
  have "unat n < 10 ^ Suc 9" using unsigned_less [of n, where 'a = nat] by simp
  then have "length (to_string (unat n)) \<le> 10" using length_to_string by fastforce
  then show ?thesis using length_EncodeLogRecord_le [of crc ?lr] by (simp add: layout_consts K_MERGED_LOG_RECORD_KEY_def)
qed

lemma hint_rec_length:
  assumes "unat (offset pst) < 2 ^ 31" and "length k + 32 < 2 ^ 31"
  shows "K_MAX_LOG_RECORD_HEADER_SIZE + length (lr_key (hint_rec (k, pst))) + length (lr_value (hint_rec (k, pst))) < 2 ^ 31"
    and "length (EncodeLogRecord crc (hint_rec (k, pst))) < 2 ^ 31"
proof -
  have "length (EncodeVarint64 (offset pst)) \<le> 5"
    using assms(1) length_base128 [of "unat (offset pst)" 4] by (simp add: EncodeVarint64_base128)
  then show "K_MAX_LOG_RECORD_HEADER_SIZE + length (lr_key (hint_rec (k, pst))) + length (lr_value (hint_rec (k, pst))) < 2 ^ 31"
    using assms(2) length_EncodeVarint32 [of "fid pst"] by (simp add: hint_rec_def layout_consts)
  then show "length (EncodeLogRecord crc (hint_rec (k, pst))) < 2 ^ 31" using length_EncodeLogRecord_le [of crc "hint_rec (k, pst)"] by linarith
qed

text \<open>
  The directory \<open>d\<close> holds the log \<open>gs\<close> with one record for each key of the index \<open>m\<close> that it stands
  for, none of them of a transaction, and a hint file with the entries of that index.
\<close>

definition merged_log ::
    "crc_fun \<Rightarrow> string \<Rightarrow> world \<Rightarrow> log \<Rightarrow> (bytes \<rightharpoonup> LogRecordPst) \<Rightarrow> (bytes \<times> LogRecordPst) list \<Rightarrow> bool" where
  "merged_log crc d w gs m es \<longleftrightarrow>
     log_inv crc d w gs \<and> [] \<notin> snd ` set gs \<and> live crc gs m
     \<and> replay (located crc gs) replay_init = Some (m, (\<lambda>_. []), K_NON_TXN_ID)
     \<and> length (located crc gs) = length es \<and> map_of es = m \<and> distinct (map fst es)
     \<and> list_all (\<lambda>(k, pst). unat (offset pst) < 2 ^ 31 \<and> length k + 32 < 2 ^ 31) es
     \<and> content w (GetHintFileName d) = Some (file_bytes crc (map hint_rec es))"

text \<open>What copying a record leaves alone: everything outside of the directory; no file is named \<open>.\<close>.\<close>

definition only_in :: "string \<Rightarrow> world \<Rightarrow> world \<Rightarrow> bool" where
  "only_in d w w' \<longleftrightarrow> dirs w' = dirs w \<and> dir_order w' = dir_order w \<and> wr_script w' = wr_script w
     \<and> sync_script w' = sync_script w \<and> (\<forall>p. dirname p \<noteq> d \<or> basename p = ''.'' \<longrightarrow> content w' p = content w p)"

lemma only_in_trans: "only_in d a b \<Longrightarrow> only_in d b c \<Longrightarrow> only_in d a c"
  by (simp add: only_in_def)

lemma only_in_refl [simp]: "only_in d w w"
  by (simp add: only_in_def)

lemma only_in_healthy: "only_in d w w' \<Longrightarrow> healthy w \<Longrightarrow> healthy w'"
  by (simp add: only_in_def healthy_def)

lemma same_world_only_in: "same_world d w w' \<Longrightarrow> only_in d w w'"
proof -
  have "basename (GetDataFileName d f) \<noteq> ''.''" for f
    using basename_GetDataFileName [of d f] by (auto simp: K_DATA_FILE_SUFFIX_def append_eq_Cons_conv)
  then show "same_world d w w' \<Longrightarrow> only_in d w w'"
    unfolding same_world_def only_in_def using dirname_GetDataFileName by metis
qed

lemma only_in_set_content: "dirname p = d \<Longrightarrow> basename p \<noteq> ''.'' \<Longrightarrow> only_in d w (set_content p c w)"
  by (auto simp: only_in_def content_set_content)

lemma only_in_open_create: "dirname p = d \<Longrightarrow> basename p \<noteq> ''.'' \<Longrightarrow> only_in d w (open_create p w)"
  by (auto simp: only_in_def content_open_create)

text \<open>A record is written where the file has room for it.\<close>

lemma rotate_room:
  assumes "rotate_if_full n (db, w) = (Ok (), db', w')" and "n \<le> unat (data_file_size (db_options db))"
  shows "\<exists>df. db_active db' = Some df \<and> write_off df + n \<le> unat (data_file_size (db_options db))"
proof (cases "db_active db")
  case (Some df)
  show ?thesis
  proof (cases "write_off df + n > unat (data_file_size (db_options db))")
    case True
    obtain r df1 w1 where "DataFile_Sync (df, w) = (r, df1, w1)" by (metis prod_cases3)
    note sync = on_active_eq [where m = DataFile_Sync, OF Some this]
    have "r = Ok ()" using assms(1) Some True by (cases r) (auto simp: rotate_if_full_def CHECK_OK_def sync)
    then have "db_active db' = Some \<lparr>file_id = db_next_file_id db, write_off = 0,
        io_handler = GetDataFileName (dir_path (db_options db)) (db_next_file_id db)\<rparr>"
      using assms(1) Some True
      by (auto simp: rotate_if_full_def CHECK_OK_def sync retire_active_def ok_def NewActiveDataFile_eq)
    then show ?thesis using assms(2) by simp
  qed (use assms Some in \<open>auto simp: rotate_if_full_def ok_def\<close>)
qed (use assms in \<open>simp add: rotate_if_full_def crash_def\<close>)

lemma CHECK_OK_inv:
  assumes "CHECK_OK m k s = (Ok b, s')"
  obtains a s1 where "m s = (Ok a, s1)" and "k a s1 = (Ok b, s')"
  using assms by (auto simp: CHECK_OK_def split: prod.splits result.splits)

lemma append_offset:
  assumes "AppendLogRecord crc lr True (db, w) = (Ok pst, s')"
    and "length (EncodeLogRecord crc lr) \<le> unat (data_file_size (db_options db))" and "EncodeLogRecord crc lr \<noteq> []"
  shows "unat (offset pst) < unat (data_file_size (db_options db))"
proof -
  let ?n = "length (EncodeLogRecord crc lr)"
  have "CHECK_OK (if db_active db = None then NewActiveDataFile else ok ()) (\<lambda>_. CHECK_OK (rotate_if_full ?n)
      (\<lambda>_. write_active (EncodeLogRecord crc lr))) (db, w) = (Ok pst, s')"
    using assms(1) by (simp add: AppendLogRecord_def Let_def)
  then obtain u s1 where 1: "(if db_active db = None then NewActiveDataFile else ok ()) (db, w) = (Ok u, s1)"
    "CHECK_OK (rotate_if_full ?n) (\<lambda>_. write_active (EncodeLogRecord crc lr)) s1 = (Ok pst, s')" by (rule CHECK_OK_inv)
  obtain v s2 where 2: "rotate_if_full ?n s1 = (Ok v, s2)" "write_active (EncodeLogRecord crc lr) s2 = (Ok pst, s')"
    using CHECK_OK_inv [OF 1(2)] .
  have opts: "db_options (fst s1) = db_options db"
    using 1(1) by (auto simp: NewActiveDataFile_eq ok_def split: if_splits)
  obtain df where df: "db_active (fst s2) = Some df" "write_off df + ?n \<le> unat (data_file_size (db_options db))"
    using rotate_room [of ?n "fst s1" "snd s1" "fst s2" "snd s2"] 2(1) assms(2) opts by auto
  have "pst = \<lparr>fid = file_id df, offset = word_of_nat (write_off df)\<rparr>"
    using 2(2) df(1) by (cases s2) (auto simp: write_active_def ok_def elim!: CHECK_OK_inv)
  moreover have "0 < ?n" using assms(3) by simp
  then have "write_off df < unat (data_file_size (db_options db))" using df(2) by linarith
  ultimately show ?thesis
    using data_file_size_bound [of "db_options db"] unat_of_nat_64 [of "write_off df"] by simp
qed

text \<open>Copying the record of a key that is not yet there.\<close>

lemma copy_record:
  assumes ml: "merged_log crc d w gs m es" and fi: "files_inv crc temp gs" and d: "dir_path (db_options temp) = d"
    and ok: "healthy w" and new: "cstr key \<notin> dom m" and nd: "ty \<noteq> DeletedLogRecord"
    and fits: "record_fits lr" "length (EncodeLogRecord crc lr) \<le> unat (data_file_size (db_options temp))"
    and lr: "lr = \<lparr>lr_key = EncodeVarint64 K_NON_TXN_ID @ cstr key, lr_value = v, lr_type = ty\<rparr>"
    and ids: "unat (db_next_file_id temp) + 1 < 2 ^ 32" and small: "unat (data_file_size (db_options temp)) + 32 < 2 ^ 31"
    and hint: "io_handler hint = GetHintFileName d"
  shows "\<exists>pst temp' w1 hint' w2 gs'. AppendLogRecord crc lr True (temp, w) = (Ok pst, temp', w1)
    \<and> WriteHintRecord crc key pst (hint, w1) = (Ok (), hint', w2)
    \<and> merged_log crc d w2 gs' (m(cstr key \<mapsto> pst)) (es @ [(cstr key, pst)])
    \<and> kv crc gs' (m(cstr key \<mapsto> pst)) = (kv crc gs m)(cstr key \<mapsto> v)
    \<and> files_inv crc temp' gs' \<and> db_options temp' = db_options temp \<and> gs' \<noteq> []
    \<and> unat (db_next_file_id temp') \<le> unat (db_next_file_id temp) + 1
    \<and> io_handler hint' = GetHintFileName d \<and> only_in d w w2"
proof -
  let ?h = "GetHintFileName d"
  have log: "log_inv crc (dir_path (db_options temp)) w gs" using ml d by (simp add: merged_log_def)
  obtain pst temp' w1 gs' where app: "AppendLogRecord crc lr True (temp, w) = (Ok pst, temp', w1)"
    "appended crc lr (temp, w) gs pst (temp', w1) gs'"
    using AppendLogRecord_ok [OF log fi ok fits ids] by auto
  have ap: "log_inv crc d w1 gs'" "files_inv crc temp' gs'" "located crc gs' = located crc gs @ [(pst, lr)]"
    "same_world d w w1" "[] \<notin> snd ` set gs'" "unat (db_next_file_id temp') \<le> unat (db_next_file_id temp) + 1"
    "db_options temp' = db_options temp"
    using app(2) d ml by (auto simp: appended_def merged_log_def same_db_def)
  have "EncodeLogRecord crc lr \<noteq> []" using record_fits_nonempty [OF fits(1)] .
  from append_offset [OF app(1) fits(2) this] small have off: "unat (offset pst) < 2 ^ 31" by simp
  have "length (cstr key) \<le> length (EncodeLogRecord crc lr)" using lr fits(1) by (simp add: length_EncodeLogRecord record_fits_def)
  then have klen: "length (cstr key) + 32 < 2 ^ 31" using fits(2) small by linarith
  have hc: "content w1 ?h = Some (file_bytes crc (map hint_rec es))"
    using ml ap(4) hint_no_data_file(1) by (auto simp: merged_log_def same_world_def)
  define w2 where "w2 = set_content ?h (file_bytes crc (map hint_rec (es @ [(cstr key, pst)]))) w1"
  have "wr_script w1 = []" using ok ap(4) by (simp add: healthy_def same_world_def)
  then have wr: "WriteHintRecord crc key pst (hint, w1) = (Ok (), hint\<lparr>write_off := write_off hint +
      length (EncodeLogRecord crc (hint_rec (cstr key, pst)))\<rparr>, w2)"
    using DataFile_Write_ok [of w1 hint] hc hint position_roundtrip(1) [OF off] hint_rec_length(2) [OF off klen, of crc]
    by (simp add: WriteHintRecord_def CHECK_OK_def w2_def hint_rec_def)
  have live: "live crc gs m" using ml by (simp add: merged_log_def)
  note la = live_append [OF ap(1,3) live]
  have map: "map_of (es @ [(cstr key, pst)]) = m(cstr key \<mapsto> pst)"
    using ml new by (auto simp: merged_log_def fun_eq_iff map_add_def split: option.split)
  have "replay (located crc gs') replay_init = Some (m(cstr key \<mapsto> pst), (\<lambda>_. []), K_NON_TXN_ID)"
    using ml nd by (simp add: ap(3) replay_append merged_log_def lr replay_step_single upd_spec_def)
  moreover have "log_inv crc d w2 gs'"
    unfolding w2_def by (rule log_inv_set_other [OF ap(1)]) (use hc hint_no_data_file(1) in auto)
  moreover have "cstr key \<notin> fst ` set es" using ml new by (auto simp: merged_log_def dom_map_of_conv_image_fst)
  moreover have "lr_type lr \<noteq> DeletedLogRecord" using lr nd by simp
  ultimately have "merged_log crc d w2 gs' (m(cstr key \<mapsto> pst)) (es @ [(cstr key, pst)])"
    using ml ap(3,5) la(3) map off klen by (simp add: merged_log_def w2_def content_set_content)
  moreover have "only_in d w w2"
    unfolding w2_def by (rule only_in_trans [OF same_world_only_in [OF ap(4)] only_in_set_content]) (rule other_names)+
  moreover have "kv crc gs' (m(cstr key \<mapsto> pst)) = (kv crc gs m)(cstr key \<mapsto> v)" using la(4) lr by simp
  moreover have "gs' \<noteq> []" using ap(3) by auto
  ultimately show ?thesis using app(1) wr ap(2,6,7) hint by (intro exI conjI) (assumption | simp)+
qed

section \<open>The loop\<close>

text \<open>What is known about the log \<open>fs\<close> that is merged and the index \<open>m\<close> it stands for.\<close>

definition mergeable :: "crc_fun \<Rightarrow> log \<Rightarrow> (bytes \<rightharpoonup> LogRecordPst) \<Rightarrow> nat \<Rightarrow> bool" where
  "mergeable crc fs m sz \<longleftrightarrow> distinct (map fst (located crc fs)) \<and> live crc fs m
     \<and> (\<forall>k pst. m k = Some pst \<longrightarrow> (\<exists>lr. (pst, lr) \<in> set (located crc fs) \<and> rec_key lr = Some k))
     \<and> (\<forall>pst lr. (pst, lr) \<in> set (located crc fs) \<longrightarrow> rec_key lr \<noteq> None \<and> record_fits lr
          \<and> K_MAX_LOG_RECORD_HEADER_SIZE + length (lr_key lr) + length (lr_value lr) \<le> sz)
     \<and> length (located crc fs) + 2 < 2 ^ 31 \<and> sz + 32 < 2 ^ 31"

text \<open>The keys whose record is among the records \<open>pre\<close>.\<close>

definition covered :: "(bytes \<rightharpoonup> LogRecordPst) \<Rightarrow> (LogRecordPst \<times> LogRecord) list \<Rightarrow> bytes set" where
  "covered m pre = {k. \<exists>pst. m k = Some pst \<and> pst \<in> fst ` set pre}"

definition merge_inv ::
    "crc_fun \<Rightarrow> Options \<Rightarrow> world \<Rightarrow> log \<Rightarrow> (bytes \<rightharpoonup> LogRecordPst) \<Rightarrow> (LogRecordPst \<times> LogRecord) list
       \<Rightarrow> DB \<times> DataFile \<Rightarrow> world \<Rightarrow> bool" where
  "merge_inv crc opts w0 fs m pre = (\<lambda>(temp, hint) w. \<exists>gs m2 es.
     merged_log crc (dir_path opts) w gs m2 es \<and> files_inv crc temp gs \<and> db_options temp = opts
     \<and> dom m2 = covered m pre \<and> (\<forall>k \<in> covered m pre. kv crc gs m2 k = kv crc fs m k)
     \<and> unat (db_next_file_id temp) \<le> length pre \<and> io_handler hint = GetHintFileName (dir_path opts)
     \<and> only_in (dir_path opts) w0 w \<and> healthy w)"

lemma same_position:
  assumes "mergeable crc fs m sz" and "(pst, lr) \<in> set (located crc fs)" and "rec_key lr = Some k"
  shows "{j. m j = Some pst} = (if m k = Some pst then {k} else {})"
proof -
  have "j = k" if j: "m j = Some pst" for j
  proof -
    have d: "distinct (map fst (located crc fs))" using assms(1) by (simp add: mergeable_def)
    obtain lr' where "(pst, lr') \<in> set (located crc fs)" "rec_key lr' = Some j" using assms(1) j unfolding mergeable_def by blast
    moreover from this(1) have "lr' = lr" using eq_key_imp_eq_value [OF d _ assms(2)] by blast
    ultimately show ?thesis using assms(3) by simp
  qed
  then have "{j. m j = Some pst} \<subseteq> {k}" by blast
  then show ?thesis by (auto simp: subset_singleton_iff)
qed

lemma covered_snoc: "covered m (pre @ [(pst, lr)]) = covered m pre \<union> {k. m k = Some pst}"
  by (auto simp: covered_def)

lemma merge_record_step:
  assumes src: "mergeable crc fs m (unat (data_file_size opts))" and inv: "merge_inv crc opts w0 fs m pre th w"
    and rec: "(pst, lr) \<in> set (located crc fs)" "pst \<notin> fst ` set pre" "pst = \<lparr>fid = file_id df, offset = word_of_nat ofs\<rparr>"
    and ofs: "ofs < 2 ^ 64" and idx: "index_holds (db_index db) m" and len: "length pre < length (located crc fs)"
  shows "\<exists>th' w'. merge_record crc df lr ofs th (db, w) = (Ok th', db, w') \<and> merge_inv crc opts w0 fs m (pre @ [(pst, lr)]) th' w'"
proof -
  obtain temp hint where th: "th = (temp, hint)" by (cases th)
  obtain gs m2 es where i: "merged_log crc (dir_path opts) w gs m2 es" "files_inv crc temp gs" "db_options temp = opts"
    "dom m2 = covered m pre" "\<forall>k \<in> covered m pre. kv crc gs m2 k = kv crc fs m k" "unat (db_next_file_id temp) \<le> length pre"
    "io_handler hint = GetHintFileName (dir_path opts)" "only_in (dir_path opts) w0 w" "healthy w"
    using inv th by (auto simp: merge_inv_def)
  have src_rec: "rec_key lr \<noteq> None" "record_fits lr"
    "K_MAX_LOG_RECORD_HEADER_SIZE + length (lr_key lr) + length (lr_value lr) \<le> unat (data_file_size opts)"
    using src rec(1) by (auto simp: mergeable_def)
  then obtain key t where dec: "DecodeLogRecordWithTxnID (lr_key lr) = Return (key, t)"
    by (auto simp: rec_key_def split: outcome.splits)
  then have k: "rec_key lr = Some (cstr key)" by (simp add: rec_key_def)
  have at: "(case m (cstr key) of None \<Rightarrow> False | Some p \<Rightarrow> fid p = file_id df \<and> unat (offset p) = ofs) \<longleftrightarrow> m (cstr key) = Some pst"
    using rec(3) unat_of_nat_64 [OF ofs] by (auto split: option.split intro!: LogRecordPst.equality simp: word_unat_eq_iff)
  note cov = covered_snoc [of m pre pst lr] same_position [OF src rec(1) k]
  show ?thesis
  proof (cases "m (cstr key) = Some pst")
    case False
    then have "merge_record crc df lr ofs th (db, w) = (Ok th, db, w)"
      using dec at index_Get_holds [OF idx, of key w] by (simp add: merge_record_def th CHECK_OK_def ok_def)
    moreover have "covered m (pre @ [(pst, lr)]) = covered m pre" using cov False by simp
    then have "merge_inv crc opts w0 fs m (pre @ [(pst, lr)]) th w" using i th by (auto simp: merge_inv_def)
    ultimately show ?thesis by blast
  next
    case True
    let ?lr = "\<lparr>lr_key = EncodeVarint64 K_NON_TXN_ID @ cstr key, lr_value = lr_value lr, lr_type = lr_type lr\<rparr>"
    have lrk: "lr\<lparr>lr_key := EncodeVarint64 K_NON_TXN_ID @ cstr key\<rparr> = ?lr" by simp
    have located: "map_of (located crc fs) pst = Some lr" using src rec(1) by (simp add: mergeable_def)
    have nd: "lr_type lr \<noteq> DeletedLogRecord" using src located True by (auto simp: mergeable_def live_def ran_def)
    have shorter: "length (EncodeVarint64 K_NON_TXN_ID @ cstr key) \<le> length (lr_key lr)"
      using decode_shorter [OF dec] key_single(3) [of key] by linarith
    then have fits: "record_fits ?lr" "length (EncodeLogRecord crc ?lr) \<le> unat (data_file_size (db_options temp))"
      using src_rec(2,3) i(3) key_single(2) header_len_bounds(2) [of ?lr]
      by (auto simp: record_fits_def length_EncodeLogRecord)
    have new: "cstr key \<notin> dom m2" using i(4) True rec(2) by (auto simp: covered_def)
    have small: "unat (db_next_file_id temp) + 1 < 2 ^ 32" "unat (data_file_size (db_options temp)) + 32 < 2 ^ 31"
      using src i(3,6) len by (auto simp: mergeable_def)
    obtain pst2 temp' w1 hint' w2 gs' where c: "AppendLogRecord crc ?lr True (temp, w) = (Ok pst2, temp', w1)"
      "WriteHintRecord crc key pst2 (hint, w1) = (Ok (), hint', w2)"
      "merged_log crc (dir_path opts) w2 gs' (m2(cstr key \<mapsto> pst2)) (es @ [(cstr key, pst2)])"
      "kv crc gs' (m2(cstr key \<mapsto> pst2)) = (kv crc gs m2)(cstr key \<mapsto> lr_value lr)"
      "files_inv crc temp' gs'" "db_options temp' = db_options temp"
      "unat (db_next_file_id temp') \<le> unat (db_next_file_id temp) + 1"
      "io_handler hint' = GetHintFileName (dir_path opts)" "only_in (dir_path opts) w w2"
      using copy_record [OF i(1,2) _ i(9) new nd fits refl small i(7)] i(3) by blast
    have "AppendLogRecord crc (lr\<lparr>lr_key := EncodeVarint64 K_NON_TXN_ID @ cstr key\<rparr>) True (temp, w) = (Ok pst2, temp', w1)"
      using c(1) by (simp only: lrk)
    then have "merge_record crc df lr ofs th (db, w) = (Ok (temp', hint'), db, w2)"
      using dec True at index_Get_holds [OF idx, of key w] c(2)
      by (simp add: merge_record_def th CHECK_OK_def ok_def key_single(1) on_temp_def on_file_def)
    moreover have "kv crc fs m (cstr key) = Some (lr_value lr)" using True located by (simp add: kv_def)
    then have "merge_inv crc opts w0 fs m (pre @ [(pst, lr)]) (temp', hint') w2"
      unfolding merge_inv_def prod.case
      using c(3-8) i(3-6) cov True only_in_trans [OF i(8) c(9)] only_in_healthy [OF c(9) i(9)]
      by (intro exI [of _ gs'] exI [of _ "m2(cstr key \<mapsto> pst2)"] exI [of _ "es @ [(cstr key, pst2)]"]) auto
    ultimately show ?thesis by blast
  qed
qed

lemma held_file_only_in:
  "only_in d w w' \<Longrightarrow> dir \<noteq> d \<Longrightarrow> holds_file crc dir w' e \<longleftrightarrow> holds_file crc dir w e"
  by (simp add: only_in_def holds_file_def dirname_GetDataFileName)

lemma merge_inv_held:
  assumes "merge_inv crc opts w0 fs m pre th w" and "dir \<noteq> dir_path opts" and "holds_file crc dir w0 e"
  shows "holds_file crc dir w e"
proof -
  have "only_in (dir_path opts) w0 w" using assms(1) by (cases th) (auto simp: merge_inv_def)
  then show ?thesis using held_file_only_in assms(2,3) by blast
qed

lemma merge_file_loop:
  assumes src: "mergeable crc fs m (unat (data_file_size opts))" and fs: "located crc fs = pre @ recs_at crc (file_id df) 0 rs @ post"
    and inv: "merge_inv crc opts w0 fs m pre th w"
    and held: "holds_file crc dir w0 (file_id df, rs)" and h: "io_handler df = GetDataFileName dir (file_id df)"
    and dir: "dir \<noteq> dir_path opts" and ne: "rs \<noteq> []" and crc: "crc_extends crc" and idx: "index_holds (db_index db) m"
  shows "\<exists>th' w'. each_record crc df (merge_record crc df) th (db, w) = (Ok (length (file_bytes crc rs), th'), db, w')
    \<and> merge_inv crc opts w0 fs m (pre @ recs_at crc (file_id df) 0 rs) th' w'"
proof -
  define I where "I rs1 th1 s \<longleftrightarrow> fst s = db \<and> merge_inv crc opts w0 fs m (pre @ recs_at crc (file_id df) 0 rs1) th1 (snd s)" for rs1 th1 s
  have fits: "list_all record_fits rs" and small: "length (file_bytes crc rs) < 2 ^ 64" using held by (simp_all add: holds_file_def)
  have cont: "content (snd s) (io_handler df) = Some (file_bytes crc rs)" if "I rs1 th1 s" for rs1 th1 s
    using merge_inv_held [OF that [unfolded I_def, THEN conjunct2] dir held] h by (simp add: holds_file_def)
  have step: "\<exists>a' s'. merge_record crc df r (length (file_bytes crc rs1)) a s = (Ok a', s') \<and> I (rs1 @ [r]) a' s'"
    if rs: "rs = rs1 @ r # rs2" and i: "I rs1 a s" for rs1 r rs2 a s
  proof -
    let ?f = "file_id df" and ?ofs = "length (file_bytes crc rs1)"
    let ?pst = "\<lparr>fid = ?f, offset = word_of_nat ?ofs\<rparr>" let ?pre = "pre @ recs_at crc ?f 0 rs1"
    obtain w1 where w1: "s = (db, w1)" "merge_inv crc opts w0 fs m ?pre a w1" using i by (cases s) (auto simp: I_def)
    have loc: "located crc fs = ?pre @ (?pst, r) # recs_at crc ?f (?ofs + length (EncodeLogRecord crc r)) rs2 @ post"
      using fs by (simp add: rs recs_at_append)
    have "distinct (map fst (located crc fs))" using src by (simp add: mergeable_def)
    then have "?pst \<notin> fst ` set ?pre" unfolding loc by auto
    moreover have "(?pst, r) \<in> set (located crc fs)" "length ?pre < length (located crc fs)" using loc by simp_all
    moreover have "?ofs < 2 ^ 64" using small rs by simp
    ultimately obtain th1 w2 where "merge_record crc df r ?ofs a (db, w1) = (Ok th1, db, w2)"
      "merge_inv crc opts w0 fs m (?pre @ [(?pst, r)]) th1 w2" using merge_record_step [OF src w1(2) _ _ refl _ idx] by blast
    moreover have "?pre @ [(?pst, r)] = pre @ recs_at crc ?f 0 (rs1 @ [r])" by (simp add: recs_at_append)
    ultimately show ?thesis using w1(1) by (auto simp: I_def)
  qed
  have "I [] th (db, w)" using inv by (simp add: I_def)
  from each_record_inv [of I, OF this cont ne fits crc step] show ?thesis by (auto simp: I_def)
qed

lemma merge_files_loop:
  assumes src: "mergeable crc fs m (unat (data_file_size opts))" and fs: "fs = fs1 @ fs2"
    and inv: "merge_inv crc opts w0 fs m (located crc fs1) th w"
    and held: "list_all (holds_file crc dir w0) fs" "[] \<notin> snd ` set fs"
    and dfs: "map file_id dfs = map fst fs2" "\<forall>df \<in> set dfs. io_handler df = GetDataFileName dir (file_id df)"
    and dir: "dir \<noteq> dir_path opts" and crc: "crc_extends crc" and idx: "index_holds (db_index db) m"
  shows "\<exists>th' w'. merge_files crc dfs th (db, w) = (Ok th', db, w') \<and> merge_inv crc opts w0 fs m (located crc fs) th' w'"
  using fs inv dfs
proof (induction fs2 arbitrary: fs1 dfs th w)
  case Nil
  then show ?case by (auto simp: ok_def)
next
  case (Cons e fs2)
  define rs where "rs = snd e"
  then have e: "e = (fst e, rs)" by simp
  obtain df dfs' where df: "dfs = df # dfs'" "file_id df = fst e" "map file_id dfs' = map fst fs2"
    using Cons.prems(3) by (cases dfs) auto
  have h: "io_handler df = GetDataFileName dir (file_id df)" using Cons.prems(4) df(1) by simp
  have held_e: "holds_file crc dir w0 (file_id df, rs)" "rs \<noteq> []"
    using held Cons.prems(1) df(2) by (auto simp: list_all_iff rs_def)
  have loc: "located crc fs = located crc fs1 @ recs_at crc (file_id df) 0 rs @ located crc fs2"
    using Cons.prems(1) e df(2) by (metis located_simps(2,3))
  obtain th1 w1 where 1: "each_record crc df (merge_record crc df) th (db, w) = (Ok (length (file_bytes crc rs), th1), db, w1)"
    "merge_inv crc opts w0 fs m (located crc fs1 @ recs_at crc (file_id df) 0 rs) th1 w1"
    using merge_file_loop [OF src loc Cons.prems(2) held_e(1) h dir held_e(2) crc idx] by blast
  have "located crc (fs1 @ [e]) = located crc fs1 @ recs_at crc (file_id df) 0 rs"
    using e df(2) by (metis append_Nil2 located_simps)
  with Cons.IH [of "fs1 @ [e]" th1 w1 dfs'] Cons.prems(1,4) 1 df show ?case by (auto simp: CHECK_OK_def)
qed

section \<open>From the hint file to the mark of the end\<close>

lemma merged_log_start:
  assumes "log_inv crc d w []" and "content w (GetHintFileName d) = None"
  shows "merged_log crc d (open_create (GetHintFileName d) w) [] Map.empty []"
proof -
  have "\<not> EndsWith (basename (GetHintFileName d)) K_DATA_FILE_SUFFIX"
    by (simp add: other_names EndsWith_def file_names)
  then have "log_inv crc d (open_create (GetHintFileName d) w) []"
    using log_inv_open_other [OF assms(1)] hint_no_data_file(1) by blast
  moreover have "d \<in> set (dirs w)" using assms(1) by (simp add: log_inv_def)
  ultimately show ?thesis
    using assms(2) by (simp add: merged_log_def live_def replay_init_def content_open_create other_names)
qed

lemma merged_log_mark:
  assumes "merged_log crc d w gs m es"
  shows "merged_log crc d (set_content (GetMergedFileName d) c (open_create (GetMergedFileName d) w)) gs m es"
    and "content (open_create (GetMergedFileName d) w) (GetMergedFileName d) \<noteq> None"
proof -
  let ?p = "GetMergedFileName d" let ?w = "open_create ?p w"
  have log: "log_inv crc d w gs" using assms by (simp add: merged_log_def)
  then have "d \<in> set (dirs w)" by (simp add: log_inv_def)
  then show there: "content ?w ?p \<noteq> None" by (simp add: content_open_create other_names)
  have "\<not> EndsWith (basename ?p) K_DATA_FILE_SUFFIX" by (simp add: other_names EndsWith_def file_names)
  then have "log_inv crc d ?w gs" using log_inv_open_other [OF log] hint_no_data_file(2) by blast
  from log_inv_set_other [OF this there] hint_no_data_file(2) have "log_inv crc d (set_content ?p c ?w) gs" by blast
  moreover have "content (set_content ?p c ?w) (GetHintFileName d) = content w (GetHintFileName d)"
    using other_names(5) [of d] by (simp add: content_set_content content_open_create)
  ultimately show "merged_log crc d (set_content ?p c ?w) gs m es" using assms by (simp add: merged_log_def)
qed

lemma merge_inv_end:
  assumes src: "mergeable crc fs m sz" and inv: "merge_inv crc opts w0 fs m (located crc fs) (temp, hint) w" and ne: "m \<noteq> Map.empty"
  obtains gs m2 es where "merged_log crc (dir_path opts) w gs m2 es" and "kv crc gs m2 = kv crc fs m" and "dom m2 = dom m"
    and "files_inv crc temp gs" and "gs \<noteq> []" and "db_options temp = opts" and "io_handler hint = GetHintFileName (dir_path opts)"
    and "only_in (dir_path opts) w0 w" and "healthy w"
proof -
  obtain gs m2 es where i: "merged_log crc (dir_path opts) w gs m2 es" "files_inv crc temp gs" "db_options temp = opts"
    "dom m2 = covered m (located crc fs)" "\<forall>k \<in> covered m (located crc fs). kv crc gs m2 k = kv crc fs m k"
    "io_handler hint = GetHintFileName (dir_path opts)" "only_in (dir_path opts) w0 w" "healthy w"
    using inv by (auto simp: merge_inv_def)
  have "pst \<in> fst ` set (located crc fs)" if k: "m k = Some pst" for k pst
  proof -
    obtain lr where "(pst, lr) \<in> set (located crc fs)" using src k unfolding mergeable_def by blast
    then show ?thesis by force
  qed
  then have all: "covered m (located crc fs) = dom m" unfolding covered_def by blast
  have "kv crc gs m2 k = kv crc fs m k" for k
  proof (cases "k \<in> dom m")
    case False
    then have "m k = None" "m2 k = None" using i(4) all by blast+
    then show ?thesis by (simp add: kv_def)
  qed (use i(5) all in blast)
  then have kv: "kv crc gs m2 = kv crc fs m" by blast
  have "m2 \<noteq> Map.empty" using i(4) all ne by fastforce
  then have "gs \<noteq> []" using i(1) by (auto simp: merged_log_def replay_init_def)
  then show ?thesis using that i kv all by blast
qed

lemma merge_into_spec:
  assumes src: "mergeable crc fs m (unat (data_file_size opts))" and held: "list_all (holds_file crc dir w) fs" "[] \<notin> snd ` set fs"
    and dfs: "map file_id dfs = map fst fs" "\<forall>df \<in> set dfs. io_handler df = GetDataFileName dir (file_id df)"
    and dir: "dir \<noteq> dir_path opts" and crc: "crc_extends crc" and idx: "index_holds (db_index db) m" and ne: "m \<noteq> Map.empty"
    and temp: "files_inv crc temp []" "db_options temp = opts" and log: "log_inv crc (dir_path opts) w []"
    and ok: "healthy w" and fresh: "content w (GetHintFileName (dir_path opts)) = None"
  shows "\<exists>w' gs m2 es. merge_into crc (dir_path opts) n dfs temp (db, w) = (Ok (), db, w')
    \<and> merged_log crc (dir_path opts) w' gs m2 es \<and> kv crc gs m2 = kv crc fs m \<and> dom m2 = dom m
    \<and> content w' (GetMergedFileName (dir_path opts)) \<noteq> None \<and> only_in (dir_path opts) w w'"
proof -
  let ?d = "dir_path opts" let ?h = "GetHintFileName ?d" and ?p = "GetMergedFileName ?d" let ?w = "open_create ?h w"
  let ?hint = "\<lparr>file_id = 0, write_off = 0, io_handler = ?h\<rparr>" and ?mark = "\<lparr>file_id = 0, write_off = 0, io_handler = ?p\<rparr>"
  have h: "on_world (OpenHintFile ?d) (db, w) = (Ok ?hint, db, ?w)"
    by (simp add: on_world_def zoom_def OpenHintFile_def NewDataFile_def NewIOHandler_def ok_def)
  have "healthy ?w" using ok by (simp add: healthy_def)
  then have "merge_inv crc opts w fs m (located crc []) (temp, ?hint) ?w"
    using merged_log_start [OF log fresh] temp only_in_open_create [OF other_names(1,6), of ?d w]
    by (auto simp: merge_inv_def covered_def files_inv_def)
  from merge_files_loop [OF src append_Nil [symmetric] this held dfs dir crc idx] obtain temp1 hint1 w1 where
    1: "merge_files crc dfs (temp, ?hint) (db, ?w) = (Ok (temp1, hint1), db, w1)"
    "merge_inv crc opts w fs m (located crc fs) (temp1, hint1) w1" by force
  obtain gs m2 es where g: "merged_log crc ?d w1 gs m2 es" "kv crc gs m2 = kv crc fs m" "dom m2 = dom m" "files_inv crc temp1 gs" "gs \<noteq> []"
    "db_options temp1 = opts" "io_handler hint1 = ?h" "only_in ?d w w1" "healthy w1" using merge_inv_end [OF src 1(2) ne] .
  have sync: "sync_script w1 = []" "wr_script w1 = []" using g(9) by (auto simp: healthy_def)
  have s1: "on_file DataFile_Sync hint1 (db, w1) = (Ok (hint1, ()), db, w1)"
    using DataFile_Sync_ok [of w1 hint1] g(1,7) sync(1) by (simp add: on_file_def merged_log_def)
  obtain df where df: "db_active temp1 = Some df" "io_handler df = GetDataFileName ?d (fst (last gs))"
    using g(4-6) by (simp add: files_inv_def)
  have "holds_file crc ?d w1 (last gs)" using g(1,5) by (simp add: merged_log_def log_inv_def list_all_iff)
  then have "DataFile_Sync (df, w1) = (Ok (), df, w1)" using DataFile_Sync_ok [of w1 df] df(2) sync(1) by (simp add: holds_file_def)
  then have s2: "on_temp DB_Sync temp1 (db, w1) = (Ok (temp1, ()), db, w1)"
    using on_active_eq [where m = DataFile_Sync, OF df(1)] df(1) by (simp add: on_temp_def DB_Sync_def)
  define w2 where "w2 = open_create ?p w1"
  have o: "on_world (OpenMergedFile ?d) (db, w1) = (Ok ?mark, db, w2)"
    by (simp add: on_world_def zoom_def OpenMergedFile_def NewDataFile_def NewIOHandler_def ok_def w2_def)
  obtain c where c: "content w2 ?p = Some c" using merged_log_mark(2) [OF g(1)] w2_def by blast
  let ?bs = "EncodeLogRecord crc \<lparr>lr_key = K_MERGED_LOG_RECORD_KEY, lr_value = str (to_string (unat n)), lr_type = 0\<rparr>"
  define w3 where "w3 = set_content ?p (c @ ?bs) w2"
  let ?mark' = "?mark\<lparr>write_off := length ?bs\<rparr>"
  have wr: "on_file (DataFile_Write ?bs) ?mark (db, w2) = (Ok (?mark', ()), db, w3)"
    using DataFile_Write_ok [of w2 ?mark c ?bs] c sync(2) merged_mark_length [of crc n] by (simp add: on_file_def w3_def w2_def)
  have s3: "on_file DataFile_Sync ?mark' (db, w3) = (Ok (?mark', ()), db, w3)"
    using DataFile_Sync_ok [of w3 ?mark' "c @ ?bs"] sync(1) by (simp add: on_file_def w3_def w2_def content_set_content)
  have "merge_into crc ?d n dfs temp (db, w) = (Ok (), db, w3)"
    using h 1(1) s1 s2 o wr s3 by (simp add: merge_into_def CHECK_OK_def ok_def)
  moreover have "merged_log crc ?d w3 gs m2 es" unfolding w3_def w2_def by (rule merged_log_mark(1) [OF g(1)])
  moreover have "only_in ?d w w3" unfolding w3_def w2_def
    using only_in_trans [OF g(8) only_in_trans [OF only_in_open_create only_in_set_content]] other_names(2,7) by blast
  moreover have "content w3 ?p \<noteq> None" by (simp add: w3_def content_set_content)
  ultimately show ?thesis using g(2,3) by blast
qed

section \<open>\<open>Merge\<close>\<close>

text \<open>
  A database that is ready to be merged: its state stands for the index \<open>m\<close> of the log \<open>fs\<close>, which is not
  empty; \<open>older_files_\<close> has no other entries than the older files; the calls of the system succeed; there is
  no mergence directory; and the records fit into files whose offsets the hint file can hold.
\<close>

definition merge_ready :: "crc_fun \<Rightarrow> st \<Rightarrow> log \<Rightarrow> (bytes \<rightharpoonup> LogRecordPst) \<Rightarrow> bool" where
  "merge_ready crc = (\<lambda>(db, w) fs m. let opts = db_options db; dir = dir_path opts in
     db_inv crc (db, w) fs m \<and> m \<noteq> Map.empty \<and> \<not> db_is_merging db \<and> CheckOptions opts = None
     \<and> distinct (map fst (db_older db)) \<and> fst ` set (db_older db) = fst ` set (butlast fs)
     \<and> healthy w \<and> listing w \<and> rooted w \<and> unmerged dir w \<and> content w (GetMergenceDirectory dir) = None
     \<and> (\<forall>pst lr. (pst, lr) \<in> set (located crc fs)
          \<longrightarrow> K_MAX_LOG_RECORD_HEADER_SIZE + length (lr_key lr) + length (lr_value lr) \<le> unat (data_file_size opts))
     \<and> length (located crc fs) + 2 < 2 ^ 31 \<and> unat (data_file_size opts) + 32 < 2 ^ 31 \<and> unat (db_next_file_id db) + 1 < 2 ^ 32)"

lemma located_fits:
  assumes "log_inv crc dir w fs" and "(pst, lr) \<in> set (located crc fs)"
  shows "record_fits lr"
proof -
  obtain f rs1 rs2 where "(f, rs1 @ lr # rs2) \<in> set fs" using located_split [OF assms(2)] .
  then show ?thesis using assms(1) by (auto simp: log_inv_def list_all_iff holds_file_def)
qed

lemma merge_ready_source:
  assumes "merge_ready crc (db, w) fs m"
  shows "mergeable crc fs m (unat (data_file_size (db_options db)))" and "fs \<noteq> []"
proof -
  have inv: "db_inv crc (db, w) fs m" and ne: "m \<noteq> Map.empty" using assms by (auto simp: merge_ready_def Let_def)
  obtain T c where rep: "replay (located crc fs) replay_init = Some (m, T, c)" using inv by (auto simp: db_inv_def)
  have log: "log_inv crc (dir_path (db_options db)) w fs" and live: "live crc fs m" using inv by (auto simp: db_inv_def)
  show "fs \<noteq> []" using rep ne by (auto simp: replay_init_def)
  show "mergeable crc fs m (unat (data_file_size (db_options db)))"
    unfolding mergeable_def using log_inv_distinct [OF log] live index_keys [OF rep] located_fits [OF log] assms
    by (simp add: merge_ready_def Let_def)
qed

lemma map_sort_key: "map f (sort_key f xs) = sort (map f xs)"
  by (rule properties_for_sort [symmetric]) simp_all

text \<open>The files to be merged are those of the log in their order.\<close>

lemma files_to_merge_spec:
  assumes "distinct (map fst (db_older db))" and "fst ` set (db_older db) = fst ` set fs" and "sorted_wrt (\<lambda>a b. fst a < fst b) fs"
    and "\<forall>f \<in> fst ` set fs. \<exists>df. map_of (db_older db) f = Some (Some df) \<and> file_id df = f \<and> io_handler df = GetDataFileName dir f"
  shows "\<exists>dfs. files_to_merge (db, w) = (Ok dfs, db, w) \<and> map file_id dfs = map fst fs
    \<and> (\<forall>df \<in> set dfs. io_handler df = GetDataFileName dir (file_id df))"
proof -
  let ?o = "db_older db" let ?dfs = "sort_key file_id (map the (map snd ?o))"
  have entry: "\<exists>df. p = Some df \<and> file_id df = f \<and> io_handler df = GetDataFileName dir f" if "(f, p) \<in> set ?o" for f p
  proof -
    have "map_of ?o f = Some p" using assms(1) that by simp
    moreover have "f \<in> fst ` set fs" using assms(2) that by force
    ultimately show ?thesis using assms(4) by force
  qed
  have "None \<notin> set (map snd ?o)" using entry by force
  then have "files_to_merge (db, w) = (Ok ?dfs, db, w)" by (simp add: files_to_merge_def ok_def)
  moreover have "map file_id (map the (map snd ?o)) = map fst ?o" using entry by force
  then have "map file_id ?dfs = sort (map fst ?o)" by (simp only: map_sort_key)
  moreover have "sort (map fst ?o) = map fst fs"
  proof (rule sorted_distinct_set_unique)
    have "sorted_wrt (<) (map fst fs)" using assms(3) by (simp add: sorted_wrt_map)
    then show "sorted (map fst fs)" "distinct (map fst fs)" by (simp_all add: strict_sorted_iff)
  qed (use assms(1,2) in simp_all)
  moreover have "\<forall>df \<in> set ?dfs. io_handler df = GetDataFileName dir (file_id df)" using entry by force
  ultimately show ?thesis by metis
qed

text \<open>The new directory is empty, and no name in it is in use.\<close>

lemma fresh_directory:
  assumes root: "rooted w" and fresh: "d \<notin> set (dirs w)" and "d \<noteq> []" and "distinct (map fst (files w))" and d: "dirname d \<noteq> d"
    and w': "files w' = files w" "dirs w' = dirs w @ [d]"
  shows "log_inv crc d w' []" and "unmerged d w'" and "content w' (GetHintFileName d) = None"
proof -
  have f: "dirname p \<noteq> d" if "p \<in> fst ` set (files w)" for p using root fresh that by (auto simp: rooted_def)
  have none: "content w' p = None" if "dirname p = d" for p
    using f that w'(1) by (auto simp: content_def map_of_eq_None_iff)
  have g: "dirname e \<noteq> d" if "e \<in> set (dirs w')" for e
    using root fresh that \<open>d \<noteq> []\<close> d w'(2) by (auto simp: rooted_def)
  have data: "content w' (GetDataFileName d i) = None" for i by (rule none) (rule dirname_GetDataFileName)
  have "tidy d w'" using f g assms(4) w'(1) unfolding tidy_def by metis
  then show "log_inv crc d w' []" using data w'(2) by (simp add: log_inv_def)
  show "content w' (GetHintFileName d) = None" by (rule none) (rule other_names)
  have "content w' (GetMergedFileName d) = None" by (rule none) (rule other_names)
  moreover have "GetMergenceDirectory d \<notin> set (dirs w')" using g mdir_names(1) by blast
  moreover have "GetHintFileName d \<notin> set (dirs w')" "GetMergedFileName d \<notin> set (dirs w')" using g other_names(1,2) by blast+
  ultimately show "unmerged d w'" using \<open>content w' (GetHintFileName d) = None\<close> by (simp add: unmerged_def IsFileExist_def)
qed

lemma prepare_merge_dir_fresh:
  assumes "\<not> IsFileExist d w" and "dirname d \<in> set (dirs w)"
  shows "prepare_merge_dir d (db, w) = (Ok (), db, w\<lparr>dirs := dirs w @ [d]\<rparr>)"
  using assms
  by (simp add: prepare_merge_dir_def CHECK_OK_def ok_def CheckOrCreateDirectory_def IsFileExist_def mkdir_def CHECK_TRUE_def Let_def)

end
