(* ===== verification/Open_Errors.thy ===== *)
theory Open_Errors
  imports Open_Correct
begin

text \<open>
  Two directories that \<open>DB::Open\<close> refuses although a database has left them so: one with an
  empty data file, and one with the mergence directory of a finished merge.
\<close>

section \<open>An empty data file\<close>

lemma each_record_empty:
  assumes "content w (io_handler df) = Some []"
  shows "each_record crc df body a (db, w) = (Err kIOError, db, w)"
  using ReadLogRecord_empty_file [OF assms] by (simp add: each_record_def CHECK_OK_def on_world_def zoom_def)

lemma load_files_empty:
  assumes "list_all (holds_file crc dir w) fs" and "[] \<notin> snd ` set fs" and "crc_extends crc"
    and "\<forall>f \<in> insert f0 (fst ` set fs). \<exists>df. file_of f (db, w) = (Ok (Some df), db, w) \<and> io_handler df = GetDataFileName dir f"
    and "index_holds (db_index db) m" and "txns_hold txns T"
    and "replay (located crc fs) (m, T, c) = Some x" and "content w (GetDataFileName dir f0) = Some []"
  shows "\<exists>db'. load_files crc (\<lambda>_. False) (map fst fs @ f0 # ns) (txns, c) (db, w) = (Err kIOError, db', w)"
  using assms
proof (induction fs arbitrary: db m txns T c)
  case Nil
  then obtain df where "file_of f0 (db, w) = (Ok (Some df), db, w)" "content w (io_handler df) = Some []" by auto
  then show ?case by (simp add: CHECK_OK_def each_record_empty)
next
  case (Cons e fs)
  obtain f rs where e: "e = (f, rs)" by (cases e)
  obtain df where df: "file_of f (db, w) = (Ok (Some df), db, w)" "io_handler df = GetDataFileName dir f"
    using Cons.prems(4) e by auto
  have h: "content w (io_handler df) = Some (file_bytes crc rs)" "list_all record_fits rs" "rs \<noteq> []"
    using Cons.prems(1,2) e df(2) by (auto simp: holds_file_def)
  obtain m1 T1 c1 where s: "replay (recs_at crc f 0 rs) (m, T, c) = Some (m1, T1, c1)"
    "replay (located crc fs) (m1, T1, c1) = Some x"
    using Cons.prems(7) e by (auto simp: replay_append split: bind_splits)
  obtain i txns1 where i: "each_record crc df (load_record f) (txns, c) (db, w)
      = (Ok (length (file_bytes crc rs), txns1, c1), db\<lparr>db_index := i\<rparr>, w)" "index_holds i m1" "txns_hold txns1 T1"
    using each_record_spec [OF h(1,3,2) Cons.prems(3,5,6) s(1)] by blast
  have "load_files crc (\<lambda>_. False) (map fst (e # fs) @ f0 # ns) (txns, c) (db, w)
      = load_files crc (\<lambda>_. False) (map fst fs @ f0 # ns) (txns1, c1) (db\<lparr>db_index := i\<rparr>, w)"
    using e df(1) i(1) by (simp add: CHECK_OK_def ok_def)
  moreover have "\<forall>f \<in> insert f0 (fst ` set fs). \<exists>df. file_of f (db\<lparr>db_index := i\<rparr>, w) = (Ok (Some df), db\<lparr>db_index := i\<rparr>, w)
      \<and> io_handler df = GetDataFileName dir f" using Cons.prems(4) file_of_index by fastforce
  ultimately show ?case
    using Cons.IH [of "db\<lparr>db_index := i\<rparr>" m1 txns1 T1 c1] Cons.prems(1-3,8) i(2,3) s(2) by simp
qed

lemma DB_Open_Suc: "DB_Open = Open_rec (Suc 3)"
  by (simp add: DB_Open_def)

lemma Open_rec_err:
  assumes "CheckOptions opts = None" and "dir_path opts \<in> set (dirs w)" and un: "unmerged (dir_path opts) w"
    and "LoadDataFiles (DB_init r opts, w) = (Ok (), db1, w)" and "db_options db1 = opts"
    and "LoadIndexFromDataFiles crc (db1, w) = (Err c, db2, w)"
  shows "Open_rec (Suc d) crc r opts b w = (Err c, w)"
proof -
  have "db_options (DB_init r opts) = opts" by (simp add: DB_init_def)
  then have "CHECK_OK (LoadMergenceFiles crc) (\<lambda>_. CHECK_OK LoadDataFiles (\<lambda>_. CHECK_OK (LoadIndexFromHintFile crc) (\<lambda>_.
      CHECK_OK (LoadIndexFromDataFiles crc) (\<lambda>_. if b then Merge_rec d crc r else ok ())))) (DB_init r opts, w) = (Err c, db2, w)"
    using no_merge_loads [of "DB_init r opts" w crc] no_merge_loads [of db1 w crc] assms
    by (simp add: CHECK_OK_def)
  then show ?thesis using assms(1,2) by (simp add: CheckOrCreateDirectory_there err_def)
qed

text \<open>C23. A directory with an empty data file cannot be opened: if the files are those of a log, the
  one numbered \<open>f\<close> has no record, and the records of the files before it can be replayed, then
  \<open>Open\<close> fails with \<open>kIOError\<close>, whatever the other files hold. \<open>Merge\<close>, which by default
  \<open>Open\<close> itself calls, makes a new empty active file.\<close>

theorem empty_file_not_opened:
  assumes log: "log_inv crc (dir_path opts) w (fs @ (f, []) # gs)" and list: "listing w"
    and small: "small_ids (fs @ (f, []) # gs)" and un: "unmerged (dir_path opts) w"
    and opts: "CheckOptions opts = None" and crc: "crc_extends crc"
    and ne: "[] \<notin> snd ` set fs" and rep: "replay (located crc fs) replay_init \<noteq> None"
  shows "DB_Open crc r opts b w = (Err kIOError, w)"
proof -
  let ?db = "DB_init r opts" and ?fs = "fs @ (f, []) # gs" and ?dir = "dir_path opts"
  obtain old where load: "LoadDataFiles (?db, w) = (Ok (), ?db\<lparr>db_file_ids := Some (map fst ?fs), db_older := old,
        db_active := Some (opened ?dir (fst (last ?fs))), db_next_file_id := fst (last ?fs) + 1\<rparr>, w)" (is "_ = (_, ?db1, _)")
    "\<forall>f \<in> fst ` set (butlast ?fs). map_of old f = Some (Some (opened ?dir f))"
    using LoadDataFiles_spec [OF log list small, of ?db] by (auto simp: DB_init_def)
  have holds: "list_all (holds_file crc ?dir w) fs" "content w (GetDataFileName ?dir f) = Some []"
    using log by (simp_all add: log_inv_def holds_file_def)
  have files: "\<forall>g \<in> insert f (fst ` set fs). \<exists>df. file_of g (?db1, w) = (Ok (Some df), ?db1, w) \<and> io_handler df = GetDataFileName ?dir g"
    using log_file_of [of _ ?fs ?db1 ?dir w] load(2) by auto
  have idx: "index_holds (db_index ?db1) Map.empty"
    using NewIndexer_rep [of r "index_type opts"] by (simp add: index_holds_def DB_init_def)
  have "txns_hold [] (\<lambda>_. [])" by (simp add: txns_hold_def txn_lookup_def)
  then obtain db' where db': "load_files crc (\<lambda>_. False) (map fst ?fs) ([], K_NON_TXN_ID) (?db1, w) = (Err kIOError, db', w)"
    using load_files_empty [OF holds(1) ne crc files idx _ _ holds(2), where txns = "[]" and T = "\<lambda>_. []" and c = K_NON_TXN_ID
        and ns = "map fst gs"] rep by (auto simp: replay_init_def)
  have "\<not> IsFileExist (Format ''{}/{}'' [?dir, K_MERGED_FILE_NAME]) w"
    using un by (simp add: unmerged_def GetMergedFileName_def)
  then have "LoadIndexFromDataFiles crc (?db1, w) = (Err kIOError, db', w)"
    using db' by (simp add: LoadIndexFromDataFiles_def CHECK_OK_def ok_def Let_def DB_init_def)
  moreover have "?dir \<in> set (dirs w)" using log by (simp add: log_inv_def)
  moreover have "db_options ?db1 = opts" by (simp add: DB_init_def)
  ultimately show ?thesis
    unfolding DB_Open_Suc using Open_rec_err [OF opts _ un load(1)] by blast
qed

definition ex_small_opts :: Options where
  "ex_small_opts = \<lparr>dir_path = ''/db'', data_file_size = 4096, is_sync_write = True, index_type = TreeMapIndex\<rparr>"

definition ex_world_with :: "(string \<times> bytes) list \<Rightarrow> string list \<Rightarrow> world" where
  "ex_world_with fs ds = \<lparr>files = fs, dirs = ds, dir_order = rev, wr_script = [], sync_script = []\<rparr>"

lemma ex_empty_log: "log_inv sum_crc ''/db'' (ex_world_with [(GetDataFileName ''/db'' 0, [])] [''/db'']) [(0, [])]"
proof -
  have "GetDataFileName ''/db'' f = GetDataFileName ''/db'' 0 \<Longrightarrow> f = 0" for f by (metis name_id_basename)
  then show ?thesis
    by (auto simp: log_inv_def tidy_def holds_file_def content_def ex_world_with_def dirname_def)
qed

theorem empty_file_not_opened_witness:
  "DB_Open sum_crc (Random_init (\<lambda>s n. s + word_of_nat n) 1 (\<lambda>_. 0) 0 False) ex_small_opts True
     (ex_world_with [(GetDataFileName ''/db'' 0, [])] [''/db''])
   = (Err kIOError, ex_world_with [(GetDataFileName ''/db'' 0, [])] [''/db''])"
proof (rule empty_file_not_opened [where fs = "[]" and f = 0 and gs = "[]"])
  show "log_inv sum_crc (dir_path ex_small_opts) (ex_world_with [(GetDataFileName ''/db'' 0, [])] [''/db'']) ([] @ (0, []) # [])"
    using ex_empty_log by (simp add: ex_small_opts_def)
  show "unmerged (dir_path ex_small_opts) (ex_world_with [(GetDataFileName ''/db'' 0, [])] [''/db''])"
    by code_simp
qed (use sum_crc_extends in \<open>simp_all add: listing_def small_ids_def ex_small_opts_def ex_world_with_def CheckOptions_def\<close>)

section \<open>A finished merge\<close>

lemma CHECK_OK_succeeds: "fst (CHECK_OK m k s) = Ok x \<Longrightarrow> \<exists>a s'. m s = (Ok a, s') \<and> fst (k a s') = Ok x"
  by (auto simp: CHECK_OK_def split: prod.splits result.splits)

lemma basename_no_slash: "CHR ''/'' \<notin> set (basename p)"
  by (auto simp: basename_def dest: set_takeWhileD)

lemma readdir_no_slash:
  assumes "listing w" and "readdir d w = Some names"
  shows "''.'' \<in> set names" and "\<forall>n \<in> set names. CHR ''/'' \<notin> set n"
proof -
  let ?all = "''.'' # ''..'' # subnames d (map fst (files w)) @ subnames d (dirs w)"
  have "names = dir_order w ?all" using assms(2) by (simp add: readdir_def split: if_splits)
  then have "mset names = mset ?all" using assms(1) by (simp add: listing_def del: mset.simps)
  then have eq: "set names = set ?all" by (rule mset_eq_setD)
  show "''.'' \<in> set names" by (simp add: eq)
  have "CHR ''/'' \<notin> set n" if "n \<in> set ?all" for n
    using that basename_no_slash by (auto simp: subnames_def)
  then show "\<forall>n \<in> set names. CHR ''/'' \<notin> set n" unfolding eq by blast
qed

text \<open>The destination of a move is never the entry \<open>.\<close> of the mergence directory, which lies below.\<close>

lemma moved_elsewhere:
  assumes "CHR ''/'' \<notin> set n" and "n \<noteq> ''.''"
  shows "Format ''{}/{}'' [dir, n] \<noteq> Format ''{}/{}'' [GetMergenceDirectory dir, ''.'']"
proof
  assume eq: "Format ''{}/{}'' [dir, n] = Format ''{}/{}'' [GetMergenceDirectory dir, ''.'']"
  have base: "basename (Format ''{}/{}'' [d, k]) = k" if "CHR ''/'' \<notin> set k" for d k
    using basename_path [OF that, of d] by (simp add: Format_path2)
  have "n = ''.''" using base [OF assms(1), of dir] base [of "''.''" "GetMergenceDirectory dir"] by (simp add: eq)
  with assms(2) show False ..
qed

lemma move_files_dot:
  assumes "''.'' \<in> set names" and "\<forall>n \<in> set names. CHR ''/'' \<notin> set n"
    and "content w (Format ''{}/{}'' [GetMergenceDirectory dir, ''.'']) = None"
  shows "fst (move_files (GetMergenceDirectory dir) dir names w) \<noteq> Ok ()"
  using assms
proof (induction names arbitrary: w)
  case (Cons n names)
  let ?m = "GetMergenceDirectory dir" and ?dot = "Format ''{}/{}'' [GetMergenceDirectory dir, ''.'']"
  obtain r w' where r: "rename (Format ''{}/{}'' [?m, n]) (Format ''{}/{}'' [dir, n]) w = (r, w')" by fastforce
  show ?case
  proof (cases "r = 0")
    case True
    then have n: "n \<noteq> ''.''" using r Cons.prems(3) by (auto simp: rename_def)
    have "content w' ?dot = None"
      using r moved_elsewhere [OF _ n, of dir] Cons.prems(2,3)
      by (auto simp: rename_def content_def update_conv' delete_conv' split: option.splits)
    then show ?thesis using Cons.IH [of w'] Cons.prems n r True by (simp add: CHECK_TRUE_def)
  qed (simp add: r CHECK_TRUE_def CHECK_OK_def run_outcome_def GetDebugStr_def crash_def)
qed simp

lemma remove_merged_keeps: "remove_merged dir ns w = Return w' \<Longrightarrow> content w p = None \<Longrightarrow> content w' p = None"
  by (induction ns arbitrary: w)
    (auto simp: bind_outcome_Return_iff RemoveFile_def unlink_def content_def delete_conv' Let_def split: if_splits)

lemma on_world_Ok: "on_world m (db, w) = (Ok a, s') \<Longrightarrow> \<exists>w'. m w = (Ok a, w') \<and> s' = (db, w')"
  by (cases "m w") (auto simp: on_world_def zoom_def)

lemma GetNonMergedFileID_world:
  assumes "content w (GetMergedFileName d) \<noteq> None" and "GetNonMergedFileID crc d (db, w) = (Ok n, s')"
  shows "s' = (db, w)"
proof -
  have opn: "on_world (OpenMergedFile d) (db, w) = (Ok \<lparr>file_id = 0, write_off = 0, io_handler = GetMergedFileName d\<rparr>, db, w)"
    using assms(1) by (simp add: on_world_def zoom_def OpenMergedFile_def NewDataFile_def NewIOHandler_def open_create_def ok_def)
  from assms(2) obtain x s1 where x: "on_world (ReadLogRecord crc \<lparr>file_id = 0, write_off = 0, io_handler = GetMergedFileName d\<rparr> 0) (db, w) = (Ok x, s1)"
    "CHECK_OK (run_outcome (stoi (unstr (lr_value (fst x))))) (\<lambda>n. ok (word_of_int n)) s1 = (Ok n, s')"
    unfolding GetNonMergedFileID_def by (subst (asm) CHECK_OK_def)
      (auto simp: opn CHECK_OK_def [of "on_world (ReadLogRecord crc _ 0)"] split: prod.splits result.splits)
  obtain w1 where "s1 = (db, w1)" "ReadLogRecord crc \<lparr>file_id = 0, write_off = 0, io_handler = GetMergedFileName d\<rparr> 0 w = (Ok x, w1)"
    using on_world_Ok [OF x(1)] by blast
  then have "s1 = (db, w)" using ReadLogRecord_world by (metis snd_conv)
  then show ?thesis
    using x(2) by (auto simp: CHECK_OK_def run_outcome_def ok_def crash_def split: outcome.splits)
qed

lemma with_defer_Ok: "fst (with_defer d m s) = Ok x \<Longrightarrow> fst (m s) = Ok x"
  by (auto simp: with_defer_def split: prod.splits result.splits if_splits)

lemma merged_listed:
  assumes "listing w" and "readdir d w = Some names" and "content w (GetMergedFileName d) \<noteq> None"
  shows "K_MERGED_FILE_NAME \<in> set names"
proof -
  let ?all = "''.'' # ''..'' # subnames d (map fst (files w)) @ subnames d (dirs w)"
  have "names = dir_order w ?all" using assms(2) by (simp add: readdir_def split: if_splits)
  then have "mset names = mset ?all" using assms(1) by (simp add: listing_def del: mset.simps)
  then have eq: "set names = set ?all" by (rule mset_eq_setD)
  have path: "GetMergedFileName d = d @ CHR ''/'' # K_MERGED_FILE_NAME" by (simp add: GetMergedFileName_def Format_path2)
  have ns: "CHR ''/'' \<notin> set K_MERGED_FILE_NAME" by (simp add: K_MERGED_FILE_NAME_def)
  have "GetMergedFileName d \<in> set (map fst (files w))" using assms(3) by (simp add: content_def map_of_eq_None_iff)
  moreover have "dirname (GetMergedFileName d) = d" "basename (GetMergedFileName d) = K_MERGED_FILE_NAME"
    unfolding path by (rule dirname_path [OF ns], rule basename_path [OF ns])
  ultimately have "K_MERGED_FILE_NAME \<in> set (subnames d (map fst (files w)))" unfolding subnames_def by force
  then show ?thesis unfolding eq by simp
qed

lemma LoadMergenceFiles_dot:
  assumes list: "listing w" and dir: "GetMergenceDirectory (dir_path (db_options db)) \<in> set (dirs w)"
    and merged: "content w (GetMergedFileName (GetMergenceDirectory (dir_path (db_options db)))) \<noteq> None"
    and dot: "content w (Format ''{}/{}'' [GetMergenceDirectory (dir_path (db_options db)), ''.'']) = None"
  shows "fst (LoadMergenceFiles crc (db, w)) \<noteq> Ok ()"
proof
  let ?dir = "dir_path (db_options db)" let ?m = "GetMergenceDirectory ?dir"
  assume ok: "fst (LoadMergenceFiles crc (db, w)) = Ok ()"
  obtain names where names: "readdir ?m w = Some names" using dir by (simp add: readdir_def)
  have "fst (with_defer (on_world (world_call (RemoveDir ?m))) (CHECK_OK (GetNonMergedFileID crc ?m) (\<lambda>n.
      CHECK_OK (on_world (world_call (remove_merged ?dir [0..<unat n]))) (\<lambda>_. on_world (move_files ?m ?dir names)))) (db, w)) = Ok ()"
    using ok names merged_listed [OF list names merged] by (simp add: LoadMergenceFiles_def Let_def)
  from CHECK_OK_succeeds [OF with_defer_Ok [OF this]] obtain n s1 where s1: "GetNonMergedFileID crc ?m (db, w) = (Ok n, s1)"
    "fst (CHECK_OK (on_world (world_call (remove_merged ?dir [0..<unat n]))) (\<lambda>_. on_world (move_files ?m ?dir names)) s1) = Ok ()"
    by blast
  have "s1 = (db, w)" by (rule GetNonMergedFileID_world [OF merged s1(1)])
  with CHECK_OK_succeeds [OF s1(2)] obtain u s2 where s2: "on_world (world_call (remove_merged ?dir [0..<unat n])) (db, w) = (Ok u, s2)"
    "fst (on_world (move_files ?m ?dir names) s2) = Ok ()" by blast
  obtain w2 where w2: "world_call (remove_merged ?dir [0..<unat n]) w = (Ok u, w2)" "s2 = (db, w2)"
    using on_world_Ok [OF s2(1)] by blast
  have "remove_merged ?dir [0..<unat n] w = Return w2"
    using w2(1) by (auto simp: world_call_def ok_def crash_def split: outcome.splits)
  then have "content w2 (Format ''{}/{}'' [?m, ''.'']) = None" using remove_merged_keeps dot by blast
  from move_files_dot [OF readdir_no_slash [OF list names] this] s2(2) w2(2) show False
    by (simp add: on_world_def zoom_def split_beta)
qed

lemma Open_rec_Ok:
  assumes "dir_path opts \<in> set (dirs w)" and ok: "fst (Open_rec (Suc d) crc r opts b w) = Ok db"
  shows "fst (LoadMergenceFiles crc (DB_init r opts, w)) = Ok ()"
proof -
  let ?load = "\<lambda>_. CHECK_OK LoadDataFiles (\<lambda>_. CHECK_OK (LoadIndexFromHintFile crc) (\<lambda>_.
      CHECK_OK (LoadIndexFromDataFiles crc) (\<lambda>_. if b then Merge_rec d crc r else ok ())))"
  obtain x db' w' where x: "CHECK_OK (LoadMergenceFiles crc) ?load (DB_init r opts, w) = (x, db', w')" by (metis prod_cases3)
  have "x = Ok ()"
    using ok CheckOrCreateDirectory_there [OF assms(1)] x
    by (auto simp: err_def crash_def ok_def CHECK_TRUE_def split: option.splits result.splits)
  with x have "fst (CHECK_OK (LoadMergenceFiles crc) ?load (DB_init r opts, w)) = Ok ()" by simp
  from CHECK_OK_succeeds [OF this] show ?thesis by auto
qed

text \<open>If the mergence directory has the file that marks a merge as finished, \<open>Open\<close> does not succeed,
  because \<open>LoadMergenceFiles\<close> also tries to rename the entry \<open>.\<close> of that directory.\<close>

lemma finished_merge_refused:
  assumes "listing w" and "dir_path opts \<in> set (dirs w)" and "GetMergenceDirectory (dir_path opts) \<in> set (dirs w)"
    and "content w (GetMergedFileName (GetMergenceDirectory (dir_path opts))) \<noteq> None"
    and "content w (Format ''{}/{}'' [GetMergenceDirectory (dir_path opts), ''.'']) = None"
  shows "fst (DB_Open crc r opts b w) \<noteq> Ok db"
proof
  assume "fst (DB_Open crc r opts b w) = Ok db"
  then have "fst (LoadMergenceFiles crc (DB_init r opts, w)) = Ok ()"
    unfolding DB_Open_Suc by (rule Open_rec_Ok [OF assms(2)])
  moreover have "dir_path (db_options (DB_init r opts)) = dir_path opts" by (simp add: DB_init_def)
  ultimately show False using LoadMergenceFiles_dot [of w "DB_init r opts" crc] assms by simp
qed

end
