(* ===== verification/Merge_Store.thy ===== *)
theory Merge_Store
  imports Merge_Correct Open_Errors
begin

text \<open>
  \<open>Merge\<close> as a whole, and loading an index from the hint file it writes.
\<close>

section \<open>The steps of a merge\<close>

text \<open>The state after the active file was retired and a new one was created.\<close>

definition retired :: "DB \<Rightarrow> DataFile \<Rightarrow> DB" where
  "retired db df = db\<lparr>db_is_merging := True, db_older := AList.update (file_id df) (Some df) (db_older db),
     db_next_file_id := db_next_file_id db + 1,
     db_active := Some \<lparr>file_id = db_next_file_id db, write_off = 0,
       io_handler = GetDataFileName (dir_path (db_options db)) (db_next_file_id db)\<rparr>\<rparr>"

lemma retired_simps [simp]:
  "db_options (retired db df) = db_options db" "db_index (retired db df) = db_index db"
  "db_older (retired db df) = AList.update (file_id df) (Some df) (db_older db)"
  by (simp_all add: retired_def)

lemma Merge_rec_eq:
  assumes act: "db_active db = Some df" and nm: "\<not> db_is_merging db" and sync: "DataFile_Sync (df, w) = (Ok (), df, w)"
    and fm: "files_to_merge (retired db df, w1) = (Ok dfs, retired db df, w1)"
    and prep: "prepare_merge_dir (GetMergenceDirectory (dir_path (db_options db))) (retired db df, w1) = (Ok (), retired db df, w2)"
    and opn: "Open_rec d crc r ((db_options db)\<lparr>dir_path := GetMergenceDirectory (dir_path (db_options db)), is_sync_write := False\<rparr>) True w2 = (Ok temp, w2)"
    and into: "merge_into crc (GetMergenceDirectory (dir_path (db_options db))) (file_id df) dfs temp (retired db df, w2) = (Ok (), retired db df, w')"
    and w1: "w1 = open_create (GetDataFileName (dir_path (db_options db)) (db_next_file_id db)) w"
  shows "Merge_rec (Suc d) crc r (db, w) = (Ok (), (retired db df)\<lparr>db_is_merging := False\<rparr>, w')"
proof -
  let ?db = "db\<lparr>db_is_merging := True\<rparr>"
  have s: "on_active DataFile_Sync (?db, w) = (Ok (), ?db, w)"
    using on_active_eq [where m = DataFile_Sync, of ?db df w] act sync by simp
  let ?db' = "?db\<lparr>db_older := AList.update (file_id df) (Some df) (db_older db), db_active := None\<rparr>"
  have n: "retire_active (?db, w) = (Ok (), ?db', w)" using retire_active_eq [of ?db df w] act by simp
  have n': "NewActiveDataFile (?db', w) = (Ok (), retired db df, w1)"
    by (simp add: NewActiveDataFile_eq retired_def w1)
  have o: "on_world (Open_rec d crc r ((db_options db)\<lparr>dir_path := GetMergenceDirectory (dir_path (db_options db)), is_sync_write := False\<rparr>) True)
      (retired db df, w2) = (Ok temp, retired db df, w2)"
    using opn by (simp add: on_world_def zoom_def)
  show ?thesis
    using act nm s n n' fm prep o into
    by (simp add: with_defer_def CHECK_OK_def on_db_def update_state_def Let_def del: Open_rec.simps)
qed


text \<open>What the database has once the active file is retired: every file of the log among the older ones.\<close>

lemma retired_files:
  assumes "merge_ready crc (db, w) fs m" and act: "db_active db = Some df"
  shows "\<forall>f \<in> fst ` set fs. \<exists>g. map_of (db_older (retired db df)) f = Some (Some g) \<and> file_id g = f
      \<and> io_handler g = GetDataFileName (dir_path (db_options db)) f"
    and "fst ` set (db_older (retired db df)) = fst ` set fs" and "distinct (map fst (db_older (retired db df)))"
    and "file_id df = fst (last fs)"
proof -
  have ne: "fs \<noteq> []" by (rule merge_ready_source [OF assms(1)])
  have fi: "files_inv crc db fs" and old: "distinct (map fst (db_older db))" "fst ` set (db_older db) = fst ` set (butlast fs)"
    using assms(1) by (auto simp: merge_ready_def Let_def db_inv_def)
  have df: "df = \<lparr>file_id = fst (last fs), write_off = length (file_bytes crc (snd (last fs))),
      io_handler = GetDataFileName (dir_path (db_options db)) (fst (last fs))\<rparr>" using fi ne act by (simp add: files_inv_def)
  then show "file_id df = fst (last fs)" by simp
  have fs: "fst ` set fs = insert (fst (last fs)) (fst ` set (butlast fs))"
    using ne by (metis append_butlast_last_id image_insert list.simps(15) rotate1.simps(2) set_rotate1)
  show "\<forall>f \<in> fst ` set fs. \<exists>g. map_of (db_older (retired db df)) f = Some (Some g) \<and> file_id g = f
      \<and> io_handler g = GetDataFileName (dir_path (db_options db)) f"
    using fi ne df by (auto simp: fs update_conv' files_inv_def)
  show "fst ` set (db_older (retired db df)) = fst ` set fs" using old(2) df by (simp add: fs dom_update)
  show "distinct (map fst (db_older (retired db df)))" using old(1) by (simp add: distinct_update)
qed

lemma retired_file_of:
  assumes "map_of (db_older (retired db df)) f = Some p" and "f < db_next_file_id db"
  shows "file_of f ((retired db df)\<lparr>db_is_merging := b\<rparr>, w) = (Ok p, (retired db df)\<lparr>db_is_merging := b\<rparr>, w)"
  using assms by (auto simp: file_of_def retired_def ok_def)

text \<open>The new active file does not touch the mergence directory.\<close>

lemma merge_world:
  assumes "merge_ready crc (db, w) fs m" and w1: "w1 = open_create (GetDataFileName (dir_path (db_options db)) (db_next_file_id db)) w"
  shows "rooted w1" and "list_all (holds_file crc (dir_path (db_options db)) w1) fs"
    and "\<not> IsFileExist (GetMergenceDirectory (dir_path (db_options db))) w1"
    and "distinct (map fst (files w1))" and "dir_path (db_options db) \<in> set (dirs w1)" and "listing w1" and "healthy w1"
proof -
  let ?dir = "dir_path (db_options db)" and ?n = "db_next_file_id db"
  have inv: "log_inv crc ?dir w fs" "files_inv crc db fs" and r: "rooted w" "listing w" "healthy w"
    and m: "unmerged ?dir w" "content w (GetMergenceDirectory ?dir) = None"
    using assms(1) by (auto simp: merge_ready_def Let_def db_inv_def)
  have log: "log_inv crc ?dir w1 (fs @ [(?n, [])])" unfolding w1
    by (rule log_inv_new_file [OF inv(1) files_inv_next_above [OF inv]])
  then show "list_all (holds_file crc ?dir w1) fs" "distinct (map fst (files w1))" "?dir \<in> set (dirs w1)"
    by (auto simp: log_inv_def tidy_def)
  have d: "dirs w1 = dirs w" "dir_order w1 = dir_order w" by (simp_all add: w1)
  show "listing w1" "healthy w1" using r by (simp_all add: listing_def healthy_def w1)
  have "?dir \<in> set (dirs w)" using inv(1) by (simp add: log_inv_def)
  then show "rooted w1" using r(1) dirname_GetDataFileName [of ?dir ?n]
    by (auto simp: rooted_def w1 open_create_def)
  have "last (basename (GetMergenceDirectory ?dir)) \<noteq> last (basename (GetDataFileName ?dir ?n))"
    by (simp add: mdir_names(2) basename_GetDataFileName K_DATA_FILE_SUFFIX_def)
  then have "GetMergenceDirectory ?dir \<noteq> GetDataFileName ?dir ?n" by metis
  then show "\<not> IsFileExist (GetMergenceDirectory ?dir) w1"
    using m d by (auto simp: IsFileExist_def unmerged_def content_open_create w1)
qed


section \<open>The contract of \<open>Merge\<close>\<close>

lemma DB_Merge_Suc: "DB_Merge = Merge_rec (Suc (Suc (Suc 0)))"
  by (simp add: DB_Merge_def numeral_eq_Suc)

text \<open>The mergence directory as \<open>Merge\<close> finds it, and the database it opens there.\<close>

lemma merge_opens:
  assumes ready: "merge_ready crc (db, w) fs m"
    and w2: "w2 = w1\<lparr>dirs := dirs w1 @ [GetMergenceDirectory (dir_path (db_options db))]\<rparr>"
    and w1: "w1 = open_create (GetDataFileName (dir_path (db_options db)) (db_next_file_id db)) w"
    and opts: "opts = (db_options db)\<lparr>dir_path := GetMergenceDirectory (dir_path (db_options db)), is_sync_write := False\<rparr>"
  shows "prepare_merge_dir (dir_path opts) (db', w1) = (Ok (), db', w2)" and "log_inv crc (dir_path opts) w2 []"
    and "content w2 (GetHintFileName (dir_path opts)) = None"
    and "\<exists>temp. Open_rec (Suc (Suc d)) crc r opts True w2 = (Ok temp, w2) \<and> files_inv crc temp [] \<and> db_options temp = opts"
proof -
  let ?dir = "dir_path (db_options db)" let ?m = "GetMergenceDirectory ?dir"
  note w = merge_world [OF ready w1]
  have m: "dir_path opts = ?m" by (simp add: opts)
  show "prepare_merge_dir (dir_path opts) (db', w1) = (Ok (), db', w2)"
    unfolding m w2 by (rule prepare_merge_dir_fresh) (use w(3,5) mdir_names(1) in auto)
  have "?m \<notin> set (dirs w1)" "?m \<noteq> []" "dirname ?m \<noteq> ?m"
    using w(3) mdir_names [of ?dir] by (auto simp: IsFileExist_def basename_def)
  note fresh = fresh_directory [OF w(1) this(1,2) w(4) this(3), of w2]
  show log: "log_inv crc (dir_path opts) w2 []" and "content w2 (GetHintFileName (dir_path opts)) = None"
    using fresh(1,3) by (simp_all add: m w2)
  have un: "unmerged (dir_path opts) w2" using fresh(2) by (simp add: m w2)
  have "listing w2" using w(6) by (simp add: w2 listing_def)
  moreover have "CheckOptions opts = None" using ready \<open>?m \<noteq> []\<close> by (auto simp: merge_ready_def Let_def CheckOptions_def opts split: if_splits)
  ultimately show "\<exists>temp. Open_rec (Suc (Suc d)) crc r opts True w2 = (Ok temp, w2) \<and> files_inv crc temp [] \<and> db_options temp = opts"
    using Open_empty [OF log _ un] by blast
qed

lemma merge_spec:
  assumes ready: "merge_ready crc (db, w) fs m" and crc: "crc_extends crc"
    and mdir: "mdir = GetMergenceDirectory (dir_path (db_options db))"
  shows "\<exists>df w' gs m2 es. db_active db = Some df
    \<and> DB_Merge crc r (db, w) = (Ok (), (retired db df)\<lparr>db_is_merging := False\<rparr>, w')
    \<and> merged_log crc mdir w' gs m2 es \<and> kv crc gs m2 = kv crc fs m \<and> dom m2 = dom m
    \<and> content w' (GetMergedFileName mdir) \<noteq> None
    \<and> only_in mdir ((open_create (GetDataFileName (dir_path (db_options db)) (db_next_file_id db)) w)\<lparr>dirs := dirs w @ [mdir]\<rparr>) w'"
proof -
  let ?dir = "dir_path (db_options db)" let ?w1 = "open_create (GetDataFileName ?dir (db_next_file_id db)) w"
  let ?w2 = "?w1\<lparr>dirs := dirs ?w1 @ [GetMergenceDirectory ?dir]\<rparr>"
  let ?opts = "(db_options db)\<lparr>dir_path := GetMergenceDirectory ?dir, is_sync_write := False\<rparr>"
  note w = merge_world [OF ready refl] and src = merge_ready_source [OF ready] and op = merge_opens [OF ready refl refl refl]
  have inv: "log_inv crc ?dir w fs" "files_inv crc db fs" "[] \<notin> snd ` set fs" "index_holds (db_index db) m" and ne: "m \<noteq> Map.empty"
    and nm: "\<not> db_is_merging db" and ok: "healthy w"
    using ready by (auto simp: merge_ready_def Let_def db_inv_def)
  obtain df where act: "db_active db = Some df" using inv(2) src(2) by (auto simp: files_inv_def)
  note rf = retired_files [OF ready act]
  obtain dfs where dfs: "files_to_merge (retired db df, ?w1) = (Ok dfs, retired db df, ?w1)" "map file_id dfs = map fst fs"
    "\<forall>df \<in> set dfs. io_handler df = GetDataFileName ?dir (file_id df)"
    using files_to_merge_spec [OF rf(3,2) _ rf(1), of ?w1] inv(1) unfolding log_inv_def by blast
  have "content w (io_handler df) \<noteq> None" using inv(1,2) src(2) act by (auto simp: files_inv_def log_inv_def list_all_iff holds_file_def)
  then have sync: "DataFile_Sync (df, w) = (Ok (), df, w)" using DataFile_Sync_ok [of w df] ok by (auto simp: healthy_def)
  obtain temp where temp: "Open_rec (Suc (Suc 0)) crc r ?opts True ?w2 = (Ok temp, ?w2)" "files_inv crc temp []" "db_options temp = ?opts"
    using op(4) by blast
  have held: "list_all (holds_file crc ?dir ?w2) fs" using w(2) by (simp add: holds_file_def list_all_iff)
  have idx: "index_holds (db_index (retired db df)) m" and hl: "healthy ?w2" and dir: "?dir \<noteq> dir_path ?opts"
    and src': "mergeable crc fs m (unat (data_file_size ?opts))"
    using inv(4) w(7) mdir_names(3) [of ?dir] src(1) by (simp_all add: healthy_def)
  from merge_into_spec [OF src' held inv(3) dfs(2,3) dir crc idx ne temp(2,3) op(2) hl op(3), of "file_id df"]
  obtain w' gs m2 es where g: "merge_into crc (dir_path ?opts) (file_id df) dfs temp (retired db df, ?w2) = (Ok (), retired db df, w')"
    "merged_log crc (dir_path ?opts) w' gs m2 es" "kv crc gs m2 = kv crc fs m" "dom m2 = dom m"
    "content w' (GetMergedFileName (dir_path ?opts)) \<noteq> None" "only_in (dir_path ?opts) ?w2 w'" by blast
  have "DB_Merge crc r (db, w) = (Ok (), (retired db df)\<lparr>db_is_merging := False\<rparr>, w')"
    unfolding DB_Merge_Suc
    by (rule Merge_rec_eq [OF act nm sync dfs(1) _ temp(1) _ refl]) (use op(1) g(1) in simp_all)
  then show ?thesis using act g(2-6) by (auto simp: mdir)
qed


lemma merged_log_size: "merged_log crc d w gs m es \<Longrightarrow> length (located crc gs) = card (dom m)"
  by (auto simp: merged_log_def dom_map_of_conv_image_fst distinct_card simp flip: set_map)

lemma holds_file_dirs [simp]: "holds_file crc dir (w\<lparr>dirs := ds\<rparr>) = holds_file crc dir w"
  by (simp add: fun_eq_iff holds_file_def)

lemma merged_Get:
  assumes ready: "merge_ready crc (db, w) fs m" and crc: "crc_extends crc" and act: "db_active db = Some df" and key: "key \<noteq> []"
    and only: "only_in (GetMergenceDirectory (dir_path (db_options db)))
      ((open_create (GetDataFileName (dir_path (db_options db)) (db_next_file_id db)) w)\<lparr>dirs := ds\<rparr>) w'"
  shows "DB_Get crc key True ((retired db df)\<lparr>db_is_merging := False\<rparr>, w')
    = (case kv crc fs m (cstr key) of None \<Rightarrow> Err kNotFound | Some v \<Rightarrow> Ok v, (retired db df)\<lparr>db_is_merging := False\<rparr>, w')"
proof -
  let ?db = "(retired db df)\<lparr>db_is_merging := False\<rparr>" and ?dir = "dir_path (db_options db)"
  have inv: "log_inv crc ?dir w fs" "files_inv crc db fs" "index_holds (db_index db) m" "live crc fs m"
    using ready by (auto simp: merge_ready_def Let_def db_inv_def)
  have held: "list_all (holds_file crc ?dir w') fs"
    using merge_world(2) [OF ready refl] held_file_only_in [OF only mdir_names(3) [symmetric]]
    by (simp add: list_all_iff)
  have "\<exists>g. file_of f (?db, w') = (Ok (Some g), ?db, w') \<and> io_handler g = GetDataFileName ?dir f" if f: "f \<in> fst ` set fs" for f
    using retired_file_of files_inv_next_above [OF inv(1,2)] retired_files(1) [OF ready act] f by blast
  with Get_held [of crc ?db w' fs key m] held inv(3,4) crc key show ?thesis by simp
qed

text \<open>C7. \<open>Merge\<close> keeps the map: it succeeds, the mergence directory then holds a log that stands for
  the same map with exactly one record for each key, and its hint file; the database is no longer
  merging, and \<open>Get\<close> still answers every key as before.\<close>

theorem merge_keeps_map:
  assumes ready: "merge_ready crc (db, w) fs m" and crc: "crc_extends crc"
  shows "\<exists>db' w' gs m' es. DB_Merge crc r (db, w) = (Ok (), db', w')
    \<and> merged_log crc (GetMergenceDirectory (dir_path (db_options db))) w' gs m' es
    \<and> kv crc gs m' = kv crc fs m \<and> dom m' = dom m \<and> length (located crc gs) = card (dom m) \<and> \<not> db_is_merging db'
    \<and> (\<forall>key. key \<noteq> [] \<longrightarrow> DB_Get crc key True (db', w')
         = (case kv crc fs m (cstr key) of None \<Rightarrow> Err kNotFound | Some v \<Rightarrow> Ok v, db', w'))"
proof -
  obtain df w' gs m' es where s: "db_active db = Some df"
    "DB_Merge crc r (db, w) = (Ok (), (retired db df)\<lparr>db_is_merging := False\<rparr>, w')"
    "merged_log crc (GetMergenceDirectory (dir_path (db_options db))) w' gs m' es" "kv crc gs m' = kv crc fs m" "dom m' = dom m"
    "only_in (GetMergenceDirectory (dir_path (db_options db))) ((open_create (GetDataFileName (dir_path (db_options db))
       (db_next_file_id db)) w)\<lparr>dirs := dirs w @ [GetMergenceDirectory (dir_path (db_options db))]\<rparr>) w'"
    using merge_spec [OF ready crc refl] by blast
  show ?thesis using s(2-5) merged_log_size [OF s(3)] merged_Get [OF ready crc s(1) _ s(6)]
    by (intro exI [of _ "(retired db df)\<lparr>db_is_merging := False\<rparr>"] exI [of _ w'] exI [of _ gs] exI [of _ m'] exI [of _ es]) simp
qed


text \<open>A database whose one file holds two records of the same key.\<close>

definition ex_record :: "bytes \<Rightarrow> LogRecord" where
  "ex_record v = \<lparr>lr_key = EncodeVarint64 K_NON_TXN_ID @ [107], lr_value = v, lr_type = NormalLogRecord\<rparr>"

definition ex_log :: log where
  "ex_log = [(0, [ex_record [1], ex_record [2]])]"

definition ex_position :: LogRecordPst where
  "ex_position = \<lparr>fid = 0, offset = word_of_nat (length (EncodeLogRecord sum_crc (ex_record [1])))\<rparr>"

definition ex_stored :: st where
  "ex_stored =
     (\<lparr>db_options = ex_small_opts, db_active = Some \<lparr>file_id = 0, write_off = length (file_bytes sum_crc [ex_record [1], ex_record [2]]),
         io_handler = GetDataFileName ''/db'' 0\<rparr>, db_older = [], db_index = Tree [([107], Some ex_position)],
       db_file_ids = Some [], db_next_file_id = 1, db_txn_id = 0, db_is_merging = False\<rparr>,
      ex_world_with [(GetDataFileName ''/db'' 0, file_bytes sum_crc [ex_record [1], ex_record [2]])] [''/db''])"


lemma ex_located: "located sum_crc ex_log = [(\<lparr>fid = 0, offset = 0\<rparr>, ex_record [1]), (ex_position, ex_record [2])]"
  by (simp add: ex_log_def ex_position_def)

lemma ex_position_neq: "ex_position \<noteq> \<lparr>fid = 0, offset = 0\<rparr>"
  by code_simp

lemma ex_record_fits: "record_fits (ex_record [v])"
  by (simp add: record_fits_def ex_record_def EncodeVarint64_0 K_NON_TXN_ID_def layout_consts)

lemma ex_log_inv: "log_inv sum_crc ''/db'' (snd ex_stored) ex_log"
proof -
  have "GetDataFileName ''/db'' f = GetDataFileName ''/db'' 0 \<Longrightarrow> f = 0" for f by (metis name_id_basename)
  moreover have "length (EncodeLogRecord sum_crc (ex_record [1])) + length (EncodeLogRecord sum_crc (ex_record [2])) < 100"
    by code_simp
  ultimately show ?thesis using ex_record_fits
    by (auto simp: log_inv_def tidy_def holds_file_def content_def ex_stored_def ex_world_with_def ex_log_def dirname_def)
qed

lemma ex_replay_step: "replay_step (pst, ex_record v) (m, T, c) = Some (m([107] \<mapsto> pst), T, c)"
  using replay_step_single [of pst "[107]" v NormalLogRecord m T c]
  by (simp add: ex_record_def upd_spec_def NormalLogRecord_def DeletedLogRecord_def)

lemma ex_replay: "replay (located sum_crc ex_log) replay_init = Some ([[107] \<mapsto> ex_position], (\<lambda>_. []), K_NON_TXN_ID)"
  by (simp add: ex_located replay_init_def ex_replay_step)

lemma ex_merge_ready: "merge_ready sum_crc ex_stored ex_log [[107] \<mapsto> ex_position]"
proof -
  let ?w = "snd ex_stored"
  have "live sum_crc ex_log [[107] \<mapsto> ex_position]"
    using ex_position_neq by (simp add: live_def ex_located ex_record_def NormalLogRecord_def DeletedLogRecord_def)
  moreover have "index_holds (Tree [([107], Some ex_position)]) [[107] \<mapsto> ex_position]"
    by (simp add: index_holds_def tree_rep_def fun_eq_iff)
  moreover have "files_inv sum_crc (fst ex_stored) ex_log" by (simp add: files_inv_def ex_stored_def ex_log_def ex_small_opts_def)
  ultimately have "db_inv sum_crc ex_stored ex_log [[107] \<mapsto> ex_position]"
    using ex_log_inv ex_replay by (simp add: db_inv_def ex_log_def ex_stored_def ex_small_opts_def K_NON_TXN_ID_def)
  moreover have "unmerged ''/db'' ?w" "content ?w (GetMergenceDirectory ''/db'') = None" by code_simp+
  moreover have "rooted ?w" by code_simp
  moreover have "\<forall>pst lr. (pst, lr) \<in> set (located sum_crc ex_log)
      \<longrightarrow> K_MAX_LOG_RECORD_HEADER_SIZE + length (lr_key lr) + length (lr_value lr) \<le> 4096"
    by (simp add: ex_located ex_record_def EncodeVarint64_0 K_NON_TXN_ID_def layout_consts)
  ultimately show ?thesis
    by (simp add: merge_ready_def ex_stored_def ex_small_opts_def CheckOptions_def ex_log_def healthy_def listing_def
        ex_world_with_def)
qed

theorem merge_keeps_map_witness:
  "\<exists>db' w' gs m' es. DB_Merge sum_crc (Random_init (\<lambda>s n. s + word_of_nat n) 1 (\<lambda>_. 0) 0 False) ex_stored = (Ok (), db', w')
    \<and> merged_log sum_crc (GetMergenceDirectory ''/db'') w' gs m' es \<and> length (located sum_crc gs) = 1
    \<and> DB_Get sum_crc [107] True (db', w') = (Ok [2], db', w')"
proof -
  let ?db = "fst ex_stored" and ?m = "[[107 :: byte] \<mapsto> ex_position]"
  have dir: "dir_path (db_options ?db) = ''/db''" by (simp add: ex_stored_def ex_small_opts_def)
  have v: "kv sum_crc ex_log ?m [107] = Some [2]" using ex_position_neq by (simp add: kv_def ex_located ex_record_def)
  have "merge_ready sum_crc (?db, snd ex_stored) ex_log ?m" using ex_merge_ready by simp
  from merge_keeps_map [OF this sum_crc_extends, where r = "Random_init (\<lambda>s n. s + word_of_nat n) 1 (\<lambda>_. 0) 0 False"]
  obtain db' w' gs m' es where s: "DB_Merge sum_crc (Random_init (\<lambda>s n. s + word_of_nat n) 1 (\<lambda>_. 0) 0 False) ex_stored = (Ok (), db', w')"
    "merged_log sum_crc (GetMergenceDirectory ''/db'') w' gs m' es" "length (located sum_crc gs) = card (dom ?m)"
    "\<forall>key. key \<noteq> [] \<longrightarrow> DB_Get sum_crc key True (db', w')
       = (case kv sum_crc ex_log ?m (cstr key) of None \<Rightarrow> Err kNotFound | Some v \<Rightarrow> Ok v, db', w')"
    unfolding prod.collapse dir by (elim exE conjE) (rule that)
  have "length (located sum_crc gs) = 1" using s(3) by simp
  moreover have "DB_Get sum_crc [107] True (db', w') = (Ok [2], db', w')" using s(4) [rule_format, of "[107]"] v by simp
  ultimately show ?thesis using s(1,2) by blast
qed


section \<open>Opening and merging\<close>

text \<open>With \<open>merge_after_open\<close>, the default, \<open>Open\<close> merges the database that it has loaded.\<close>

lemma CHECK_OK_OkD: "CHECK_OK a f s = (Ok x, s') \<Longrightarrow> \<exists>y s1. a s = (Ok y, s1) \<and> f y s1 = (Ok x, s')"
  by (auto simp: CHECK_OK_def split: prod.splits result.splits)

lemma Open_rec_merges:
  assumes "Open_rec (Suc d) crc r opts False w = (Ok db, w1)"
  shows "Open_rec (Suc d) crc r opts True w = (case Merge_rec d crc r (db, w1) of
      (Ok _, db2, w2) \<Rightarrow> (Ok db2, w2) | (Err c, _, w2) \<Rightarrow> (Err c, w2) | (Crash f, _, w2) \<Rightarrow> (Crash f, w2))"
proof -
  define load where "load X = CHECK_OK (LoadMergenceFiles crc) (\<lambda>_. CHECK_OK LoadDataFiles (\<lambda>_.
    CHECK_OK (LoadIndexFromHintFile crc) (\<lambda>_. CHECK_OK (LoadIndexFromDataFiles crc) (\<lambda>_. X))))" for X :: "(st, unit) cmd"
  obtain w0 where w0: "CheckOrCreateDirectory (dir_path opts) w = (True, w0)" and opts: "CheckOptions opts = None"
    and l: "load (ok ()) (DB_init r opts, w0) = (Ok (), db, w1)"
    using assms by (auto simp: load_def CHECK_TRUE_def Let_def ok_def err_def crash_def split: option.splits prod.splits if_splits result.splits dest!: CHECK_OK_OkD [of "run_outcome _"])
  have "load X (DB_init r opts, w0) = X (db, w1)" for X
    using l unfolding load_def by (auto dest!: CHECK_OK_OkD simp: CHECK_OK_Ok ok_def)
  then show ?thesis using w0 opts by (simp add: load_def [symmetric] CHECK_TRUE_def ok_def err_def crash_def split: prod.splits result.splits)
qed

lemma default_open:
  assumes opn: "DB_Open crc r opts False w = (Ok db, w)" and ready: "merge_ready crc (db, w) fs m" and crc: "crc_extends crc"
  shows "\<exists>db' w'. DB_Open crc r opts True w = (Ok db', w')
    \<and> (\<forall>key. key \<noteq> [] \<longrightarrow> DB_Get crc key True (db', w') = (case kv crc fs m (cstr key) of None \<Rightarrow> Err kNotFound | Some v \<Rightarrow> Ok v, db', w'))"
proof -
  obtain df w' where s: "db_active db = Some df" "DB_Merge crc r (db, w) = (Ok (), (retired db df)\<lparr>db_is_merging := False\<rparr>, w')"
    "only_in (GetMergenceDirectory (dir_path (db_options db))) ((open_create (GetDataFileName (dir_path (db_options db))
       (db_next_file_id db)) w)\<lparr>dirs := dirs w @ [GetMergenceDirectory (dir_path (db_options db))]\<rparr>) w'"
    using merge_spec [OF ready crc refl] by blast
  have "DB_Open crc r opts True w = (Ok ((retired db df)\<lparr>db_is_merging := False\<rparr>), w')"
    using Open_rec_merges [of 3 crc r opts w db w] opn s(2) by (simp add: DB_Open_def DB_Merge_def del: Open_rec.simps Merge_rec.simps)
  then show ?thesis using merged_Get [OF ready crc s(1) _ s(3)] by blast
qed

section \<open>Opening after a merge\<close>

text \<open>C22. A database cannot be opened after a merge: \<open>Merge\<close> succeeds, and from the files that it
  leaves no call of \<open>Open\<close> with the options of the database succeeds.\<close>

theorem merged_not_reopened:
  assumes ready: "merge_ready crc (db, w) fs m" and crc: "crc_extends crc"
  shows "\<exists>db' w'. DB_Merge crc r (db, w) = (Ok (), db', w') \<and> (\<forall>r2 b db2. fst (DB_Open crc r2 (db_options db) b w') \<noteq> Ok db2)"
proof -
  let ?dir = "dir_path (db_options db)" let ?m = "GetMergenceDirectory ?dir"
  let ?w1 = "open_create (GetDataFileName ?dir (db_next_file_id db)) w" let ?dot = "Format ''{}/{}'' [?m, ''.'']"
  obtain df w' where s: "DB_Merge crc r (db, w) = (Ok (), (retired db df)\<lparr>db_is_merging := False\<rparr>, w')"
    "content w' (GetMergedFileName ?m) \<noteq> None" "only_in ?m (?w1\<lparr>dirs := dirs w @ [?m]\<rparr>) w'"
    using merge_spec [OF ready crc refl] by blast
  note w1 = merge_world [OF ready refl]
  have o: "dirs w' = dirs w @ [?m]" "dir_order w' = dir_order w" using s(3) by (simp_all add: only_in_def)
  have dir: "?dir \<in> set (dirs w')" "listing w'" using w1(5,6) o by (simp_all add: listing_def)
  have dot: "dirname ?dot = ?m" "basename ?dot = ''.''" by (simp_all add: Format_path2 dirname_path basename_path)
  have "?dot \<notin> fst ` set (files ?w1)"
    using w1(1,3) dot(1) unfolding rooted_def IsFileExist_def by metis
  then have "content ?w1 ?dot = None" by (simp add: content_def map_of_eq_None_iff)
  then have "content w' ?dot = None" using s(3) dot(2) by (simp add: only_in_def content_def)
  moreover have "?m \<in> set (dirs w')" by (simp add: o(1))
  ultimately have "fst (DB_Open crc r2 (db_options db) b w') \<noteq> Ok db2" for r2 b db2
    using finished_merge_refused [OF dir(2,1) _ s(2)] by blast
  then show ?thesis using s(1) by blast
qed

theorem merged_not_reopened_witness:
  "\<exists>db' w'. DB_Merge sum_crc (Random_init (\<lambda>s n. s + word_of_nat n) 1 (\<lambda>_. 0) 0 False) ex_stored = (Ok (), db', w')
    \<and> (\<forall>r2 b db2. fst (DB_Open sum_crc r2 ex_small_opts b w') \<noteq> Ok db2)"
proof -
  have opts: "db_options (fst ex_stored) = ex_small_opts" by (simp add: ex_stored_def)
  have "merge_ready sum_crc (fst ex_stored, snd ex_stored) ex_log [[107] \<mapsto> ex_position]" using ex_merge_ready by simp
  from merged_not_reopened [OF this sum_crc_extends] show ?thesis unfolding prod.collapse opts .
qed

section \<open>Loading the hint file\<close>

abbreviation load_hint :: "LogRecord \<Rightarrow> nat \<Rightarrow> unit \<Rightarrow> (st, unit) cmd" where
  "load_hint log_record ofs u \<equiv> CHECK_OK (run_outcome (DecodeLogRecordPosition (lr_value log_record))) (\<lambda>pst.
     CHECK_OK (index_Put (lr_key log_record) (Some pst)) (\<lambda>b. CHECK_TRUE b (Some ''fail to put index'') (ok ())))"

lemma hint_rec_fits:
  assumes "k \<noteq> []" and "length k + 32 < 2 ^ 31" and "unat (offset pst) < 2 ^ 31"
  shows "record_fits (hint_rec (k, pst))"
  using assms(1) hint_rec_length(1) [OF assms(3,2)] by (simp add: record_fits_def hint_rec_def)

lemma load_hint_step:
  assumes "index_holds i (m |` A)" and "m k = Some pst" and "cstr k = k" and "unat (offset pst) < 2 ^ 31"
  shows "\<exists>j. load_hint (hint_rec (k, pst)) ofs u (db\<lparr>db_index := i\<rparr>, w) = (Ok (), db\<lparr>db_index := j\<rparr>, w)
    \<and> index_holds j (m |` insert k A)"
proof -
  have "(m |` A)(k \<mapsto> pst) = m |` insert k A" using assms(2) by (auto simp: restrict_map_def fun_eq_iff)
  then show ?thesis
    using index_Put_holds [of "db\<lparr>db_index := i\<rparr>" "m |` A" k pst w] assms(1,3) position_roundtrip(2) [OF assms(4)]
    by (auto simp: CHECK_OK_def CHECK_TRUE_def run_outcome_def hint_rec_def ok_def)
qed

text \<open>The keys of the index of a log are strings of the C library.\<close>

lemma merged_log_entry:
  assumes "merged_log crc d w gs m es" and "(k, pst) \<in> set es"
  shows "m k = Some pst" and "cstr k = k" and "unat (offset pst) < 2 ^ 31" and "length k + 32 < 2 ^ 31"
proof -
  have r: "replay (located crc gs) replay_init = Some (m, (\<lambda>_. []), K_NON_TXN_ID)" using assms(1) by (simp add: merged_log_def)
  show m: "m k = Some pst" using assms by (auto simp: merged_log_def)
  obtain lr where "rec_key lr = Some k" using index_keys(1) [OF r m] by blast
  then show "cstr k = k" by (auto simp: rec_key_def split: outcome.splits)
  show "unat (offset pst) < 2 ^ 31" "length k + 32 < 2 ^ 31" using assms by (auto simp: merged_log_def list_all_iff)
qed

lemma load_hints:
  assumes ml: "merged_log crc d w gs m es" and crc: "crc_extends crc" and ne: "m \<noteq> Map.empty"
    and keys: "\<forall>k \<in> dom m. k \<noteq> [] \<and> length k < 2 ^ 31" and idx: "index_holds (db_index db) Map.empty"
    and h: "io_handler df = GetHintFileName d"
  shows "\<exists>n i. each_record crc df load_hint () (db, w) = (Ok (n, ()), db\<lparr>db_index := i\<rparr>, w) \<and> index_holds i m"
proof -
  let ?rs = "map hint_rec es"
  define I where "I rs1 (u :: unit) s \<longleftrightarrow> (\<exists>i. s = (db\<lparr>db_index := i\<rparr>, w) \<and> index_holds i (m |` (fst ` set (take (length rs1) es))))"
    for rs1 :: "LogRecord list" and u s
  have es: "map_of es = m" "content w (io_handler df) = Some (file_bytes crc ?rs)" using ml h by (simp_all add: merged_log_def)
  have fits: "?rs \<noteq> []" "list_all record_fits ?rs"
    using es(1) ne keys merged_log_entry [OF ml] hint_rec_fits by (auto simp: list_all_iff domI)
  have step: "\<exists>a' s'. load_hint r (length (file_bytes crc rs1)) a s = (Ok a', s') \<and> I (rs1 @ [r]) a' s'"
    if rs: "?rs = rs1 @ r # rs2" and i: "I rs1 a s" for rs1 r rs2 a s
  proof -
    obtain es1 k pst es2 where e: "es = es1 @ (k, pst) # es2" "rs1 = map hint_rec es1" "r = hint_rec (k, pst)"
      using rs by (auto simp: map_eq_append_conv)
    then have "(k, pst) \<in> set es" by simp
    note entry = merged_log_entry(1-3) [OF ml this]
    obtain i where i: "s = (db\<lparr>db_index := i\<rparr>, w)" "index_holds i (m |` (fst ` set es1))" using i e by (auto simp: I_def)
    obtain j where "load_hint r (length (file_bytes crc rs1)) a s = (Ok (), db\<lparr>db_index := j\<rparr>, w)"
      "index_holds j (m |` insert k (fst ` set es1))" using load_hint_step [OF i(2) entry] e(3) i(1) by blast
    then show ?thesis by (auto simp: I_def e)
  qed
  have init: "I [] () (db, w)" using idx by (auto simp: I_def intro: exI [of _ "db_index db"])
  have cont: "content (snd s) (io_handler df) = Some (file_bytes crc ?rs)" if "I rs1 u s" for rs1 u s using that es(2) by (auto simp: I_def)
  have "\<exists>u s'. each_record crc df load_hint () (db, w) = (Ok (length (file_bytes crc ?rs), u), s') \<and> I ?rs u s'"
    by (rule each_record_inv [where I = I, OF init _ fits crc], erule cont, erule (1) step)
  moreover have "m |` (fst ` set es) = m" 
    using es(1) by (auto simp: restrict_map_def fun_eq_iff) (metis map_of_eq_None_iff)
  ultimately show ?thesis by (auto simp: I_def)
qed

text \<open>C21. The hint file stands for the merged log: loading it into an empty index succeeds and gives
  the index that replaying the records of the log gives, if no key is empty.\<close>

theorem hint_file_loads_index:
  assumes ml: "merged_log crc (dir_path (db_options db)) w gs m es" and crc: "crc_extends crc" and ne: "m \<noteq> Map.empty"
    and keys: "\<forall>k \<in> dom m. k \<noteq> [] \<and> length k < 2 ^ 31" and idx: "index_holds (db_index db) Map.empty"
  shows "\<exists>i T c. LoadIndexFromHintFile crc (db, w) = (Ok (), db\<lparr>db_index := i\<rparr>, w) \<and> index_holds i m
    \<and> replay (located crc gs) replay_init = Some (m, T, c)"
proof -
  let ?h = "GetHintFileName (dir_path (db_options db))" let ?df = "\<lparr>file_id = 0, write_off = 0, io_handler = ?h\<rparr>"
  have c: "content w ?h \<noteq> None" using ml by (simp add: merged_log_def)
  obtain n i where i: "each_record crc ?df load_hint () (db, w) = (Ok (n, ()), db\<lparr>db_index := i\<rparr>, w)" "index_holds i m"
    using load_hints [OF ml crc ne keys idx, of ?df] by auto
  have "on_world (OpenHintFile (dir_path (db_options db))) (db, w) = (Ok ?df, db, w)"
    using c by (simp add: on_world_def zoom_def OpenHintFile_def NewDataFile_def NewIOHandler_def open_create_def ok_def)
  then have "LoadIndexFromHintFile crc (db, w) = (Ok (), db\<lparr>db_index := i\<rparr>, w)"
    using i(1) c by (auto simp: LoadIndexFromHintFile_def IsFileExist_def CHECK_OK_def [of "on_world _"] CHECK_OK_def [of "each_record _ _ _ _"] ok_def Let_def)
  then show ?thesis using i(2) ml by (auto simp: merged_log_def)
qed

theorem hint_file_loads_index_witness:
  "\<exists>w gs m es i. merged_log sum_crc (GetMergenceDirectory ''/db'') w gs m es \<and> dom m = {[107]}
    \<and> fst (LoadIndexFromHintFile sum_crc (DB_init (Random_init (\<lambda>s n. s + word_of_nat n) 1 (\<lambda>_. 0) 0 False)
        (ex_small_opts\<lparr>dir_path := GetMergenceDirectory ''/db''\<rparr>), w)) = Ok () \<and> index_holds i m"
proof -
  let ?db = "DB_init (Random_init (\<lambda>s n. s + word_of_nat n) 1 (\<lambda>_. 0) 0 False) (ex_small_opts\<lparr>dir_path := GetMergenceDirectory ''/db''\<rparr>)"
  have dirs: "dir_path (db_options (fst ex_stored)) = ''/db''" "dir_path (db_options ?db) = GetMergenceDirectory ''/db''"
    by (simp_all add: ex_stored_def ex_small_opts_def DB_init_def)
  have "merge_ready sum_crc (fst ex_stored, snd ex_stored) ex_log [[107] \<mapsto> ex_position]" using ex_merge_ready by simp
  from merge_spec [OF this sum_crc_extends refl] obtain w gs m es where
    m: "merged_log sum_crc (GetMergenceDirectory ''/db'') w gs m es" "dom m = dom [[107] \<mapsto> ex_position]" unfolding dirs by blast
  have idx: "index_holds (db_index ?db) Map.empty"
    using NewIndexer_rep by (simp add: index_holds_def DB_init_def)
  have "m \<noteq> Map.empty" "\<forall>k \<in> dom m. k \<noteq> [] \<and> length k < 2 ^ 31" using m(2) by auto
  from hint_file_loads_index [of sum_crc ?db, unfolded dirs, OF m(1) sum_crc_extends this idx] obtain i where
    i: "LoadIndexFromHintFile sum_crc (?db, w) = (Ok (), ?db\<lparr>db_index := i\<rparr>, w)" "index_holds i m" by blast
  have "dom m = {[107]}" using m(2) by simp
  moreover have "fst (LoadIndexFromHintFile sum_crc (?db, w)) = Ok ()" by (simp only: i(1) fst_conv)
  ultimately show ?thesis using m(1) i(2) by blast
qed

end
