(* ===== verification/Index_Agree.thy ===== *)
theory Index_Agree
  imports Index
begin

text \<open>
  Sequences of operations on the skip list and on an indexer. The skip list stays well formed and
  answers as a sorted association list does; the three indexers cannot be told apart by \<open>Put\<close>,
  \<open>Get\<close>, \<open>Delete\<close> and \<open>Size\<close>.
\<close>

section \<open>The skip list against a sorted list\<close>

datatype ('k, 'v) sl_op = SL_Insert 'k 'v | SL_Remove 'k | SL_Find 'k

fun sl_step :: "('k::linorder, 'v) sl_op \<Rightarrow> ('k, 'v) SkipList \<Rightarrow> ('v option \<times> ('k, 'v) SkipList) option" where
  "sl_step (SL_Insert k v) s = map_option (Pair None) (Insert k v s)"
| "sl_step (SL_Remove k) s = Remove k s"
| "sl_step (SL_Find k) s = map_option (\<lambda>v. (v, s)) (Find k s)"

fun smap_step :: "('k::linorder, 'v) sl_op \<Rightarrow> ('k, 'v) smap \<Rightarrow> 'v option \<times> ('k, 'v) smap" where
  "smap_step (SL_Insert k v) m = (None, smap_put k v m)"
| "smap_step (SL_Remove k) m = (map_of m k, smap_erase k m)"
| "smap_step (SL_Find k) m = (map_of m k, m)"

fun sl_run :: "('k::linorder, 'v) sl_op list \<Rightarrow> ('k, 'v) SkipList \<Rightarrow> ('v option list \<times> ('k, 'v) SkipList) option" where
  "sl_run [] s = Some ([], s)"
| "sl_run (x # xs) s =
     Option.bind (sl_step x s) (\<lambda>(r, s'). map_option (map_prod (Cons r) id) (sl_run xs s'))"

fun smap_run :: "('k::linorder, 'v) sl_op list \<Rightarrow> ('k, 'v) smap \<Rightarrow> 'v option list \<times> ('k, 'v) smap" where
  "smap_run [] m = ([], m)"
| "smap_run (x # xs) m = (let (r, m') = smap_step x m in map_prod (Cons r) id (smap_run xs m'))"

lemma sl_step_rep:
  "sl_rep s m \<Longrightarrow> \<exists>s'. sl_step x s = Some (fst (smap_step x m), s') \<and> sl_rep s' (snd (smap_step x m))"
  using Insert_rep [of s m] Remove_rep [of s m] Find_rep [of s m] by (cases x) force+

lemma sl_run_rep:
  "sl_rep s m \<Longrightarrow> \<exists>s'. sl_run xs s = Some (fst (smap_run xs m), s') \<and> sl_rep s' (snd (smap_run xs m))"
proof (induction xs arbitrary: s m)
  case (Cons x xs)
  obtain s1 where s1: "sl_step x s = Some (fst (smap_step x m), s1)" "sl_rep s1 (snd (smap_step x m))"
    using sl_step_rep [OF Cons.prems] by blast
  from Cons.IH [OF s1(2)] s1(1) show ?case by (auto simp: split_beta)
qed simp

text \<open>C8. The skip list: after any sequence of \<open>Insert\<close>, \<open>Remove\<close> and \<open>Find\<close> on a new list,
  whatever levels the random numbers give, every operation has returned, with what the same operation
  on a sorted association list gives, and the list is well formed (its levels are chains of the nodes
  that reach them, its keys increase, its size is right) and holds the entries of that list.\<close>

theorem skip_list_wellformed:
  "\<exists>s. sl_run xs (SkipList_init k0 v0 r) = Some (fst (smap_run xs []), s)
     \<and> sl_rep s (snd (smap_run xs [])) \<and> sorted_keys (snd (smap_run xs []))
     \<and> SkipList_Size s = length (snd (smap_run xs []))"
  using sl_run_rep [OF SkipList_init_rep] sl_rep_sorted Size_rep by metis

section \<open>The indexers against each other\<close>

datatype idx_op = IPut bytes pst_ptr | IGet bytes | IDelete bytes | ISize

datatype idx_obs = Done bool | Got "pst_ptr option" | Deleted bool "pst_ptr option" | Counted nat

fun idx_step :: "idx_op \<Rightarrow> Indexer \<Rightarrow> (idx_obs \<times> Indexer) option" where
  "idx_step (IPut k p) i = map_option (map_prod Done id) (Indexer_Put k p i)"
| "idx_step (IGet k) i = map_option (\<lambda>v. (Got v, i)) (Indexer_Get k i)"
| "idx_step (IDelete k) i = map_option (\<lambda>(b, old, i'). (Deleted b old, i')) (Indexer_Delete k i)"
| "idx_step ISize i = Some (Counted (Indexer_Size i), i)"

fun idx_run :: "idx_op list \<Rightarrow> Indexer \<Rightarrow> idx_obs list option" where
  "idx_run [] i = Some []"
| "idx_run (x # xs) i = Option.bind (idx_step x i) (\<lambda>(r, i'). map_option (Cons r) (idx_run xs i'))"

lemma idx_step_rep:
  assumes "idx_rep i m" and "idx_rep j m"
  shows "\<exists>r i' j' m'. idx_step x i = Some (r, i') \<and> idx_step x j = Some (r, j') \<and> idx_rep i' m' \<and> idx_rep j' m'"
proof (cases x)
  case (IPut k p)
  then show ?thesis using idx.put_law [OF assms(1), of k p] idx.put_law [OF assms(2), of k p] by force
next
  case (IGet k)
  then show ?thesis using assms idx.get_law [OF assms(1), of k] idx.get_law [OF assms(2), of k] by auto
next
  case (IDelete k)
  then show ?thesis using idx.del_law [OF assms(1), of k] idx.del_law [OF assms(2), of k] by force
next
  case ISize
  then show ?thesis using assms idx.size_law [OF assms(1)] idx.size_law [OF assms(2)] by auto
qed

lemma idx_run_rep: "idx_rep i m \<Longrightarrow> idx_rep j m \<Longrightarrow> \<exists>rs. idx_run xs i = Some rs \<and> idx_run xs j = Some rs"
proof (induction xs arbitrary: i j m)
  case (Cons x xs)
  obtain r i' j' m' where "idx_step x i = Some (r, i')" "idx_step x j = Some (r, j')" "idx_rep i' m'" "idx_rep j' m'"
    using idx_step_rep [OF Cons.prems] by blast
  moreover from Cons.IH [OF this(3,4)] obtain rs where "idx_run xs i' = Some rs" "idx_run xs j' = Some rs" by blast
  ultimately show ?case by simp
qed simp

text \<open>C17. The choice of the index does not matter: any sequence of \<open>Put\<close>, \<open>Get\<close>, \<open>Delete\<close> and
  \<open>Size\<close> returns, and gives the same results, on new indexers of any two types.\<close>

theorem indexers_agree:
  "\<exists>rs. idx_run xs (NewIndexer r type) = Some rs \<and> idx_run xs (NewIndexer r' type') = Some rs"
  using idx_run_rep [OF NewIndexer_rep NewIndexer_rep] .

end
