(* ===== verification/Serializer.thy ===== *)
theory Serializer
  imports Prelude
begin

text \<open>
  \<^verbatim>\<open>codec/serializer.h\<close>: a byte buffer with a read position, and the overloads of
  \<open>serialize\<close> and \<open>deserialize\<close> for numbers, strings, sequences, maps and tuples. Which
  overload applies is resolved at compile time by the traits of
  \<^verbatim>\<open>codec/type_helper.h\<close>; here each overload has a name, and the overloads for
  containers take the one for the elements as an argument.

  Numbers are stored as they lie in memory, which is least significant byte first on
  the machines the sources are built for. Reading past the end of the buffer is
  undefined.
\<close>

section \<open>The buffer\<close>

record Serializer =
  ser_buffer :: bytes
  ser_pos :: nat

definition Serializer_init :: "bytes \<Rightarrow> Serializer" where
  "Serializer_init data = \<lparr>ser_buffer = data, ser_pos = 0\<rparr>"

definition Serializer_str :: "Serializer \<Rightarrow> bytes" where
  "Serializer_str s = ser_buffer s"

definition Serializer_size :: "Serializer \<Rightarrow> nat" where
  "Serializer_size s = length (ser_buffer s)"

definition Serializer_clear :: "Serializer \<Rightarrow> Serializer" where
  "Serializer_clear s = \<lparr>ser_buffer = [], ser_pos = 0\<rparr>"

definition put_bytes :: "bytes \<Rightarrow> Serializer \<Rightarrow> Serializer" where
  "put_bytes bs s = s\<lparr>ser_buffer := ser_buffer s @ bs\<rparr>"

definition get_bytes :: "nat \<Rightarrow> Serializer \<Rightarrow> (bytes \<times> Serializer) outcome" where
  "get_bytes n s =
     (if ser_pos s + n \<le> length (ser_buffer s)
      then Return (take n (drop (ser_pos s) (ser_buffer s)), s\<lparr>ser_pos := ser_pos s + n\<rparr>)
      else Fault OutOfBounds)"

type_synonym 'a writer = "'a \<Rightarrow> Serializer \<Rightarrow> Serializer"
type_synonym 'a reader = "Serializer \<Rightarrow> ('a \<times> Serializer) outcome"

section \<open>The overloads\<close>

definition word_bytes :: "'a::len word \<Rightarrow> bytes" where
  "word_bytes w = map (\<lambda>i. ucast (drop_bit (8 * i) w)) [0..<LENGTH('a) div 8]"

primrec bytes_word :: "bytes \<Rightarrow> 'a::len word" where
  "bytes_word [] = 0"
| "bytes_word (b # bs) = or (ucast b) (push_bit 8 (bytes_word bs))"

definition serialize_arith :: "'a::len word writer" where
  "serialize_arith v = put_bytes (word_bytes v)"

definition deserialize_arith :: "'a::len word reader" where
  "deserialize_arith s = bind_outcome (get_bytes (LENGTH('a) div 8) s) (\<lambda>(bs, s'). Return (bytes_word bs, s'))"

definition serialize_bool :: "bool writer" where
  "serialize_bool b = put_bytes [if b then 1 else 0]"

definition deserialize_bool :: "bool reader" where
  "deserialize_bool s = bind_outcome (get_bytes 1 s) (\<lambda>(bs, s'). Return (bs \<noteq> [0], s'))"

definition serialize_string :: "bytes writer" where
  "serialize_string v s = put_bytes v (serialize_arith (word_of_nat (length v) :: u64) s)"

definition deserialize_string :: "bytes reader" where
  "deserialize_string s = bind_outcome (deserialize_arith s) (\<lambda>(size :: u64, s'). get_bytes (unat size) s')"

definition serialize_seq :: "'a writer \<Rightarrow> 'a list writer" where
  "serialize_seq ser value s = fold ser value (serialize_arith (word_of_nat (length value) :: u32) s)"

primrec deserialize_items :: "'a reader \<Rightarrow> nat \<Rightarrow> 'a list reader" where
  "deserialize_items des 0 s = Return ([], s)"
| "deserialize_items des (Suc n) s =
     bind_outcome (des s) (\<lambda>(x, s'). bind_outcome (deserialize_items des n s') (\<lambda>(xs, s''). Return (x # xs, s'')))"

definition deserialize_seq :: "'a reader \<Rightarrow> 'a list reader" where
  "deserialize_seq des s = bind_outcome (deserialize_arith s) (\<lambda>(size :: u32, s'). deserialize_items des (unat size) s')"

text \<open>
  A map is the list of its entries in key order. Its \<open>deserialize\<close> passes the key and
  the value where the overloads want pointers, so no instance of it compiles.
\<close>

definition serialize_map :: "'k writer \<Rightarrow> 'v writer \<Rightarrow> ('k \<times> 'v) list writer" where
  "serialize_map serk serv value s =
     fold (\<lambda>(k, v) s. serv v (serk k s)) value (serialize_arith (word_of_nat (length value) :: u64) s)"

text \<open>A tuple, component after component; longer tuples are nested pairs.\<close>

definition serialize_pair :: "'a writer \<Rightarrow> 'b writer \<Rightarrow> ('a \<times> 'b) writer" where
  "serialize_pair sa sb v s = sb (snd v) (sa (fst v) s)"

definition deserialize_pair :: "'a reader \<Rightarrow> 'b reader \<Rightarrow> ('a \<times> 'b) reader" where
  "deserialize_pair da db s =
     bind_outcome (da s) (\<lambda>(a, s'). bind_outcome (db s') (\<lambda>(b, s''). Return ((a, b), s'')))"

section \<open>The contract of a codec\<close>

text \<open>
  A writer appends the encoding of a value, and the reader at the start of an encoding
  gives the value back and stops at its end, whatever follows.
\<close>

locale codec =
  fixes ser :: "'a writer" and des :: "'a reader" and enc :: "'a \<Rightarrow> bytes" and valid :: "'a \<Rightarrow> bool"
  assumes ser_law: "ser x s = put_bytes (enc x) s"
    and des_law: "valid x \<Longrightarrow> ser_buffer s = pre @ enc x @ post \<Longrightarrow> ser_pos s = length pre
      \<Longrightarrow> des s = Return (x, s\<lparr>ser_pos := length pre + length (enc x)\<rparr>)"
begin

lemma roundtrip:
  assumes "valid x"
  shows "des (Serializer_init (Serializer_str (ser x (Serializer_init [])) @ rest))
    = Return (x, \<lparr>ser_buffer = enc x @ rest, ser_pos = length (enc x)\<rparr>)"
  using des_law [OF assms, of "\<lparr>ser_buffer = enc x @ rest, ser_pos = 0\<rparr>" "[]" rest]
  by (simp add: ser_law Serializer_init_def Serializer_str_def put_bytes_def)

lemma fold_ser: "fold ser xs s = put_bytes (concat (map enc xs)) s"
  by (induction xs arbitrary: s) (simp_all add: ser_law put_bytes_def)

lemma items_law:
  assumes "list_all valid xs" and "ser_buffer s = pre @ concat (map enc xs) @ post" and "ser_pos s = length pre"
  shows "deserialize_items des (length xs) s = Return (xs, s\<lparr>ser_pos := length pre + length (concat (map enc xs))\<rparr>)"
  using assms
proof (induction xs arbitrary: s pre)
  case (Cons x xs)
  let ?s = "s\<lparr>ser_pos := length pre + length (enc x)\<rparr>"
  have "des s = Return (x, ?s)" using des_law [of x s pre "concat (map enc xs) @ post"] Cons.prems by simp
  moreover have "deserialize_items des (length xs) ?s
      = Return (xs, ?s\<lparr>ser_pos := length (pre @ enc x) + length (concat (map enc xs))\<rparr>)"
    using Cons.prems by (intro Cons.IH) simp_all
  ultimately show ?case by (simp add: add.assoc)
qed simp

end

section \<open>Words\<close>

lemma length_word_bytes [simp]: "length (word_bytes (w :: 'a::len word)) = LENGTH('a) div 8"
  by (simp add: word_bytes_def)

lemma bit_bytes_word:
  "bit (bytes_word bs :: 'a::len word) n \<longleftrightarrow> n < LENGTH('a) \<and> n div 8 < length bs \<and> bit (bs ! (n div 8)) (n mod 8)"
proof (induction bs arbitrary: n)
  case (Cons b bs)
  show ?case
  proof (cases "n < 8")
    case True
    then show ?thesis by (auto simp: bit_simps)
  next
    case False
    then have d: "n div 8 = Suc ((n - 8) div 8)" "(n - 8) mod 8 = n mod 8"
      by (simp_all add: le_div_geq le_mod_geq)
    have "\<not> bit b n" using False by (auto simp: not_less dest: bit_imp_le_length)
    then show ?thesis
      using False Cons.IH [of "n - 8"] d by (auto simp: bit_simps)
  qed
qed simp

lemma bytes_word_bytes:
  assumes "8 dvd LENGTH('a::len)"
  shows "bytes_word (word_bytes (w :: 'a word)) = w"
proof (rule bit_word_eqI)
  fix n assume n: "n < LENGTH('a)"
  then have k: "n div 8 < LENGTH('a) div 8" using assms by (auto elim!: dvdE simp: less_mult_imp_div_less mult.commute)
  have "8 * (n div 8) + n mod 8 = n" by simp
  then show "bit (bytes_word (word_bytes w) :: 'a word) n = bit w n"
    using n k by (simp add: bit_bytes_word) (simp add: word_bytes_def bit_simps)
qed

lemma arith_codec:
  assumes "8 dvd LENGTH('a::len)"
  shows "codec serialize_arith (deserialize_arith :: 'a word reader) word_bytes (\<lambda>_. True)"
proof
  fix x :: "'a word" and s :: Serializer and pre post
  assume "ser_buffer s = pre @ word_bytes x @ post" "ser_pos s = length pre"
  then show "deserialize_arith s = Return (x, s\<lparr>ser_pos := length pre + length (word_bytes x)\<rparr>)"
    by (simp add: deserialize_arith_def get_bytes_def bytes_word_bytes [OF assms])
qed (simp add: serialize_arith_def)

interpretation i32: codec "serialize_arith :: u32 writer" deserialize_arith word_bytes "\<lambda>_. True"
  by (rule arith_codec) simp

interpretation size: codec "serialize_arith :: u64 writer" deserialize_arith word_bytes "\<lambda>_. True"
  by (rule arith_codec) simp

section \<open>Composite types\<close>

interpretation boolean: codec serialize_bool deserialize_bool "\<lambda>b. [if b then 1 else 0]" "\<lambda>_. True"
  by unfold_locales (auto simp: serialize_bool_def deserialize_bool_def get_bytes_def)

lemma put_bytes_append: "put_bytes bs (put_bytes as s) = put_bytes (as @ bs) s"
  by (simp add: put_bytes_def)

lemma unat_size_u64: "n < 2 ^ 64 \<Longrightarrow> unat (word_of_nat n :: u64) = n"
  by (simp add: unsigned_of_nat take_bit_nat_eq_self)

lemma unat_size_u32: "n < 2 ^ 32 \<Longrightarrow> unat (word_of_nat n :: u32) = n"
  by (simp add: unsigned_of_nat take_bit_nat_eq_self)

text \<open>A size, and then what it counts.\<close>

lemma sized_read:
  assumes "codec serialize_arith (deserialize_arith :: 'w::len word reader) word_bytes (\<lambda>_. True)"
    and "ser_buffer s = pre @ (word_bytes (n :: 'w word) @ body) @ post" and "ser_pos s = length pre"
  shows "deserialize_arith s = Return (n, s\<lparr>ser_pos := length (pre @ word_bytes n)\<rparr>)"
  using codec.des_law [OF assms(1), where x = n and s = s and pre = pre and post = "body @ post"] assms(2,3) by simp

interpretation chars: codec serialize_string deserialize_string "\<lambda>v. word_bytes (word_of_nat (length v) :: u64) @ v" "\<lambda>v. length v < 2 ^ 64"
proof
  fix x :: bytes and s
  show "serialize_string x s = put_bytes (word_bytes (word_of_nat (length x) :: u64) @ x) s"
    by (simp add: serialize_string_def size.ser_law put_bytes_append)
next
  fix x :: bytes and s :: Serializer and pre post
  let ?n = "word_of_nat (length x) :: u64"
  assume len: "length x < 2 ^ 64" and b: "ser_buffer s = pre @ (word_bytes ?n @ x) @ post" and p: "ser_pos s = length pre"
  from sized_read [OF size.codec_axioms b p] show "deserialize_string s = Return (x, s\<lparr>ser_pos := length pre + length (word_bytes ?n @ x)\<rparr>)"
    using b unat_size_u64 [OF len] by (simp add: deserialize_string_def get_bytes_def)
qed

definition enc_seq :: "('a \<Rightarrow> bytes) \<Rightarrow> 'a list \<Rightarrow> bytes" where
  "enc_seq enc xs = word_bytes (word_of_nat (length xs) :: u32) @ concat (map enc xs)"

lemma seq_codec:
  fixes ser :: "'a writer"
  assumes "codec ser des enc valid"
  shows "codec (serialize_seq ser) (deserialize_seq des) (enc_seq enc) (\<lambda>xs. length xs < 2 ^ 32 \<and> list_all valid xs)"
proof
  fix xs :: "'a list" and s
  show "serialize_seq ser xs s = put_bytes (enc_seq enc xs) s"
    by (simp add: serialize_seq_def i32.ser_law codec.fold_ser [OF assms] put_bytes_append enc_seq_def)
next
  fix xs :: "'a list" and s :: Serializer and pre post
  let ?n = "word_of_nat (length xs) :: u32"
  assume v: "length xs < 2 ^ 32 \<and> list_all valid xs"
    and b: "ser_buffer s = pre @ enc_seq enc xs @ post" and p: "ser_pos s = length pre"
  have b': "ser_buffer s = pre @ (word_bytes ?n @ concat (map enc xs)) @ post" using b by (simp add: enc_seq_def)
  let ?s = "s\<lparr>ser_pos := length (pre @ word_bytes ?n)\<rparr>"
  have "deserialize_items des (length xs) ?s = Return (xs, ?s\<lparr>ser_pos := length (pre @ word_bytes ?n) + length (concat (map enc xs))\<rparr>)"
    using v b' by (intro codec.items_law [OF assms, where post = post]) simp_all
  then show "deserialize_seq des s = Return (xs, s\<lparr>ser_pos := length pre + length (enc_seq enc xs)\<rparr>)"
    using v unat_size_u32 [of "length xs"] sized_read [OF i32.codec_axioms b' p]
    by (simp add: deserialize_seq_def enc_seq_def add.assoc)
qed

lemma pair_codec:
  fixes sa :: "'a writer" and sb :: "'b writer"
  assumes a: "codec sa da ea va" and b: "codec sb db eb vb"
  shows "codec (serialize_pair sa sb) (deserialize_pair da db) (\<lambda>v. ea (fst v) @ eb (snd v)) (\<lambda>v. va (fst v) \<and> vb (snd v))"
proof
  fix v :: "'a \<times> 'b" and s
  show "serialize_pair sa sb v s = put_bytes (ea (fst v) @ eb (snd v)) s"
    by (simp add: serialize_pair_def codec.ser_law [OF a] codec.ser_law [OF b] put_bytes_append)
next
  fix v :: "'a \<times> 'b" and s :: Serializer and pre post
  assume v: "va (fst v) \<and> vb (snd v)" and buf: "ser_buffer s = pre @ (ea (fst v) @ eb (snd v)) @ post" and p: "ser_pos s = length pre"
  let ?s = "s\<lparr>ser_pos := length pre + length (ea (fst v))\<rparr>"
  have "da s = Return (fst v, ?s)"
    using codec.des_law [OF a, where x = "fst v" and s = s and pre = pre and post = "eb (snd v) @ post"] v buf p by simp
  moreover have "db ?s = Return (snd v, ?s\<lparr>ser_pos := length (pre @ ea (fst v)) + length (eb (snd v))\<rparr>)"
    using v buf by (intro codec.des_law [OF b, where post = post]) simp_all
  ultimately show "deserialize_pair da db s = Return (v, s\<lparr>ser_pos := length pre + length (ea (fst v) @ eb (snd v))\<rparr>)"
    by (simp add: deserialize_pair_def add.assoc)
qed

text \<open>A type that is written like another one.\<close>

lemma iso_codec:
  fixes ser :: "'a writer" and f :: "'b \<Rightarrow> 'a" and g :: "'a \<Rightarrow> 'b"
  assumes c: "codec ser des enc valid" and "\<And>x s. ser' x s = ser (f x) s"
    and "\<And>s. des' s = bind_outcome (des s) (\<lambda>(a, s'). Return (g a, s'))" and "\<And>x. g (f x) = x"
  shows "codec ser' des' (\<lambda>x. enc (f x)) (\<lambda>x. valid (f x))"
proof
  fix x :: 'b and s
  show "ser' x s = put_bytes (enc (f x)) s" using codec.ser_law [OF c] assms(2) by simp
next
  fix x :: 'b and s :: Serializer and pre post
  assume "valid (f x)" "ser_buffer s = pre @ enc (f x) @ post" "ser_pos s = length pre"
  from codec.des_law [OF c this] show "des' s = Return (x, s\<lparr>ser_pos := length pre + length (enc (f x))\<rparr>)"
    using assms(3,4) by simp
qed

text \<open>A map is written like a sequence of pairs, with a size of eight bytes.\<close>

lemma serialize_map_eq:
  assumes "codec sk dk ek vk" and "codec sv dv ev vv"
  shows "serialize_map sk sv m s = put_bytes (word_bytes (word_of_nat (length m) :: u64) @ concat (map (\<lambda>e. ek (fst e) @ ev (snd e)) m)) s"
proof -
  have "(\<lambda>(k, v) s. sv v (sk k s)) = serialize_pair sk sv" by (simp add: fun_eq_iff serialize_pair_def)
  then show ?thesis
    by (simp add: serialize_map_def codec.fold_ser [OF pair_codec [OF assms]] size.ser_law put_bytes_append)
qed

end
