(* ===== verification/Raft_Protocol.thy ===== *)
theory Raft_Protocol
  imports Serializer File_IO
begin

text \<open>
  \<^verbatim>\<open>raft/raft_protocol.h\<close> and \<^verbatim>\<open>raft/raft_storage.h\<close>: the messages of the consensus
  protocol with their encodings, and the storage of a node's persistent state. The
  commands of the replicated log are a type parameter with a codec of its own.

  An \<open>int32_t\<close> is an \<open>int\<close>; its encoding is that of the 32-bit word, so it is exact
  for the values of the type.
\<close>

section \<open>Numbers\<close>

definition serialize_int :: "int writer" where
  "serialize_int v = serialize_arith (word_of_int v :: u32)"

definition deserialize_int :: "int reader" where
  "deserialize_int s = bind_outcome (deserialize_arith s) (\<lambda>(w :: u32, s'). Return (sint w, s'))"

definition int32 :: "int \<Rightarrow> bool" where
  "int32 v \<longleftrightarrow> - (2 ^ 31) \<le> v \<and> v < 2 ^ 31"

section \<open>Messages\<close>

record RequestVoteArgs =
  rv_term :: int
  candidate_id :: int
  last_log_index :: int
  last_log_term :: int

definition RequestVoteArgs_serialize :: "RequestVoteArgs writer" where
  "RequestVoteArgs_serialize a s =
     serialize_int (last_log_term a) (serialize_int (last_log_index a)
       (serialize_int (candidate_id a) (serialize_int (rv_term a) s)))"

definition RequestVoteArgs_deserialize :: "RequestVoteArgs reader" where
  "RequestVoteArgs_deserialize s =
     bind_outcome (deserialize_int s) (\<lambda>(t, s).
     bind_outcome (deserialize_int s) (\<lambda>(c, s).
     bind_outcome (deserialize_int s) (\<lambda>(i, s).
     bind_outcome (deserialize_int s) (\<lambda>(lt, s).
       Return (\<lparr>rv_term = t, candidate_id = c, last_log_index = i, last_log_term = lt\<rparr>, s)))))"

record RequestVoteReply =
  rvr_term :: int
  vote_granted :: bool

definition RequestVoteReply_serialize :: "RequestVoteReply writer" where
  "RequestVoteReply_serialize r s = serialize_bool (vote_granted r) (serialize_int (rvr_term r) s)"

definition RequestVoteReply_deserialize :: "RequestVoteReply reader" where
  "RequestVoteReply_deserialize s =
     bind_outcome (deserialize_int s) (\<lambda>(t, s).
     bind_outcome (deserialize_bool s) (\<lambda>(g, s). Return (\<lparr>rvr_term = t, vote_granted = g\<rparr>, s)))"

record 'c LogEntry =
  le_cmd :: 'c
  le_term :: int

definition LogEntry_serialize :: "'c writer \<Rightarrow> 'c LogEntry writer" where
  "LogEntry_serialize serc e s = serialize_int (le_term e) (serc (le_cmd e) s)"

definition LogEntry_deserialize :: "'c reader \<Rightarrow> 'c LogEntry reader" where
  "LogEntry_deserialize desc s =
     bind_outcome (desc s) (\<lambda>(c, s).
     bind_outcome (deserialize_int s) (\<lambda>(t, s). Return (\<lparr>le_cmd = c, le_term = t\<rparr>, s)))"

record 'c AppendEntriesArgs =
  ae_term :: int
  ae_leader_id :: int
  prev_log_index :: int
  prev_log_term :: int
  entries :: "'c LogEntry list"
  leader_commit :: int

definition AppendEntriesArgs_serialize :: "'c writer \<Rightarrow> 'c AppendEntriesArgs writer" where
  "AppendEntriesArgs_serialize serc a s =
     serialize_int (leader_commit a) (serialize_seq (LogEntry_serialize serc) (entries a)
       (serialize_int (prev_log_term a) (serialize_int (prev_log_index a)
         (serialize_int (ae_leader_id a) (serialize_int (ae_term a) s)))))"

definition AppendEntriesArgs_deserialize :: "'c reader \<Rightarrow> 'c AppendEntriesArgs reader" where
  "AppendEntriesArgs_deserialize desc s =
     bind_outcome (deserialize_int s) (\<lambda>(t, s).
     bind_outcome (deserialize_int s) (\<lambda>(l, s).
     bind_outcome (deserialize_int s) (\<lambda>(pi, s).
     bind_outcome (deserialize_int s) (\<lambda>(pt, s).
     bind_outcome (deserialize_seq (LogEntry_deserialize desc) s) (\<lambda>(es, s).
     bind_outcome (deserialize_int s) (\<lambda>(lc, s).
       Return (\<lparr>ae_term = t, ae_leader_id = l, prev_log_index = pi, prev_log_term = pt, entries = es, leader_commit = lc\<rparr>, s)))))))"

text \<open>The reply to \<open>AppendEntries\<close>; its \<open>serialize\<close> and \<open>deserialize\<close> have empty bodies, so the
  struct that is read into, here \<open>init\<close>, stays as it was.\<close>

record AppendEntriesReply =
  aer_term :: int
  success :: bool

definition AppendEntriesReply_serialize :: "AppendEntriesReply writer" where
  "AppendEntriesReply_serialize r s = s"

definition AppendEntriesReply_deserialize :: "AppendEntriesReply \<Rightarrow> AppendEntriesReply reader" where
  "AppendEntriesReply_deserialize init s = Return (init, s)"

section \<open>Storage\<close>

record 'c RaftStorage =
  rs_current_term :: int
  rs_vote_for :: int
  rs_log :: "'c LogEntry list"
  rs_file :: string
  rs_ofs :: nat

text \<open>\<open>AddLog\<close> in its three overloads; the last one fills a gap with default entries.\<close>

definition AddLog :: "'c LogEntry \<Rightarrow> 'c LogEntry list \<Rightarrow> 'c LogEntry list" where
  "AddLog e log = log @ [e]"

definition AddLogs :: "'c LogEntry list \<Rightarrow> 'c LogEntry list \<Rightarrow> 'c LogEntry list" where
  "AddLogs es log = log @ es"

definition AddLogAt :: "'c LogEntry \<Rightarrow> nat \<Rightarrow> 'c LogEntry list \<Rightarrow> 'c LogEntry list \<Rightarrow> 'c LogEntry list" where
  "AddLogAt dflt log_insert_index es log =
     (let need_size = log_insert_index + length es;
          log' = (if length log < need_size then log @ replicate (need_size - length log) dflt else log)
      in take log_insert_index log' @ es @ drop need_size log')"

definition RaftStorage_serialize :: "'c writer \<Rightarrow> 'c RaftStorage writer" where
  "RaftStorage_serialize serc st s =
     serialize_seq (LogEntry_serialize serc) (rs_log st) (serialize_int (rs_vote_for st) (serialize_int (rs_current_term st) s))"

definition RaftStorage_deserialize :: "'c reader \<Rightarrow> Serializer \<Rightarrow> ((int \<times> int \<times> 'c LogEntry list) \<times> Serializer) outcome" where
  "RaftStorage_deserialize desc s =
     bind_outcome (deserialize_int s) (\<lambda>(t, s).
     bind_outcome (deserialize_int s) (\<lambda>(v, s).
     bind_outcome (deserialize_seq (LogEntry_deserialize desc) s) (\<lambda>(l, s). Return ((t, v, l), s))))"

text \<open>
  The file is opened without \<open>O_APPEND\<close>: a \<open>write\<close> goes to the offset of the descriptor and moves
  it. A failed write is only logged.
\<close>

definition write_at :: "string \<Rightarrow> nat \<Rightarrow> bytes \<Rightarrow> world \<Rightarrow> int \<times> world" where
  "write_at p ofs bs w =
     (case content w p of None \<Rightarrow> (-1, w)
      | Some c \<Rightarrow>
         (case wr_script w of [] \<Rightarrow> (int (length bs), set_content p (take ofs c @ bs @ drop (ofs + length bs) c) w)
          | r # rs \<Rightarrow>
             (if r < 0 then (-1, w\<lparr>wr_script := rs\<rparr>)
              else let n = min (nat r) (length bs)
                   in (int n, set_content p (take ofs c @ take n bs @ drop (ofs + n) c) (w\<lparr>wr_script := rs\<rparr>)))))"

definition RaftStorage_Flush :: "'c writer \<Rightarrow> 'c RaftStorage \<times> world \<Rightarrow> 'c RaftStorage \<times> world" where
  "RaftStorage_Flush serc = (\<lambda>(st, w).
     let (res, w') = write_at (rs_file st) (rs_ofs st) (Serializer_str (RaftStorage_serialize serc st (Serializer_init []))) w
     in (if res < 0 then st else st\<lparr>rs_ofs := rs_ofs st + nat res\<rparr>, w'))"

definition RaftStorage_init :: "'c reader \<Rightarrow> string \<Rightarrow> world \<Rightarrow> 'c RaftStorage outcome \<times> world" where
  "RaftStorage_init desc file_dir w =
     (let p = file_dir @ ''/data''; w' = open_create p w; file_size = FileIO_Size p w';
          fresh = \<lparr>rs_current_term = 0, rs_vote_for = -1, rs_log = [], rs_file = p, rs_ofs = 0\<rparr>
      in if file_size > 0
         then (case FileIO_Read p file_size 0 w' of (res, buffer) \<Rightarrow>
                 if res < 0 then (Return fresh, w')
                 else
                   (bind_outcome (RaftStorage_deserialize desc (Serializer_init buffer)) (\<lambda>((t, v, l), _).
                      Return (fresh\<lparr>rs_current_term := t, rs_vote_for := v, rs_log := l\<rparr>)), w'))
         else (Return fresh, w'))"

section \<open>The codecs\<close>

lemma codec_weaken: "codec ser des enc v \<Longrightarrow> (\<And>x. v' x \<Longrightarrow> v x) \<Longrightarrow> codec ser des enc v'"
  unfolding codec_def by blast

definition enc_int :: "int \<Rightarrow> bytes" where
  "enc_int v = word_bytes (word_of_int v :: u32)"

interpretation int32: codec serialize_int deserialize_int enc_int int32
proof
  fix x :: int and s
  show "serialize_int x s = put_bytes (enc_int x) s" by (simp add: serialize_int_def enc_int_def i32.ser_law)
next
  fix x :: int and s :: Serializer and pre post
  assume v: "int32 x" and b: "ser_buffer s = pre @ enc_int x @ post" and p: "ser_pos s = length pre"
  have "sint (word_of_int x :: u32) = x"
    using v by (simp add: int32_def signed_of_int signed_take_bit_int_eq_self)
  then show "deserialize_int s = Return (x, s\<lparr>ser_pos := length pre + length (enc_int x)\<rparr>)"
    using i32.des_law [where x = "word_of_int x" and s = s and pre = pre and post = post] b p
    by (simp add: deserialize_int_def enc_int_def)
qed

lemmas message_defs = RequestVoteArgs_serialize_def RequestVoteArgs_deserialize_def RequestVoteReply_serialize_def
  RequestVoteReply_deserialize_def LogEntry_serialize_def LogEntry_deserialize_def AppendEntriesArgs_serialize_def
  AppendEntriesArgs_deserialize_def RaftStorage_serialize_def RaftStorage_deserialize_def
  serialize_pair_def deserialize_pair_def bind_outcome_def

definition vote_tuple :: "RequestVoteArgs \<Rightarrow> int \<times> int \<times> int \<times> int" where
  "vote_tuple a = (rv_term a, candidate_id a, last_log_index a, last_log_term a)"

lemma vote_args_codec:
  "codec RequestVoteArgs_serialize RequestVoteArgs_deserialize
     (\<lambda>a. case vote_tuple a of (t, c, i, l) \<Rightarrow> enc_int t @ enc_int c @ enc_int i @ enc_int l)
     (\<lambda>a. case vote_tuple a of (t, c, i, l) \<Rightarrow> int32 t \<and> int32 c \<and> int32 i \<and> int32 l)"
  unfolding split_def
  by (rule iso_codec [OF pair_codec [OF int32.codec_axioms pair_codec [OF int32.codec_axioms
          pair_codec [OF int32.codec_axioms int32.codec_axioms]]],
        where f = vote_tuple and g = "\<lambda>(t, c, i, lt). \<lparr>rv_term = t, candidate_id = c, last_log_index = i, last_log_term = lt\<rparr>"])
    (auto simp: message_defs vote_tuple_def split: outcome.split)

lemma vote_reply_codec:
  "codec RequestVoteReply_serialize RequestVoteReply_deserialize
     (\<lambda>r. enc_int (fst (rvr_term r, vote_granted r)) @ [if snd (rvr_term r, vote_granted r) then 1 else 0])
     (\<lambda>r. int32 (fst (rvr_term r, vote_granted r)) \<and> True)"
  by (rule iso_codec [OF pair_codec [OF int32.codec_axioms boolean.codec_axioms],
        where f = "\<lambda>r. (rvr_term r, vote_granted r)" and g = "\<lambda>(t, b). \<lparr>rvr_term = t, vote_granted = b\<rparr>"])
    (auto simp: message_defs split: outcome.split)

lemma entry_codec:
  assumes "codec serc desc encc validc"
  shows "codec (LogEntry_serialize serc) (LogEntry_deserialize desc)
     (\<lambda>e. encc (fst (le_cmd e, le_term e)) @ enc_int (snd (le_cmd e, le_term e)))
     (\<lambda>e. validc (fst (le_cmd e, le_term e)) \<and> int32 (snd (le_cmd e, le_term e)))"
  by (rule iso_codec [OF pair_codec [OF assms int32.codec_axioms],
        where f = "\<lambda>e. (le_cmd e, le_term e)" and g = "\<lambda>(c, t). \<lparr>le_cmd = c, le_term = t\<rparr>"])
    (auto simp: message_defs split: outcome.split)

definition append_tuple :: "'c AppendEntriesArgs \<Rightarrow> int \<times> int \<times> int \<times> int \<times> 'c LogEntry list \<times> int" where
  "append_tuple a = (ae_term a, ae_leader_id a, prev_log_index a, prev_log_term a, entries a, leader_commit a)"

definition enc_log :: "('c \<Rightarrow> bytes) \<Rightarrow> 'c LogEntry list \<Rightarrow> bytes" where
  "enc_log encc = enc_seq (\<lambda>e. encc (le_cmd e) @ enc_int (le_term e))"

definition valid_log :: "('c \<Rightarrow> bool) \<Rightarrow> 'c LogEntry list \<Rightarrow> bool" where
  "valid_log validc es \<longleftrightarrow> length es < 2 ^ 32 \<and> list_all (\<lambda>e. validc (le_cmd e) \<and> int32 (le_term e)) es"

lemma log_codec:
  assumes "codec serc desc encc validc"
  shows "codec (serialize_seq (LogEntry_serialize serc)) (deserialize_seq (LogEntry_deserialize desc)) (enc_log encc) (valid_log validc)"
  using seq_codec [OF entry_codec [OF assms]] by (simp add: enc_log_def valid_log_def [abs_def])

lemma append_args_codec:
  assumes "codec serc desc encc validc"
  shows "codec (AppendEntriesArgs_serialize serc) (AppendEntriesArgs_deserialize desc)
     (\<lambda>a. case append_tuple a of (t, l, i, p, es, c) \<Rightarrow>
        enc_int t @ enc_int l @ enc_int i @ enc_int p @ enc_log encc es @ enc_int c)
     (\<lambda>a. case append_tuple a of (t, l, i, p, es, c) \<Rightarrow>
        int32 t \<and> int32 l \<and> int32 i \<and> int32 p \<and> valid_log validc es \<and> int32 c)"
  unfolding split_def
  by (rule iso_codec [OF pair_codec [OF int32.codec_axioms pair_codec [OF int32.codec_axioms
          pair_codec [OF int32.codec_axioms pair_codec [OF int32.codec_axioms
          pair_codec [OF log_codec [OF assms] int32.codec_axioms]]]]],
        where f = append_tuple and g = "\<lambda>(t, l, i, p, es, c). \<lparr>ae_term = t, ae_leader_id = l, prev_log_index = i,
          prev_log_term = p, entries = es, leader_commit = c\<rparr>"])
    (auto simp: message_defs append_tuple_def split: outcome.split)

definition enc_storage :: "('c \<Rightarrow> bytes) \<Rightarrow> 'c RaftStorage \<Rightarrow> bytes" where
  "enc_storage encc st = enc_int (rs_current_term st) @ enc_int (rs_vote_for st) @ enc_log encc (rs_log st)"

definition valid_storage :: "('c \<Rightarrow> bool) \<Rightarrow> 'c RaftStorage \<Rightarrow> bool" where
  "valid_storage validc st \<longleftrightarrow> int32 (rs_current_term st) \<and> int32 (rs_vote_for st) \<and> valid_log validc (rs_log st)"

lemma storage_bytes:
  assumes "codec serc desc encc validc"
  shows "Serializer_str (RaftStorage_serialize serc st (Serializer_init [])) = enc_storage encc st"
  using codec.ser_law [OF log_codec [OF assms]] int32.ser_law
  by (simp add: RaftStorage_serialize_def Serializer_str_def Serializer_init_def put_bytes_def enc_storage_def)

lemma storage_read:
  assumes c: "codec serc desc encc validc" and "valid_storage validc st"
  shows "\<exists>s. RaftStorage_deserialize desc (Serializer_init (enc_storage encc st @ rest))
      = Return ((rs_current_term st, rs_vote_for st, rs_log st), s)"
proof -
  let ?t = "(rs_current_term st, rs_vote_for st, rs_log st)"
  note p = pair_codec [OF int32.codec_axioms pair_codec [OF int32.codec_axioms log_codec [OF c]]]
  have "\<exists>s. deserialize_pair deserialize_int (deserialize_pair deserialize_int (deserialize_seq (LogEntry_deserialize desc)))
      (Serializer_init (enc_storage encc st @ rest)) = Return (?t, s)"
    using codec.des_law [OF p, where x = ?t and pre = "[]" and post = rest and s = "Serializer_init (enc_storage encc st @ rest)"]
      assms(2) by (simp add: valid_storage_def Serializer_init_def enc_storage_def)
  then show ?thesis by (auto simp: message_defs split: outcome.splits)
qed

section \<open>Flushing and reloading\<close>

lemma Flush_append:
  assumes "codec serc desc encc validc" and "content w (rs_file st) = Some c" and "rs_ofs st = length c" and "wr_script w = []"
  shows "RaftStorage_Flush serc (st, w) = (st\<lparr>rs_ofs := length c + length (enc_storage encc st)\<rparr>,
    set_content (rs_file st) (c @ enc_storage encc st) w)"
  using assms(2-4) by (simp add: RaftStorage_Flush_def write_at_def storage_bytes [OF assms(1)])

lemma enc_storage_nonempty [simp]: "enc_storage encc st \<noteq> []"
  by (simp add: enc_storage_def enc_int_def word_bytes_def)

lemma init_reads_first:
  assumes "codec serc desc encc validc" and "valid_storage validc st"
    and "content w (dir @ ''/data'') = Some (enc_storage encc st @ rest)" and "length (enc_storage encc st @ rest) < 2 ^ 31"
  shows "fst (RaftStorage_init desc dir w) = Return \<lparr>rs_current_term = rs_current_term st, rs_vote_for = rs_vote_for st,
    rs_log = rs_log st, rs_file = dir @ ''/data'', rs_ofs = 0\<rparr>"
  using storage_read [OF assms(1,2), of rest] assms(3) as_int_small [OF assms(4)]
  by (auto simp: RaftStorage_init_def Let_def open_create_def FileIO_Size_def FileIO_Read_def)

section \<open>Properties\<close>

text \<open>C34. An \<open>AppendEntries\<close> request arrives as it was sent, for any command type whose own
  \<open>serialize\<close> and \<open>deserialize\<close> form a codec.\<close>

theorem append_entries_roundtrip:
  assumes "codec serc desc encc validc"
    and "int32 (ae_term a)" "int32 (ae_leader_id a)" "int32 (prev_log_index a)" "int32 (prev_log_term a)" "int32 (leader_commit a)"
    and "length (entries a) < 2 ^ 32" and "list_all (\<lambda>e. validc (le_cmd e) \<and> int32 (le_term e)) (entries a)"
  shows "\<exists>s. AppendEntriesArgs_deserialize desc (Serializer_init (Serializer_str
      (AppendEntriesArgs_serialize serc a (Serializer_init [])))) = Return (a, s)"
  using codec.roundtrip [OF append_args_codec [OF assms(1)], of a "[]"] assms(2-)
  by (simp add: append_tuple_def valid_log_def)

definition ex_append :: "bytes AppendEntriesArgs" where
  "ex_append = \<lparr>ae_term = 3, ae_leader_id = 0, prev_log_index = -1, prev_log_term = 2,
     entries = [\<lparr>le_cmd = [7, 8], le_term = 3\<rparr>, \<lparr>le_cmd = [], le_term = 3\<rparr>], leader_commit = 1\<rparr>"

theorem append_entries_roundtrip_witness:
  "\<exists>s. AppendEntriesArgs_deserialize deserialize_string (Serializer_init (Serializer_str
      (AppendEntriesArgs_serialize serialize_string ex_append (Serializer_init [])))) = Return (ex_append, s)"
  by (rule append_entries_roundtrip [OF chars.codec_axioms]) (simp_all add: ex_append_def int32_def)

text \<open>The reply to \<open>AppendEntries\<close> carries nothing: what is sent does not depend on the reply, and
  what is received is what the receiver's struct held before.\<close>

theorem append_reply_lost:
  "AppendEntriesReply_serialize r s = AppendEntriesReply_serialize r' s
     \<and> AppendEntriesReply_deserialize init (Serializer_init (Serializer_str (AppendEntriesReply_serialize r (Serializer_init []))))
       = Return (init, Serializer_init [])"
  by (simp add: AppendEntriesReply_serialize_def AppendEntriesReply_deserialize_def Serializer_str_def Serializer_init_def)

text \<open>C35. The state of a node that flushed once to an empty file is what a restart reads, if its encoding is shorter than \<open>2 ^ 31\<close>
  bytes, from which on the result of reading the file is negative.\<close>

theorem storage_roundtrip:
  assumes "codec serc desc encc validc" and "valid_storage validc st" and "rs_file st = dir @ ''/data''" and "rs_ofs st = 0"
    and "content w (dir @ ''/data'') = Some []" and "wr_script w = []"
    and "length (Serializer_str (RaftStorage_serialize serc st (Serializer_init []))) < 2 ^ 31"
  shows "fst (RaftStorage_init desc dir (snd (RaftStorage_Flush serc (st, w)))) = Return (st\<lparr>rs_ofs := 0\<rparr>)"
proof -
  let ?w = "snd (RaftStorage_Flush serc (st, w))"
  have "content ?w (dir @ ''/data'') = Some (enc_storage encc st @ [])"
    using Flush_append [OF assms(1), of w st "[]"] assms(3-) by (simp add: content_set_content)
  from init_reads_first [OF assms(1,2) this] assms(3,7) storage_bytes [OF assms(1), of st] show ?thesis by simp
qed

definition ex_storage :: "bytes RaftStorage" where
  "ex_storage = \<lparr>rs_current_term = 1, rs_vote_for = -1, rs_log = [\<lparr>le_cmd = [7], le_term = 1\<rparr>], rs_file = ''/raft/data'', rs_ofs = 0\<rparr>"

definition ex_raft_world :: world where
  "ex_raft_world = \<lparr>files = [(''/raft/data'', [])], dirs = [''/raft''], dir_order = id, wr_script = [], sync_script = []\<rparr>"

lemma ex_storage_ok:
  "valid_storage (\<lambda>v. length v < 2 ^ 64) ex_storage" "rs_file ex_storage = ''/raft'' @ ''/data''" "rs_ofs ex_storage = 0"
  "content ex_raft_world (''/raft'' @ ''/data'') = Some []" "wr_script ex_raft_world = []"
  by (simp_all add: ex_storage_def ex_raft_world_def valid_storage_def valid_log_def int32_def content_def)

theorem storage_roundtrip_witness:
  "fst (RaftStorage_init deserialize_string ''/raft'' (snd (RaftStorage_Flush serialize_string (ex_storage, ex_raft_world))))
     = Return (ex_storage\<lparr>rs_ofs := 0\<rparr>)"
proof -
  have "length (Serializer_str (RaftStorage_serialize serialize_string ex_storage (Serializer_init []))) < 100" by code_simp
  then have "length (Serializer_str (RaftStorage_serialize serialize_string ex_storage (Serializer_init []))) < 2 ^ 31" by (rule less_trans) simp
  from storage_roundtrip [OF chars.codec_axioms ex_storage_ok this] show ?thesis .
qed

text \<open>Every further \<open>Flush\<close> goes behind the one before, and a restart reads from the start of
  the file: after two of them it reads the state of the first, whatever the second wrote.\<close>

theorem storage_reload_stale:
  assumes "codec serc desc encc validc" and "valid_storage validc st" and "rs_file st = dir @ ''/data''" and "rs_ofs st = 0"
    and "content w (dir @ ''/data'') = Some []" and "wr_script w = []"
    and "length (enc_storage encc st) + length (enc_storage encc (st\<lparr>rs_current_term := t, rs_vote_for := v, rs_log := l\<rparr>)) < 2 ^ 31"
  shows "\<exists>st1 w1. RaftStorage_Flush serc (st, w) = (st1, w1)
    \<and> fst (RaftStorage_init desc dir (snd (RaftStorage_Flush serc (st1\<lparr>rs_current_term := t, rs_vote_for := v, rs_log := l\<rparr>, w1))))
        = Return (st\<lparr>rs_ofs := 0\<rparr>)"
proof -
  let ?st1 = "st\<lparr>rs_ofs := length (enc_storage encc st)\<rparr>" and ?w1 = "set_content (dir @ ''/data'') (enc_storage encc st) w"
  let ?st2 = "?st1\<lparr>rs_current_term := t, rs_vote_for := v, rs_log := l\<rparr>"
  have f1: "RaftStorage_Flush serc (st, w) = (?st1, ?w1)"
    using Flush_append [OF assms(1), of w st "[]"] assms(3-) by simp
  have "content (snd (RaftStorage_Flush serc (?st2, ?w1))) (dir @ ''/data'') = Some (enc_storage encc st @ enc_storage encc ?st2)"
    using Flush_append [OF assms(1), of ?w1 ?st2 "enc_storage encc st"] assms(3,6) by (simp add: content_set_content)
  moreover have "length (enc_storage encc st @ enc_storage encc ?st2) < 2 ^ 31" using assms(7) by (simp add: enc_storage_def)
  ultimately show ?thesis using init_reads_first [OF assms(1,2)] assms(3) f1 by simp
qed

theorem storage_reload_stale_witness:
  "\<exists>st1 w1. RaftStorage_Flush serialize_string (ex_storage, ex_raft_world) = (st1, w1)
    \<and> fst (RaftStorage_init deserialize_string ''/raft'' (snd (RaftStorage_Flush serialize_string
         (st1\<lparr>rs_current_term := 9, rs_vote_for := 2, rs_log := []\<rparr>, w1)))) = Return (ex_storage\<lparr>rs_ofs := 0\<rparr>)"
proof -
  let ?e = "\<lambda>v. word_bytes (word_of_nat (length v) :: u64) @ v"
  have "length (enc_storage ?e ex_storage) + length (enc_storage ?e (ex_storage\<lparr>rs_current_term := 9, rs_vote_for := 2, rs_log := []\<rparr>)) < 100" by code_simp
  then have "length (enc_storage ?e ex_storage) + length (enc_storage ?e (ex_storage\<lparr>rs_current_term := 9, rs_vote_for := 2, rs_log := []\<rparr>)) < 2 ^ 31" by (rule less_trans) simp
  from storage_reload_stale [OF chars.codec_axioms ex_storage_ok this] show ?thesis .
qed

end
