(* ===== verification/Raft.thy ===== *)
theory Raft
  imports Raft_Protocol Random_Gen
begin

text \<open>
  \<^verbatim>\<open>raft/raft.h\<close>: a node of the consensus protocol. The handlers and the bodies of the
  background loops hold the node's mutex for their whole run, so each is one step on
  the state of the node. A coroutine that awaits a reply is two steps: what it sends,
  and what it does with the reply.

  \<open>serc\<close> is the \<open>serialize\<close> of the command type, \<open>dflt\<close> a default-constructed entry, and
  \<open>now\<close> the value of the clock. Terms and indices are integers; they are far from the
  bounds of \<open>int32_t\<close>.
\<close>

section \<open>The state of a node\<close>

datatype RaftRole = follower | candidate | leader

record 'c Raft =
  my_id :: int
  num_nodes :: nat
  stopped :: bool
  role :: RaftRole
  follower_id_set :: "int list"
  current_term :: int
  vote_for :: int
  storage :: "'c RaftStorage"
  disk :: world
  commit_index :: int
  last_applied :: int
  next_index :: "int list"
  match_index :: "int list"
  last_received_rpc_time :: int
  rander :: Random
  applied :: "'c list"

text \<open>The state machine is the list of the commands it was given.\<close>

definition Raft_init :: "int \<Rightarrow> nat \<Rightarrow> 'c RaftStorage \<Rightarrow> world \<Rightarrow> Random \<Rightarrow> int \<Rightarrow> 'c Raft" where
  "Raft_init idx n st w r now =
     \<lparr>my_id = idx, num_nodes = n, stopped = False, role = follower, follower_id_set = [], current_term = 0,
      vote_for = -1, storage = st, disk = w, commit_index = 0, last_applied = 0, next_index = [],
      match_index = [], last_received_rpc_time = now, rander = r, applied = []\<rparr>"

abbreviation raft_log :: "'c Raft \<Rightarrow> 'c LogEntry list" where
  "raft_log n \<equiv> rs_log (storage n)"

definition flush_storage :: "'c writer \<Rightarrow> 'c Raft \<Rightarrow> 'c Raft" where
  "flush_storage serc n = (let (st, w) = RaftStorage_Flush serc (storage n, disk n) in n\<lparr>storage := st, disk := w\<rparr>)"

definition RoleToString :: "RaftRole \<Rightarrow> string" where
  "RoleToString r = (case r of follower \<Rightarrow> ''follower'' | candidate \<Rightarrow> ''candidate'' | leader \<Rightarrow> ''leader'')"

section \<open>Helpers\<close>

definition GetLastLogIndex :: "'c Raft \<Rightarrow> int" where
  "GetLastLogIndex n = int (length (raft_log n))"

text \<open>An access to an element of a vector; outside of it the behaviour is undefined.\<close>

definition vec_at :: "'a list \<Rightarrow> int \<Rightarrow> 'a outcome" where
  "vec_at xs i = (if 0 \<le> i \<and> i < int (length xs) then Return (xs ! nat i) else Fault OutOfBounds)"

definition GetLogTerm :: "int \<Rightarrow> 'c Raft \<Rightarrow> int outcome" where
  "GetLogTerm log_index n =
     (if log_index > GetLastLogIndex n then Return (-1)
      else if log_index = 0 then Return 0
      else bind_outcome (vec_at (raft_log n) (log_index - 1)) (\<lambda>e. Return (le_term e)))"

definition BeginNewTerm :: "'c writer \<Rightarrow> int \<Rightarrow> int \<Rightarrow> 'c Raft \<Rightarrow> 'c Raft" where
  "BeginNewTerm serc now term n =
     flush_storage serc (n\<lparr>current_term := term, last_received_rpc_time := now, follower_id_set := [],
       storage := (storage n)\<lparr>rs_current_term := term, rs_vote_for := -1\<rparr>\<rparr>)"

definition BecomeFollower :: "'c writer \<Rightarrow> int \<Rightarrow> int \<Rightarrow> 'c Raft \<Rightarrow> 'c Raft" where
  "BecomeFollower serc now term n = BeginNewTerm serc now term (n\<lparr>role := follower, vote_for := -1\<rparr>)"

definition BecomeCandidate :: "'c writer \<Rightarrow> int \<Rightarrow> int \<Rightarrow> 'c Raft \<Rightarrow> 'c Raft" where
  "BecomeCandidate serc now term n = BeginNewTerm serc now term (n\<lparr>role := candidate, vote_for := my_id n\<rparr>)"

definition BecomeLeader :: "'c Raft \<Rightarrow> 'c Raft" where
  "BecomeLeader n = n\<lparr>role := leader, next_index := replicate (num_nodes n) (GetLastLogIndex n + 1),
     match_index := replicate (num_nodes n) 0\<rparr>"

section \<open>Clients\<close>

text \<open>The result, and the term and the index that are returned through the references.\<close>

definition NewCommand :: "'c writer \<Rightarrow> 'c \<Rightarrow> 'c Raft \<Rightarrow> (int \<times> int) option \<times> 'c Raft" where
  "NewCommand serc cmd n =
     (if stopped n \<or> role n \<noteq> leader then (None, n)
      else (Some (current_term n, GetLastLogIndex n),
            flush_storage serc (n\<lparr>storage := (storage n)\<lparr>rs_log :=
              AddLog \<lparr>le_cmd = cmd, le_term = current_term n\<rparr> (raft_log n)\<rparr>\<rparr>)))"

definition IsLeader :: "'c Raft \<Rightarrow> bool \<times> int" where
  "IsLeader n = (role n = leader, current_term n)"

definition Raft_Stop :: "'c Raft \<Rightarrow> 'c Raft" where
  "Raft_Stop n = n\<lparr>stopped := True\<rparr>"

section \<open>Handlers of requests\<close>

definition RequestVote :: "'c writer \<Rightarrow> int \<Rightarrow> RequestVoteArgs \<Rightarrow> 'c Raft \<Rightarrow> (RequestVoteReply \<times> 'c Raft) outcome" where
  "RequestVote serc now args n =
     (if stopped n then Return (\<lparr>rvr_term = 0, vote_granted = False\<rparr>, n)
      else let n1 = (if rv_term args > current_term n then BecomeFollower serc now (rv_term args) n else n)
           in if rv_term args = current_term n1 \<and> (vote_for n1 = -1 \<or> vote_for n1 = candidate_id args)
              then let my_last_index = GetLastLogIndex n1
                   in bind_outcome (GetLogTerm my_last_index n1) (\<lambda>my_last_term.
                      if my_last_term < last_log_term args
                         \<or> my_last_term = last_log_term args \<and> my_last_index \<le> last_log_index args
                      then Return (\<lparr>rvr_term = current_term n1, vote_granted = True\<rparr>, n1\<lparr>vote_for := candidate_id args\<rparr>)
                      else Return (\<lparr>rvr_term = current_term n1, vote_granted = False\<rparr>, n1))
              else Return (\<lparr>rvr_term = current_term n1, vote_granted = False\<rparr>, n1))"

text \<open>The loop that looks for the insertion point: the positions in the log and in the new entries where it stops.\<close>

function skip_matching :: "'c LogEntry list \<Rightarrow> 'c LogEntry list \<Rightarrow> int \<Rightarrow> int \<Rightarrow> (int \<times> int) outcome" where
  "skip_matching log es log_insert_index new_entries_index =
     (if log_insert_index \<ge> int (length log) \<or> new_entries_index \<ge> int (length es)
      then Return (log_insert_index, new_entries_index)
      else case vec_at log log_insert_index of Fault f \<Rightarrow> Fault f | Return a \<Rightarrow>
        (case vec_at es new_entries_index of Fault f \<Rightarrow> Fault f | Return b \<Rightarrow>
          if le_term a \<noteq> le_term b then Return (log_insert_index, new_entries_index)
          else skip_matching log es (log_insert_index + 1) (new_entries_index + 1)))"
  by pat_completeness auto
termination
  by (relation "measure (\<lambda>(log, es, i, j). nat (int (length es) - j))") auto

declare skip_matching.simps [simp del]

definition is_log_index_matched :: "int \<Rightarrow> int \<Rightarrow> 'c Raft \<Rightarrow> bool outcome" where
  "is_log_index_matched p_index p_term n =
     (if p_index > GetLastLogIndex n then Return False
      else bind_outcome (GetLogTerm p_index n) (\<lambda>t. Return (p_term = t)))"

text \<open>What is done with the entries when the previous one matches.\<close>

definition accept_entries :: "'c LogEntry \<Rightarrow> 'c AppendEntriesArgs \<Rightarrow> 'c Raft \<Rightarrow> 'c Raft outcome" where
  "accept_entries dflt args n =
     bind_outcome (skip_matching (raft_log n) (entries args) (prev_log_index args + 1) 0) (\<lambda>(log_insert_index, new_entries_index).
     let n1 = (if new_entries_index < int (length (entries args))
               then n\<lparr>storage := (storage n)\<lparr>rs_log :=
                 AddLogAt dflt (nat log_insert_index) (drop (nat new_entries_index) (entries args)) (raft_log n)\<rparr>\<rparr> else n)
     in Return (if leader_commit args > commit_index n1
         then n1\<lparr>commit_index := min (leader_commit args) (int (length (raft_log n1)) - 1)\<rparr> else n1))"

definition AppendEntries ::
    "'c LogEntry \<Rightarrow> 'c writer \<Rightarrow> int \<Rightarrow> 'c AppendEntriesArgs \<Rightarrow> 'c Raft \<Rightarrow> (AppendEntriesReply \<times> 'c Raft) outcome" where
  "AppendEntries dflt serc now args n =
     (if ae_term args < current_term n \<or> stopped n then Return (\<lparr>aer_term = current_term n, success = False\<rparr>, n)
      else let n1 = (if ae_term args > current_term n then BecomeFollower serc now (ae_term args) n else n)
           in if entries args = []
              then let n2 = (if role n1 \<noteq> follower then BecomeFollower serc now (ae_term args) n1 else n1)
                   in Return (\<lparr>aer_term = 0, success = False\<rparr>, n2\<lparr>last_received_rpc_time := now\<rparr>)
              else if ae_term args = current_term n1
              then let n2 = (if role n1 \<noteq> follower then BecomeFollower serc now (ae_term args) n1 else n1)
                              \<lparr>last_received_rpc_time := now\<rparr>
                   in bind_outcome (is_log_index_matched (prev_log_index args) (prev_log_term args) n2) (\<lambda>b.
                      if b then bind_outcome (accept_entries dflt args n2) (\<lambda>n3.
                                Return (\<lparr>aer_term = current_term n3, success = True\<rparr>, n3))
                      else Return (\<lparr>aer_term = current_term n2, success = False\<rparr>, n2))
              else Return (\<lparr>aer_term = current_term n1, success = False\<rparr>, n1))"

section \<open>Replies\<close>

text \<open>\<open>SendRequestVote\<close> and \<open>SendAppendEntries\<close> after the awaited reply arrived.\<close>

definition OnVoteReply :: "'c writer \<Rightarrow> int \<Rightarrow> int \<Rightarrow> int \<Rightarrow> RequestVoteReply \<Rightarrow> 'c Raft \<Rightarrow> 'c Raft" where
  "OnVoteReply serc now target saved_current_term reply n =
     (if role n \<noteq> candidate then n
      else if rvr_term reply > saved_current_term then BecomeFollower serc now (rvr_term reply) n
      else let n1 = (if rvr_term reply = saved_current_term \<and> vote_granted reply
                     then n\<lparr>follower_id_set := List.insert target (follower_id_set n)\<rparr> else n)
           in if length (follower_id_set n1) + 1 > num_nodes n1 div 2 then BecomeLeader n1 else n1)"

definition match_count :: "'c Raft \<Rightarrow> int \<Rightarrow> int outcome" where
  "match_count n i =
     fold (\<lambda>f r. bind_outcome r (\<lambda>c. bind_outcome (vec_at (match_index n) f) (\<lambda>m.
        Return (if m \<ge> i then c + 1 else c)))) (follower_id_set n) (Return 1)"

primrec commit_scan :: "int \<Rightarrow> int list \<Rightarrow> 'c Raft \<Rightarrow> 'c Raft outcome" where
  "commit_scan term [] n = Return n"
| "commit_scan term (i # is) n =
     bind_outcome (vec_at (raft_log n) i) (\<lambda>e.
       if le_term e = term
       then bind_outcome (match_count n i) (\<lambda>c.
            commit_scan term is (if c * 2 > int (num_nodes n) + 1 then n\<lparr>commit_index := i\<rparr> else n))
       else commit_scan term is n)"

definition OnAppendReply ::
    "'c writer \<Rightarrow> int \<Rightarrow> int \<Rightarrow> 'c AppendEntriesArgs \<Rightarrow> int \<Rightarrow> bool \<Rightarrow> AppendEntriesReply \<Rightarrow> 'c Raft \<Rightarrow> 'c Raft outcome" where
  "OnAppendReply serc now target arg saved_current_term is_heartbeat reply n =
     (if is_heartbeat then Return n
      else if aer_term reply > saved_current_term then Return (BecomeFollower serc now (aer_term reply) n)
      else if role n = leader \<and> aer_term reply = saved_current_term
      then bind_outcome (vec_at (next_index n) target) (\<lambda>next.
           if success reply
           then bind_outcome (vec_at (match_index n) target) (\<lambda>_.
                let next' = next + int (length (entries arg));
                    n1 = n\<lparr>next_index := (next_index n)[nat target := next'],
                            match_index := (match_index n)[nat target := next' - 1]\<rparr>
                in commit_scan (aer_term reply) [commit_index n1 + 1 .. int (length (raft_log n1)) - 1] n1)
           else Return (n\<lparr>next_index := (next_index n)[nat target := next - 1]\<rparr>))
      else Return n)"

section \<open>Background work\<close>

definition StartElection :: "'c writer \<Rightarrow> int \<Rightarrow> 'c Raft \<Rightarrow> ((int \<times> RequestVoteArgs \<times> int) list \<times> 'c Raft) outcome" where
  "StartElection serc now n =
     (let n1 = BecomeCandidate serc now (current_term n + 1) n; last_index = GetLastLogIndex n1
      in bind_outcome (GetLogTerm last_index n1) (\<lambda>last_term.
         let args = \<lparr>rv_term = current_term n1, candidate_id = my_id n1,
                     last_log_index = last_index, last_log_term = last_term\<rparr>
         in Return (map (\<lambda>i. (i, args, current_term n1)) (filter (\<lambda>i. i \<noteq> my_id n1) [0..int (num_nodes n1) - 1]), n1)))"

text \<open>One round of each background loop; the requests it sends are returned with their
  target, the term that is saved, and whether they are heartbeats.\<close>

definition ElectionRound :: "'c writer \<Rightarrow> int \<Rightarrow> 'c Raft \<Rightarrow> ((int \<times> RequestVoteArgs \<times> int) list \<times> 'c Raft) outcome" where
  "ElectionRound serc now n =
     (if stopped n then Return ([], n)
      else if role n = follower \<or> role n = candidate
      then bind_outcome (UniformRange 150 300 (rander n)) (\<lambda>(random_timeout, r).
           let n1 = n\<lparr>rander := r\<rparr>
           in if now - last_received_rpc_time n1 > int (unat random_timeout) then StartElection serc now n1
              else Return ([], n1))
      else Return ([], n))"

fun collect :: "('a \<Rightarrow> 'b list outcome) \<Rightarrow> 'a list \<Rightarrow> 'b list outcome" where
  "collect f [] = Return []"
| "collect f (x # xs) = bind_outcome (f x) (\<lambda>ys. bind_outcome (collect f xs) (\<lambda>zs. Return (ys @ zs)))"

type_synonym 'c append_request = "int \<times> 'c AppendEntriesArgs \<times> int \<times> bool"

definition heartbeat_to :: "'c Raft \<Rightarrow> int \<Rightarrow> 'c append_request list outcome" where
  "heartbeat_to n i =
     (if i = my_id n then Return []
      else bind_outcome (vec_at (next_index n) i) (\<lambda>next. let prev = next - 1 in
           bind_outcome (GetLogTerm prev n) (\<lambda>pt.
           Return [(i, \<lparr>ae_term = current_term n, ae_leader_id = my_id n, prev_log_index = prev,
                        prev_log_term = pt, entries = [], leader_commit = commit_index n\<rparr>, current_term n, True)])))"

definition LeaderSendHeartbeat :: "'c Raft \<Rightarrow> 'c append_request list outcome" where
  "LeaderSendHeartbeat n = collect (heartbeat_to n) [0..int (num_nodes n) - 1]"

definition HeartbeatRound :: "'c Raft \<Rightarrow> 'c append_request list outcome" where
  "HeartbeatRound n = (if stopped n \<or> role n \<noteq> leader then Return [] else LeaderSendHeartbeat n)"

definition entries_to :: "'c Raft \<Rightarrow> int \<Rightarrow> 'c append_request list outcome" where
  "entries_to n i =
     (if i = my_id n then Return []
      else bind_outcome (vec_at (next_index n) i) (\<lambda>next.
           if GetLastLogIndex n < next then Return []
           else let prev = next - 1 in
           if prev < 0 \<or> int (length (raft_log n)) < prev then Fault OutOfBounds
           else bind_outcome (GetLogTerm prev n) (\<lambda>pt.
           Return [(i, \<lparr>ae_term = current_term n, ae_leader_id = my_id n, prev_log_index = prev,
                        prev_log_term = pt, entries = drop (nat prev) (raft_log n), leader_commit = commit_index n\<rparr>,
                    current_term n, False)])))"

definition CommitRound :: "'c Raft \<Rightarrow> 'c append_request list outcome" where
  "CommitRound n = (if stopped n \<or> role n \<noteq> leader then Return []
     else collect (entries_to n) [0..int (num_nodes n) - 1])"

primrec apply_logs :: "nat \<Rightarrow> 'c Raft \<Rightarrow> 'c Raft outcome" where
  "apply_logs 0 n = Return n"
| "apply_logs (Suc k) n =
     bind_outcome (vec_at (raft_log n) (last_applied n)) (\<lambda>e.
       apply_logs k (n\<lparr>applied := applied n @ [le_cmd e], last_applied := last_applied n + 1\<rparr>))"

definition ApplyRound :: "'c Raft \<Rightarrow> 'c Raft outcome" where
  "ApplyRound n = (if stopped n then Return n else apply_logs (nat (commit_index n - last_applied n)) n)"

end
