(* ===== verification/Raft_Network.thy ===== *)
theory Raft_Network
  imports Raft
begin

text \<open>
  A cluster of nodes of \<^verbatim>\<open>raft/raft.h\<close>. A request that was sent stays in the pool of its
  kind, and so does a reply: it may be delivered late, never or, when a failed call is
  repeated, again. Replies to \<open>AppendEntries\<close> pass through their \<open>serialize\<close> and
  \<open>deserialize\<close> functions, which do not transport them; the other messages are
  transported faithfully (their codecs are in \<open>Raft_Protocol\<close>). \<open>elections\<close> is a ghost
  list of the nodes that became leaders, with their terms.
\<close>

section \<open>The cluster\<close>

record 'c Net =
  nodes :: "'c Raft list"
  vote_reqs :: "(int \<times> int \<times> RequestVoteArgs \<times> int) list"
  vote_replies :: "(int \<times> int \<times> int \<times> RequestVoteReply) list"
  append_reqs :: "(int \<times> 'c append_request) list"
  append_replies :: "(int \<times> 'c append_request \<times> AppendEntriesReply) list"
  elections :: "(int \<times> int) list"

datatype 'c event =
    Election nat int
  | Heartbeat nat
  | CommitWork nat
  | ApplyWork nat
  | Client nat 'c
  | StopNode nat
  | DeliverVote nat int
  | ReplyVote nat int
  | DeliverAppend nat int
  | ReplyAppend nat int
  | RetryAppend nat

definition wire_append_reply :: "AppendEntriesReply \<Rightarrow> AppendEntriesReply outcome" where
  "wire_append_reply r =
     bind_outcome (AppendEntriesReply_deserialize \<lparr>aer_term = 0, success = False\<rparr>
       (Serializer_init (Serializer_str (AppendEntriesReply_serialize r (Serializer_init []))))) (\<lambda>(r', s). Return r')"

definition put_node :: "nat \<Rightarrow> 'c Raft \<Rightarrow> 'c Net \<Rightarrow> 'c Net" where
  "put_node i n N = N\<lparr>nodes := (nodes N)[i := n]\<rparr>"

definition on_node :: "nat \<Rightarrow> ('c Raft \<Rightarrow> 'c Net \<Rightarrow> 'c Net outcome) \<Rightarrow> 'c Net \<Rightarrow> 'c Net outcome" where
  "on_node i f N = (if i < length (nodes N) then f (nodes N ! i) N else Return N)"

text \<open>The node wins the election when its role changes to \<open>leader\<close>.\<close>

definition note_winner :: "nat \<Rightarrow> 'c Raft \<Rightarrow> 'c Raft \<Rightarrow> 'c Net \<Rightarrow> 'c Net" where
  "note_winner i n n' N =
     (if role n \<noteq> leader \<and> role n' = leader then N\<lparr>elections := (int i, current_term n') # elections N\<rparr> else N)"

fun net_step :: "'c LogEntry \<Rightarrow> 'c writer \<Rightarrow> 'c event \<Rightarrow> 'c Net \<Rightarrow> 'c Net outcome" where
  "net_step dflt serc (Election i now) N = on_node i (\<lambda>n N. bind_outcome (ElectionRound serc now n) (\<lambda>(qs, n').
     Return (put_node i n' (N\<lparr>vote_reqs := vote_reqs N @ map (Pair (int i)) qs\<rparr>)))) N"
| "net_step dflt serc (Heartbeat i) N = on_node i (\<lambda>n N. bind_outcome (HeartbeatRound n) (\<lambda>qs.
     Return (N\<lparr>append_reqs := append_reqs N @ map (Pair (int i)) qs\<rparr>))) N"
| "net_step dflt serc (CommitWork i) N = on_node i (\<lambda>n N. bind_outcome (CommitRound n) (\<lambda>qs.
     Return (N\<lparr>append_reqs := append_reqs N @ map (Pair (int i)) qs\<rparr>))) N"
| "net_step dflt serc (ApplyWork i) N = on_node i (\<lambda>n N. bind_outcome (ApplyRound n) (\<lambda>n'. Return (put_node i n' N))) N"
| "net_step dflt serc (Client i c) N = on_node i (\<lambda>n N. Return (put_node i (snd (NewCommand serc c n)) N)) N"
| "net_step dflt serc (StopNode i) N = on_node i (\<lambda>n N. Return (put_node i (Raft_Stop n) N)) N"
| "net_step dflt serc (DeliverVote k now) N =
     (if k < length (vote_reqs N)
      then case vote_reqs N ! k of (i, t, args, saved) \<Rightarrow>
        on_node (nat t) (\<lambda>n N. bind_outcome (RequestVote serc now args n) (\<lambda>(r, n').
          Return (put_node (nat t) n' (N\<lparr>vote_replies := vote_replies N @ [(i, t, saved, r)]\<rparr>)))) N
      else Return N)"
| "net_step dflt serc (ReplyVote k now) N =
     (if k < length (vote_replies N)
      then case vote_replies N ! k of (i, t, saved, r) \<Rightarrow>
        on_node (nat i) (\<lambda>n N. let n' = OnVoteReply serc now t saved r n
          in Return (note_winner (nat i) n n' (put_node (nat i) n' N))) N
      else Return N)"
| "net_step dflt serc (DeliverAppend k now) N =
     (if k < length (append_reqs N)
      then case append_reqs N ! k of (i, t, args, saved, hb) \<Rightarrow>
        on_node (nat t) (\<lambda>n N. bind_outcome (AppendEntries dflt serc now args n) (\<lambda>(r, n').
          bind_outcome (wire_append_reply r) (\<lambda>r'.
          Return (put_node (nat t) n' (N\<lparr>append_replies := append_replies N @ [(i, (t, args, saved, hb), r')]\<rparr>))))) N
      else Return N)"
| "net_step dflt serc (ReplyAppend k now) N =
     (if k < length (append_replies N)
      then case append_replies N ! k of (i, (t, args, saved, hb), r) \<Rightarrow>
        on_node (nat i) (\<lambda>n N. bind_outcome (OnAppendReply serc now t args saved hb r n) (\<lambda>n'.
          Return (put_node (nat i) n' N))) N
      else Return N)"
| "net_step dflt serc (RetryAppend k) N =
     (if k < length (append_reqs N)
      then case append_reqs N ! k of (i, t, args, saved, hb) \<Rightarrow>
        Return (N\<lparr>append_reqs := append_reqs N @ [(i, t, args, saved, False)]\<rparr>)
      else Return N)"

fun net_run :: "'c LogEntry \<Rightarrow> 'c writer \<Rightarrow> 'c event list \<Rightarrow> 'c Net \<Rightarrow> 'c Net outcome" where
  "net_run dflt serc [] N = Return N"
| "net_run dflt serc (e # es) N = bind_outcome (net_step dflt serc e N) (net_run dflt serc es)"

definition fresh_cluster :: "'c Raft list \<Rightarrow> bool" where
  "fresh_cluster ns \<longleftrightarrow> (\<forall>i < length ns. \<exists>st w r now. ns ! i = Raft_init (int i) (length ns) st w r now)"

definition Net_init :: "'c Raft list \<Rightarrow> 'c Net" where
  "Net_init ns = \<lparr>nodes = ns, vote_reqs = [], vote_replies = [], append_reqs = [], append_replies = [], elections = []\<rparr>"

inductive reachable :: "'c LogEntry \<Rightarrow> 'c writer \<Rightarrow> ('c event \<Rightarrow> 'c Net \<Rightarrow> bool) \<Rightarrow> 'c Raft list \<Rightarrow> 'c Net \<Rightarrow> bool"
  for dflt serc allowed ns where
    reach_init: "reachable dflt serc allowed ns (Net_init ns)"
  | reach_step: "reachable dflt serc allowed ns N \<Longrightarrow> allowed e N \<Longrightarrow> net_step dflt serc e N = Return N'
      \<Longrightarrow> reachable dflt serc allowed ns N'"

text \<open>A vote reply is timely when its election is still the current one of the candidate.\<close>

fun timely :: "'c event \<Rightarrow> 'c Net \<Rightarrow> bool" where
  "timely (ReplyVote k now) N =
     (k < length (vote_replies N) \<longrightarrow> (case vote_replies N ! k of (i, t, saved, r) \<Rightarrow>
        nat i < length (nodes N) \<longrightarrow> current_term (nodes N ! nat i) = saved))"
| "timely _ N = True"

end
