(* ===== verification/Voting.thy ===== *)
theory Voting
  imports Raft
begin

text \<open>
  What the elections of \<^verbatim>\<open>raft/raft.h\<close> promise, without logs, messages and clocks: nodes
  stand as candidates, vote, count votes, win and give way. \<open>Raft_Network\<close> shows that a
  cluster of the modelled nodes takes only steps of this specification.
\<close>

section \<open>The specification\<close>

record voting =
  role_of :: "int \<Rightarrow> RaftRole"
  term_of :: "int \<Rightarrow> int"
  vote_of :: "int \<Rightarrow> int"
  votes_of :: "int \<Rightarrow> int set"
  asks :: "(int \<times> int \<times> int) set"
  grants :: "(int \<times> int \<times> int) set"
  claims :: "(int \<times> int \<times> int) set"
  leads :: "(int \<times> int) set"

definition node_ids :: "nat \<Rightarrow> int set" where
  "node_ids L = {0..<int L}"

definition rejoin :: "int \<Rightarrow> int \<Rightarrow> RaftRole \<Rightarrow> int \<Rightarrow> voting \<Rightarrow> voting" where
  "rejoin i T r v V = V\<lparr>role_of := (role_of V)(i := r), term_of := (term_of V)(i := T),
     vote_of := (vote_of V)(i := v), votes_of := (votes_of V)(i := {})\<rparr>"

inductive vstep :: "nat \<Rightarrow> voting \<Rightarrow> voting \<Rightarrow> bool" for L where
  stand: "i \<in> node_ids L \<Longrightarrow> role_of V i \<noteq> leader
     \<Longrightarrow> vstep L V ((rejoin i (term_of V i + 1) candidate i V)
           \<lparr>asks := asks V \<union> {(i, t, term_of V i + 1) | t. t \<in> node_ids L \<and> t \<noteq> i}\<rparr>)"
| step_down: "term_of V i < T \<Longrightarrow> vstep L V (rejoin i T follower (-1) V)"
| yield: "role_of V i \<noteq> follower \<Longrightarrow> (j, i, term_of V i) \<in> claims V \<Longrightarrow> vstep L V (rejoin i (term_of V i) follower (-1) V)"
| grant: "(c, v, term_of V v) \<in> asks V \<Longrightarrow> vote_of V v = -1 \<or> vote_of V v = c
     \<Longrightarrow> vstep L V (V\<lparr>vote_of := (vote_of V)(v := c), grants := insert (v, c, term_of V v) (grants V)\<rparr>)"
| count: "role_of V i = candidate \<Longrightarrow> (v, i, term_of V i) \<in> grants V
     \<Longrightarrow> vstep L V (V\<lparr>votes_of := (votes_of V)(i := insert v (votes_of V i))\<rparr>)"
| win: "i \<in> node_ids L \<Longrightarrow> role_of V i = candidate \<Longrightarrow> L div 2 < card (votes_of V i) + 1
     \<Longrightarrow> vstep L V (V\<lparr>role_of := (role_of V)(i := leader), leads := insert (i, term_of V i) (leads V)\<rparr>)"
| claim: "role_of V i = leader \<Longrightarrow> t \<noteq> i \<Longrightarrow> vstep L V (V\<lparr>claims := insert (i, t, term_of V i) (claims V)\<rparr>)"

section \<open>Quorums\<close>

text \<open>Any two quorums meet, so a quorum of votes belongs to one candidate.\<close>

locale quorum_system =
  fixes quorum :: "nat \<Rightarrow> int set \<Rightarrow> bool"
  assumes meet: "quorum L A \<Longrightarrow> quorum L B \<Longrightarrow> A \<subseteq> node_ids L \<Longrightarrow> B \<subseteq> node_ids L \<Longrightarrow> \<exists>v. v \<in> A \<and> v \<in> B"
begin

lemma unique_winner:
  assumes "quorum L A" and "quorum L B" and "A \<subseteq> node_ids L" and "B \<subseteq> node_ids L"
    and "\<And>v. v \<in> A \<Longrightarrow> vote v = a" and "\<And>v. v \<in> B \<Longrightarrow> vote v = b"
  shows "a = b"
  using meet [OF assms(1-4)] assms(5,6) by metis

end

text \<open>The check of \<open>SendRequestVote\<close>, the candidate's own vote included.\<close>

definition majority :: "nat \<Rightarrow> int set \<Rightarrow> bool" where
  "majority L A \<longleftrightarrow> L div 2 < card A"

interpretation maj: quorum_system majority
proof
  fix L A B
  assume *: "majority L A" "majority L B" "A \<subseteq> node_ids L" "B \<subseteq> node_ids L"
  have fin: "finite (node_ids L)" and c: "card (node_ids L) = L" by (simp_all add: node_ids_def)
  have "A \<inter> B \<noteq> {}"
  proof
    assume "A \<inter> B = {}"
    then have "card A + card B \<le> L"
      using card_Un_disjoint [of A B] card_mono [OF fin, of "A \<union> B"] * fin c by (simp add: finite_subset)
    with *(1,2) show False by (simp add: majority_def)
  qed
  then show "\<exists>v. v \<in> A \<and> v \<in> B" by blast
qed

section \<open>The invariant\<close>

definition vote_inv :: "nat \<Rightarrow> voting \<Rightarrow> bool" where
  "vote_inv L V \<longleftrightarrow>
     (\<forall>i. role_of V i \<noteq> follower \<longrightarrow> i \<in> node_ids L \<and> vote_of V i = i)
   \<and> (\<forall>c v T. (c, v, T) \<in> asks V \<longrightarrow> c \<noteq> v \<and> c \<in> node_ids L \<and> v \<in> node_ids L)
   \<and> (\<forall>v c T. (v, c, T) \<in> grants V \<longrightarrow> c \<noteq> v \<and> c \<in> node_ids L \<and> v \<in> node_ids L \<and> T \<le> term_of V v \<and> (v, T) \<notin> leads V
        \<and> (T = term_of V v \<longrightarrow> role_of V v = follower \<and> vote_of V v = c))
   \<and> (\<forall>v c c' T. (v, c, T) \<in> grants V \<longrightarrow> (v, c', T) \<in> grants V \<longrightarrow> c = c')
   \<and> (\<forall>i v. role_of V i = candidate \<longrightarrow> v \<in> votes_of V i \<longrightarrow> (v, i, term_of V i) \<in> grants V)
   \<and> (\<forall>i. role_of V i = leader \<longrightarrow> (i, term_of V i) \<in> leads V)
   \<and> (\<forall>i t T. (i, t, T) \<in> claims V \<longrightarrow> (i, T) \<in> leads V \<and> t \<noteq> i)
   \<and> (\<forall>i T. (i, T) \<in> leads V \<longrightarrow> T \<le> term_of V i \<and> (T = term_of V i \<longrightarrow> role_of V i = leader)
        \<and> i \<in> node_ids L \<and> (\<exists>Q. majority L (insert i Q) \<and> (\<forall>v \<in> Q. (v, i, T) \<in> grants V)))"

definition one_leader :: "voting \<Rightarrow> bool" where
  "one_leader V \<longleftrightarrow> (\<forall>i j T. (i, T) \<in> leads V \<longrightarrow> (j, T) \<in> leads V \<longrightarrow> i = j)"

lemma vote_invs:
  assumes "vote_inv L V"
  shows "\<forall>i. role_of V i \<noteq> follower \<longrightarrow> i \<in> node_ids L \<and> vote_of V i = i"
    and "\<forall>c v T. (c, v, T) \<in> asks V \<longrightarrow> c \<noteq> v \<and> c \<in> node_ids L \<and> v \<in> node_ids L"
    and "\<forall>v c T. (v, c, T) \<in> grants V \<longrightarrow> c \<noteq> v \<and> c \<in> node_ids L \<and> v \<in> node_ids L \<and> T \<le> term_of V v \<and> (v, T) \<notin> leads V
        \<and> (T = term_of V v \<longrightarrow> role_of V v = follower \<and> vote_of V v = c)"
    and "\<forall>v c c' T. (v, c, T) \<in> grants V \<longrightarrow> (v, c', T) \<in> grants V \<longrightarrow> c = c'"
    and "\<forall>i v. role_of V i = candidate \<longrightarrow> v \<in> votes_of V i \<longrightarrow> (v, i, term_of V i) \<in> grants V"
    and "\<forall>i. role_of V i = leader \<longrightarrow> (i, term_of V i) \<in> leads V"
    and "\<forall>i t T. (i, t, T) \<in> claims V \<longrightarrow> (i, T) \<in> leads V \<and> t \<noteq> i"
    and "\<forall>i T. (i, T) \<in> leads V \<longrightarrow> T \<le> term_of V i \<and> (T = term_of V i \<longrightarrow> role_of V i = leader)
        \<and> i \<in> node_ids L \<and> (\<exists>Q. majority L (insert i Q) \<and> (\<forall>v \<in> Q. (v, i, T) \<in> grants V))"
  by (insert assms, unfold vote_inv_def, (elim conjE, assumption)+)

lemmas vote_invD = vote_invs(1) [THEN spec]
  vote_invs(2) [THEN spec, THEN spec, THEN spec]
  vote_invs(3) [THEN spec, THEN spec, THEN spec]
  vote_invs(4) [THEN spec, THEN spec, THEN spec, THEN spec]
  vote_invs(5) [THEN spec, THEN spec]
  vote_invs(6) [THEN spec]
  vote_invs(7) [THEN spec, THEN spec, THEN spec]
  vote_invs(8) [THEN spec, THEN spec]

lemma voteI:
  assumes "\<And>i. role_of V i \<noteq> follower \<Longrightarrow> i \<in> node_ids L \<and> vote_of V i = i"
    and "\<And>c v T. (c, v, T) \<in> asks V \<Longrightarrow> c \<noteq> v \<and> c \<in> node_ids L \<and> v \<in> node_ids L"
    and "\<And>v c T. (v, c, T) \<in> grants V \<Longrightarrow> c \<noteq> v \<and> c \<in> node_ids L \<and> v \<in> node_ids L \<and> T \<le> term_of V v
        \<and> (v, T) \<notin> leads V \<and> (T = term_of V v \<longrightarrow> role_of V v = follower \<and> vote_of V v = c)"
    and "\<And>v c c' T. (v, c, T) \<in> grants V \<Longrightarrow> (v, c', T) \<in> grants V \<Longrightarrow> c = c'"
    and "\<And>i v. role_of V i = candidate \<Longrightarrow> v \<in> votes_of V i \<Longrightarrow> (v, i, term_of V i) \<in> grants V"
    and "\<And>i. role_of V i = leader \<Longrightarrow> (i, term_of V i) \<in> leads V"
    and "\<And>i t T. (i, t, T) \<in> claims V \<Longrightarrow> (i, T) \<in> leads V \<and> t \<noteq> i"
    and "\<And>i T. (i, T) \<in> leads V \<Longrightarrow> T \<le> term_of V i \<and> (T = term_of V i \<longrightarrow> role_of V i = leader) \<and> i \<in> node_ids L"
    and "\<And>i T. (i, T) \<in> leads V \<Longrightarrow> \<exists>Q. majority L (insert i Q) \<and> (\<forall>v \<in> Q. (v, i, T) \<in> grants V)"
  shows "vote_inv L V"
  unfolding vote_inv_def
  apply (rule conjI, intro allI impI, erule assms(1))
  apply (rule conjI, intro allI impI, erule assms(2))
  apply (rule conjI, intro allI impI, erule assms(3))
  apply (rule conjI, intro allI impI, erule (1) assms(4))
  apply (rule conjI, intro allI impI, erule (1) assms(5))
  apply (rule conjI, intro allI impI, erule assms(6))
  apply (rule conjI, intro allI impI, erule assms(7))
  apply (intro allI impI, frule assms(8), drule assms(9), iprover)
  done

text \<open>The vote of a node in a term: its own if it leads, else the one it granted.\<close>

lemma vote_inv_one_leader:
  assumes "vote_inv L V" shows "one_leader V"
  unfolding one_leader_def
proof (intro allI impI)
  fix i j T
  assume l: "(i, T) \<in> leads V" "(j, T) \<in> leads V"
  define vote where "vote v = (if (v, T) \<in> leads V then v else (THE c. (v, c, T) \<in> grants V))" for v
  have w: "\<exists>A. majority L A \<and> A \<subseteq> node_ids L \<and> (\<forall>v \<in> A. vote v = k)" if k: "(k, T) \<in> leads V" for k
  proof -
    obtain Q where Q: "majority L (insert k Q)" "\<And>v. v \<in> Q \<Longrightarrow> (v, k, T) \<in> grants V"
      using vote_invD(8) [OF assms] k by blast
    have "v \<in> node_ids L \<and> vote v = k" if "v \<in> Q" for v
    proof -
      have "(v, T) \<notin> leads V" "v \<in> node_ids L" using vote_invD(3) [OF assms] Q(2) [OF that] by blast+
      moreover have "(THE c. (v, c, T) \<in> grants V) = k"
        using Q(2) [OF that] vote_invD(4) [OF assms] by (intro the_equality) blast+
      ultimately show ?thesis by (simp add: vote_def)
    qed
    moreover have "k \<in> node_ids L" "vote k = k" using vote_invD(8) [OF assms] k by (blast, simp add: vote_def)
    ultimately show ?thesis using Q(1) by (intro exI [of _ "insert k Q"]) auto
  qed
  show "i = j" using w [OF l(1)] w [OF l(2)] maj.unique_winner by metis
qed

lemma vote_init:
  assumes "\<And>i. role_of V i = follower" and "asks V = {}" and "grants V = {}" and "claims V = {}" and "leads V = {}"
  shows "vote_inv L V"
  by (rule voteI) (simp_all add: assms)

text \<open>A node that joins a term it has no part in, or gives way in its own term.\<close>

lemma rejoin_inv:
  assumes inv: "vote_inv L V" and r: "r \<noteq> leader" "r = candidate \<longrightarrow> i \<in> node_ids L \<and> v = i"
    and T: "term_of V i \<le> T" and new: "T = term_of V i \<Longrightarrow> role_of V i \<noteq> follower \<and> (i, T) \<notin> leads V"
  shows "vote_inv L (rejoin i T r v V)"
proof (rule voteI, goal_cases)
  case (1 j) then show ?case using vote_invD(1) [OF inv, of j] r by (cases r) (auto simp: rejoin_def split: if_splits)
next
  case (2 c w U) then show ?case using vote_invD(2) [OF inv] by (simp add: rejoin_def)
next
  case (3 w c U) then show ?case using vote_invD(3) [OF inv, of w c U] T new by (auto simp: rejoin_def)
next
  case (4 w c c' U) then show ?case using vote_invD(4) [OF inv] by (simp add: rejoin_def)
next
  case (5 j w) then show ?case using vote_invD(5) [OF inv, of j w] by (auto simp: rejoin_def split: if_splits)
next
  case (6 j) then show ?case using vote_invD(6) [OF inv, of j] r by (auto simp: rejoin_def split: if_splits)
next
  case (7 j t U) then show ?case using vote_invD(7) [OF inv] by (simp add: rejoin_def)
next
  case (8 j U) then show ?case using vote_invD(8) [OF inv, of j U] T new by (auto simp: rejoin_def)
next
  case (9 j U) then show ?case using vote_invD(8) [OF inv, of j U] by (auto simp: rejoin_def)
qed

lemma asks_inv:
  assumes inv: "vote_inv L V" and "\<And>c v T. (c, v, T) \<in> A \<Longrightarrow> c \<noteq> v \<and> c \<in> node_ids L \<and> v \<in> node_ids L"
  shows "vote_inv L (V\<lparr>asks := asks V \<union> A\<rparr>)"
proof -
  have "c \<noteq> v \<and> c \<in> node_ids L \<and> v \<in> node_ids L" if "(c, v, T) \<in> asks V \<union> A" for c v T
    using that vote_invD(2) [OF inv, of c v T] assms(2) by blast
  with inv show ?thesis unfolding vote_inv_def by simp
qed

lemma grant_inv:
  assumes inv: "vote_inv L V" and a: "(c, v, term_of V v) \<in> asks V" and f: "vote_of V v = -1 \<or> vote_of V v = c"
  shows "vote_inv L (V\<lparr>vote_of := (vote_of V)(v := c), grants := insert (v, c, term_of V v) (grants V)\<rparr>)"
proof -
  have ids: "c \<noteq> v" "c \<in> node_ids L" "v \<in> node_ids L" using vote_invD(2) [OF inv] a by blast+
  then have fo: "role_of V v = follower" using vote_invD(1) [OF inv, of v] f by (auto simp: node_ids_def)
  then have nl: "(v, term_of V v) \<notin> leads V" using vote_invD(8) [OF inv, of v] by auto
  have old: "c' = c" if "(v, c', term_of V v) \<in> grants V" for c'
    using ids vote_invD(3) [OF inv, of v c' "term_of V v"] that f by (auto simp: node_ids_def)
  show ?thesis
  proof (rule voteI, goal_cases)
    case (1 j) then show ?case using vote_invD(1) [OF inv, of j] fo by auto
  next
    case (2 d w U) then show ?case using vote_invD(2) [OF inv, of d w U] by simp
  next
    case (3 w d U) then show ?case using vote_invD(3) [OF inv, of w d U] ids fo nl old by auto
  next
    case (4 w d d' U) then show ?case using vote_invD(4) [OF inv, of w d U d'] old by auto
  next
    case (5 j w) then show ?case using vote_invD(5) [OF inv, of j w] by simp
  next
    case (6 j) then show ?case using vote_invD(6) [OF inv, of j] by simp
  next
    case (7 j t U) then show ?case using vote_invD(7) [OF inv, of j t U] by simp
  next
    case (8 j U) then show ?case using vote_invD(8) [OF inv, of j U] by simp
  next
    case (9 j U) then show ?case using vote_invD(8) [OF inv, of j U] by auto
  qed
qed

lemma count_inv:
  assumes inv: "vote_inv L V" and g: "(v, i, term_of V i) \<in> grants V"
  shows "vote_inv L (V\<lparr>votes_of := (votes_of V)(i := insert v (votes_of V i))\<rparr>)"
proof -
  have "(w, j, term_of V j) \<in> grants V" if "role_of V j = candidate" "w \<in> (if j = i then insert v (votes_of V i) else votes_of V j)" for j w
    using that vote_invD(5) [OF inv, of j w] g by (auto split: if_splits)
  with inv show ?thesis unfolding vote_inv_def by simp
qed

lemma claim_inv:
  assumes inv: "vote_inv L V" and "role_of V i = leader" and "t \<noteq> i"
  shows "vote_inv L (V\<lparr>claims := insert (i, t, term_of V i) (claims V)\<rparr>)"
proof (rule voteI, goal_cases)
  case (7 j u T)
  then show ?case using vote_invD(6) [OF inv, of i] vote_invD(7) [OF inv, of j u T] assms(2,3) by auto
next
  case (1 j) then show ?case using vote_invD(1) [OF inv, of j] by simp
next
  case (2 d w U) then show ?case using vote_invD(2) [OF inv, of d w U] by simp
next
  case (3 w d U) then show ?case using vote_invD(3) [OF inv, of w d U] by simp
next
  case (4 w d d' U) then show ?case using vote_invD(4) [OF inv, of w d U d'] by simp
next
  case (5 j w) then show ?case using vote_invD(5) [OF inv, of j w] by simp
next
  case (6 j) then show ?case using vote_invD(6) [OF inv, of j] by simp
next
  case (8 j U) then show ?case using vote_invD(8) [OF inv, of j U] by simp
next
  case (9 j U) then show ?case using vote_invD(8) [OF inv, of j U] by simp
qed

lemma majority_insert:
  assumes "L div 2 < card Q + 1" and "i \<notin> Q" and "Q \<subseteq> node_ids L"
  shows "majority L (insert i Q)"
  using assms finite_subset [OF assms(3)] by (simp add: majority_def node_ids_def)

lemma win_inv:
  assumes inv: "vote_inv L V" and i: "i \<in> node_ids L" and c: "role_of V i = candidate" and q: "L div 2 < card (votes_of V i) + 1"
  shows "vote_inv L (V\<lparr>role_of := (role_of V)(i := leader), leads := insert (i, term_of V i) (leads V)\<rparr>)"
proof -
  have g: "(v, i, term_of V i) \<in> grants V" if "v \<in> votes_of V i" for v using vote_invD(5) [OF inv, of i v] c that by blast
  have r: "i \<notin> votes_of V i" "votes_of V i \<subseteq> node_ids L" using g vote_invD(3) [OF inv, of _ i "term_of V i"] by blast+
  have n: "(i, d, term_of V i) \<notin> grants V" for d using vote_invD(3) [OF inv, of i d "term_of V i"] c by auto
  show ?thesis
  proof (rule voteI, goal_cases)
    case (1 j) then show ?case using vote_invD(1) [OF inv, of j] c by (auto split: if_splits)
  next
    case (2 d w U) then show ?case using vote_invD(2) [OF inv, of d w U] by simp
  next
    case (3 w d U) then show ?case using vote_invD(3) [OF inv, of w d U] n by auto
  next
    case (4 w d d' U) then show ?case using vote_invD(4) [OF inv, of w d U d'] by simp
  next
    case (5 j w) then show ?case using vote_invD(5) [OF inv, of j w] by (auto split: if_splits)
  next
    case (6 j) then show ?case using vote_invD(6) [OF inv, of j] by (auto split: if_splits)
  next
    case (7 j t U) then show ?case using vote_invD(7) [OF inv, of j t U] by simp
  next
    case (8 j U) then show ?case using vote_invD(8) [OF inv, of j U] i by auto
  next
    case (9 j U) then show ?case using vote_invD(8) [OF inv, of j U] majority_insert [OF q r] g by auto
  qed
qed

lemma vstep_inv: "vstep L V V' \<Longrightarrow> vote_inv L V \<Longrightarrow> vote_inv L V'"
proof (induction rule: vstep.induct)
  case (stand i V)
  have "vote_inv L (rejoin i (term_of V i + 1) candidate i V)" using stand by (intro rejoin_inv) auto
  from asks_inv [OF this, of "{(i, t, term_of V i + 1) | t. t \<in> node_ids L \<and> t \<noteq> i}"] stand(1)
  show ?case by (simp add: rejoin_def)
next
  case (step_down V i T)
  then show ?case by (intro rejoin_inv) auto
next
  case (yield V i j)
  have "(i, term_of V i) \<notin> leads V"
    using vote_inv_one_leader [OF yield(3)] vote_invD(7) [OF yield(3), of j i "term_of V i"] yield(2)
    unfolding one_leader_def by blast
  with yield show ?case by (intro rejoin_inv) auto
next
  case (grant c v V) then show ?case by (intro grant_inv)
next
  case (count V i v) then show ?case by (intro count_inv)
next
  case (win i V) then show ?case by (intro win_inv)
next
  case (claim V i t) then show ?case by (intro claim_inv)
qed

lemma vsteps_inv: "(vstep L)\<^sup>*\<^sup>* V V' \<Longrightarrow> vote_inv L V \<Longrightarrow> vote_inv L V'"
  by (induction rule: rtranclp_induct) (auto intro: vstep_inv)

lemma vsteps_trans2: "(vstep L)\<^sup>*\<^sup>* A B \<Longrightarrow> vstep L B C \<Longrightarrow> (vstep L)\<^sup>*\<^sup>* A C"
  by (rule rtranclp.rtrancl_into_rtrancl)

end
