(* ===== verification/Raft_Elections.thy ===== *)
theory Raft_Elections
  imports Raft_Network Voting
begin

text \<open>
  A cluster whose vote replies are timely takes only steps of \<open>Voting\<close>, so at most one
  node wins the election of a term.
\<close>

section \<open>What the operations do to the state of the election\<close>

definition view :: "'c Raft \<Rightarrow> int \<times> nat \<times> RaftRole \<times> int \<times> int \<times> int list" where
  "view n = (my_id n, num_nodes n, role n, current_term n, vote_for n, follower_id_set n)"

lemma view_flush [simp]: "view (flush_storage serc n) = view n"
  by (simp add: flush_storage_def view_def split: prod.split)

lemma view_follower: "view (BecomeFollower serc now T n) = (my_id n, num_nodes n, follower, T, -1, [])"
  by (simp add: BecomeFollower_def BeginNewTerm_def) (simp add: view_def)

lemma view_candidate: "view (BecomeCandidate serc now T n) = (my_id n, num_nodes n, candidate, T, my_id n, [])"
  by (simp add: BecomeCandidate_def BeginNewTerm_def) (simp add: view_def)

lemma view_command: "view (snd (NewCommand serc c n)) = view n"
  by (simp add: NewCommand_def) (simp add: view_def)

lemma view_stop: "view (Raft_Stop n) = view n"
  by (simp add: Raft_Stop_def view_def)

lemma view_apply_logs: "apply_logs k n = Return n' \<Longrightarrow> view n' = view n"
proof (induction k arbitrary: n)
  case (Suc k)
  then show ?case by (fastforce simp: view_def bind_outcome_Return_iff)
qed simp

lemma view_apply: "ApplyRound n = Return n' \<Longrightarrow> view n' = view n"
  by (auto simp: ApplyRound_def view_apply_logs split: if_splits)

lemma bind_Return: "bind_outcome m f = Return y \<longleftrightarrow> (\<exists>x. m = Return x \<and> f x = Return y)"
  by (cases m) (auto simp: bind_outcome_def)

lemma view_start:
  assumes "StartElection serc now n = Return (qs, n')"
  shows "view n' = (my_id n, num_nodes n, candidate, current_term n + 1, my_id n, []) \<and>
     (\<exists>args. rv_term args = current_term n + 1 \<and> candidate_id args = my_id n \<and>
       qs = map (\<lambda>i. (i, args, current_term n + 1)) (filter (\<lambda>i. i \<noteq> my_id n) [0..int (num_nodes n) - 1]))"
proof -
  define n1 where "n1 = BecomeCandidate serc now (current_term n + 1) n"
  have v: "view n1 = (my_id n, num_nodes n, candidate, current_term n + 1, my_id n, [])"
    by (simp add: n1_def view_candidate)
  then have f: "current_term n1 = current_term n + 1" "my_id n1 = my_id n" "num_nodes n1 = num_nodes n"
    by (simp_all add: view_def)
  obtain x where "GetLogTerm (GetLastLogIndex n1) n1 = Return x" and n': "n' = n1"
    and qs: "qs = map (\<lambda>i. (i, \<lparr>rv_term = current_term n1, candidate_id = my_id n1, last_log_index = GetLastLogIndex n1,
      last_log_term = x\<rparr>, current_term n1)) (filter (\<lambda>i. i \<noteq> my_id n1) [0..int (num_nodes n1) - 1])"
    using assms unfolding StartElection_def n1_def [symmetric] by (auto simp: Let_def bind_Return)
  show ?thesis unfolding n' v qs f
    by (intro conjI refl exI [of _ "\<lparr>rv_term = current_term n + 1, candidate_id = my_id n,
      last_log_index = GetLastLogIndex n1, last_log_term = x\<rparr>"]) simp_all
qed

lemma view_election:
  assumes "ElectionRound serc now n = Return (qs, n')"
  shows "view n' = view n \<and> qs = [] \<or>
    (role n \<noteq> leader \<and> view n' = (my_id n, num_nodes n, candidate, current_term n + 1, my_id n, []) \<and>
     (\<exists>args. rv_term args = current_term n + 1 \<and> candidate_id args = my_id n \<and>
       qs = map (\<lambda>i. (i, args, current_term n + 1)) (filter (\<lambda>i. i \<noteq> my_id n) [0..int (num_nodes n) - 1])))"
proof -
  have "view n' = view n \<and> qs = [] \<or> role n \<noteq> leader \<and> (\<exists>r. StartElection serc now (n\<lparr>rander := r\<rparr>) = Return (qs, n'))"
    using assms by (auto simp: ElectionRound_def Let_def bind_Return view_def split: if_splits prod.splits)
  then show ?thesis using view_start [of serc now "n\<lparr>rander := _\<rparr>" qs n'] by fastforce
qed

lemma view_request:
  assumes "RequestVote serc now args n = Return (r, n')"
  shows "\<exists>n1. (view n1 = view n \<or> current_term n < rv_term args \<and> view n1 = (my_id n, num_nodes n, follower, rv_term args, -1, []))
    \<and> (if vote_granted r then rv_term args = current_term n1 \<and> (vote_for n1 = -1 \<or> vote_for n1 = candidate_id args)
        \<and> n' = n1\<lparr>vote_for := candidate_id args\<rparr> else n' = n1)"
proof (cases "stopped n")
  case True
  with assms show ?thesis by (intro exI [of _ n]) (auto simp: RequestVote_def)
next
  case False
  define n1 where "n1 = (if rv_term args > current_term n then BecomeFollower serc now (rv_term args) n else n)"
  have "view n1 = view n \<or> current_term n < rv_term args \<and> view n1 = (my_id n, num_nodes n, follower, rv_term args, -1, [])"
    by (simp add: n1_def view_follower)
  with False assms show ?thesis
    by (intro exI [of _ n1]) (auto simp: RequestVote_def n1_def [symmetric] Let_def bind_Return split: if_splits)
qed

lemma view_accept: "accept_entries dflt args n = Return n' \<Longrightarrow> view n' = view n"
  by (auto simp: accept_entries_def view_def Let_def bind_Return)

lemma view_append:
  assumes "AppendEntries dflt serc now args n = Return (r, n')"
  shows "view n' = view n \<or>
    view n' = (my_id n, num_nodes n, follower, ae_term args, -1, []) \<and>
    (current_term n < ae_term args \<or> current_term n = ae_term args \<and> role n \<noteq> follower)"
proof -
  have t: "view (m\<lparr>last_received_rpc_time := now\<rparr>) = view m" for m :: "'a Raft" by (simp add: view_def)
  have f: "role (BecomeFollower serc now T n) = follower" "current_term (BecomeFollower serc now T n) = T" for T
    using view_follower [of serc now T n] by (simp_all add: view_def)
  show ?thesis using assms
    by (auto simp: AppendEntries_def Let_def bind_Return t f view_follower split: if_splits dest!: view_accept)
qed

lemma view_append_reply:
  "OnAppendReply serc now t args saved hb \<lparr>aer_term = 0, success = False\<rparr> n = Return n' \<Longrightarrow> 0 \<le> saved \<Longrightarrow> view n' = view n"
  by (auto simp: OnAppendReply_def view_def Let_def bind_Return split: if_splits)

lemma view_leader: "view (BecomeLeader n) = (my_id n, num_nodes n, leader, current_term n, vote_for n, follower_id_set n)"
  by (simp add: BecomeLeader_def view_def)

section \<open>The abstraction\<close>

definition of_node :: "('c Raft \<Rightarrow> 'a) \<Rightarrow> 'a \<Rightarrow> 'c Net \<Rightarrow> int \<Rightarrow> 'a" where
  "of_node f d N i = (if 0 \<le> i \<and> i < int (length (nodes N)) then f (nodes N ! nat i) else d)"

definition vote_abs :: "'c Net \<Rightarrow> voting" where
  "vote_abs N = \<lparr>role_of = of_node role follower N, term_of = of_node current_term 0 N, vote_of = of_node vote_for (-1) N,
     votes_of = of_node (\<lambda>n. set (follower_id_set n)) {} N,
     asks = (\<lambda>(i, t, args, saved). (i, t, saved)) ` set (vote_reqs N),
     grants = (\<lambda>(i, t, saved, r). (t, i, saved)) ` {(i, t, saved, r) \<in> set (vote_replies N). vote_granted r},
     claims = (\<lambda>(i, t, args, saved, hb). (i, t, saved)) ` set (append_reqs N),
     leads = set (elections N)\<rparr>"

definition vput :: "int \<Rightarrow> 'c Raft \<Rightarrow> voting \<Rightarrow> voting" where
  "vput i n V = V\<lparr>role_of := (role_of V)(i := role n), term_of := (term_of V)(i := current_term n),
     vote_of := (vote_of V)(i := vote_for n), votes_of := (votes_of V)(i := set (follower_id_set n))\<rparr>"

lemma of_node_put: "k < length (nodes N) \<Longrightarrow> of_node f d (put_node k n N) = (of_node f d N)(int k := f n)"
  by (auto simp: of_node_def put_node_def fun_eq_iff nth_list_update)

lemma of_node_nodes: "nodes N' = nodes N \<Longrightarrow> of_node f d N' = of_node f d N"
  by (auto simp: of_node_def fun_eq_iff)

lemma abs_pools:
  assumes "nodes N' = nodes N"
  shows "vote_abs N' = (vote_abs N)\<lparr>asks := asks (vote_abs N'), grants := grants (vote_abs N'),
    claims := claims (vote_abs N'), leads := leads (vote_abs N')\<rparr>"
  using assms by (simp add: vote_abs_def of_node_nodes [OF assms])

lemma abs_put: "k < length (nodes N) \<Longrightarrow> vote_abs (put_node k n N) = vput (int k) n (vote_abs N)"
  by (simp add: vote_abs_def vput_def of_node_put) (simp add: put_node_def)

lemma of_node_at: "k < length (nodes N) \<Longrightarrow> of_node f d N (int k) = f (nodes N ! k)"
  by (simp add: of_node_def)

lemma abs_at:
  assumes "k < length (nodes N)"
  shows "role_of (vote_abs N) (int k) = role (nodes N ! k)" "term_of (vote_abs N) (int k) = current_term (nodes N ! k)"
    "vote_of (vote_abs N) (int k) = vote_for (nodes N ! k)" "votes_of (vote_abs N) (int k) = set (follower_id_set (nodes N ! k))"
  using assms by (simp_all add: vote_abs_def of_node_at)

lemma vput_same:
  assumes "k < length (nodes N)" and "view n = view (nodes N ! k)"
  shows "vput (int k) n (vote_abs N) = vote_abs N"
  using assms(2) abs_at [OF assms(1)] by (auto simp: vput_def view_def fun_upd_idem)

lemma vput_rejoin:
  "view n = (a, b, r, T, v, []) \<Longrightarrow> vput i n V = rejoin i T r v V"
  by (simp add: vput_def rejoin_def view_def)

section \<open>Well-formed clusters\<close>

definition node_ok :: "nat \<Rightarrow> nat \<Rightarrow> 'c Raft \<Rightarrow> bool" where
  "node_ok L k n \<longleftrightarrow> my_id n = int k \<and> num_nodes n = L \<and> distinct (follower_id_set n) \<and> 0 \<le> current_term n"

definition net_ok :: "nat \<Rightarrow> 'c Net \<Rightarrow> bool" where
  "net_ok L N \<longleftrightarrow> length (nodes N) = L \<and> (\<forall>k < L. node_ok L k (nodes N ! k))
   \<and> (\<forall>(i, t, args, saved) \<in> set (vote_reqs N). i \<in> node_ids L \<and> t \<in> node_ids L \<and> rv_term args = saved \<and> candidate_id args = i)
   \<and> (\<forall>(i, t, saved, r) \<in> set (vote_replies N). i \<in> node_ids L)
   \<and> (\<forall>(i, t, args, saved, hb) \<in> set (append_reqs N). i \<in> node_ids L \<and> t \<in> node_ids L \<and> ae_term args = saved \<and> 0 \<le> saved)
   \<and> (\<forall>(i, (t, args, saved, hb), r) \<in> set (append_replies N). i \<in> node_ids L \<and> 0 \<le> saved \<and> r = \<lparr>aer_term = 0, success = False\<rparr>)"

lemma node_ok_view: "view n' = view n \<Longrightarrow> node_ok L k n' \<longleftrightarrow> node_ok L k n"
  by (simp add: node_ok_def view_def)

lemma net_ok_put:
  assumes "net_ok L N" and "k < L" and "node_ok L k n" shows "net_ok L (put_node k n N)"
  using assms by (simp add: net_ok_def put_node_def nth_list_update)

lemma net_ok_node: "net_ok L N \<Longrightarrow> k < length (nodes N) \<Longrightarrow> k < L \<and> node_ok L k (nodes N ! k)"
  by (simp add: net_ok_def)

text \<open>A step of the cluster refines the specification when it keeps the cluster well-formed and is
  matched by steps of the specification.\<close>

definition refines :: "nat \<Rightarrow> 'c Net \<Rightarrow> 'c Net \<Rightarrow> bool" where
  "refines L N N' \<longleftrightarrow> net_ok L N' \<and> (vstep L)\<^sup>*\<^sup>* (vote_abs N) (vote_abs N')"

lemma refines_same:
  assumes ok: "net_ok L N" and k: "k < length (nodes N)" and v: "view n' = view (nodes N ! k)"
  shows "refines L N (put_node k n' N)"
  using net_ok_node [OF ok k] net_ok_put [OF ok] abs_put [OF k] vput_same [OF k v]
  by (simp add: refines_def node_ok_view [OF v])

lemma refines_election:
  assumes ok: "net_ok L N" and k: "k < length (nodes N)" and e: "ElectionRound serc now (nodes N ! k) = Return (qs, n')"
  shows "refines L N (put_node k n' (N\<lparr>vote_reqs := vote_reqs N @ map (Pair (int k)) qs\<rparr>))"
proof -
  let ?n = "nodes N ! k" and ?N = "N\<lparr>vote_reqs := vote_reqs N @ map (Pair (int k)) qs\<rparr>"
  have n: "k < L" "my_id ?n = int k" "num_nodes ?n = L" "0 \<le> current_term ?n"
    using net_ok_node [OF ok k] by (simp_all add: node_ok_def)
  consider "view n' = view ?n" "qs = []" | args where "role ?n \<noteq> leader"
    "view n' = (int k, L, candidate, current_term ?n + 1, int k, [])" "rv_term args = current_term ?n + 1"
    "candidate_id args = int k" "qs = map (\<lambda>i. (i, args, current_term ?n + 1)) (filter (\<lambda>i. i \<noteq> int k) [0..int L - 1])"
    using view_election [OF e] n by auto
  then show ?thesis
  proof cases
    case 1
    then show ?thesis using refines_same [OF ok k, of n'] by simp
  next
    case 2
    have "net_ok L ?N" using ok n(1) 2(3,4) by (auto simp: net_ok_def 2(5) node_ids_def)
    moreover have "node_ok L k n'" using 2(2) n(4) by (simp add: node_ok_def view_def)
    ultimately have "net_ok L (put_node k n' ?N)" using n(1) by (intro net_ok_put)
    moreover have "vote_abs (put_node k n' ?N) = (rejoin (int k) (term_of (vote_abs N) (int k) + 1) candidate (int k) (vote_abs N))
        \<lparr>asks := asks (vote_abs N) \<union> {(int k, t, term_of (vote_abs N) (int k) + 1) | t. t \<in> node_ids L \<and> t \<noteq> int k}\<rparr>"
    proof -
      have "asks (vote_abs ?N) = asks (vote_abs N) \<union> {(int k, t, term_of (vote_abs N) (int k) + 1) | t. t \<in> node_ids L \<and> t \<noteq> int k}"
        by (auto simp: vote_abs_def 2(5) node_ids_def image_Un image_iff of_node_at [OF k])
      then have "vote_abs ?N = (vote_abs N)
        \<lparr>asks := asks (vote_abs N) \<union> {(int k, t, term_of (vote_abs N) (int k) + 1) | t. t \<in> node_ids L \<and> t \<noteq> int k}\<rparr>"
        by (subst abs_pools [of ?N N]) (simp_all, simp add: vote_abs_def)
      then show ?thesis using k 2(2) abs_at(2) [OF k] by (simp add: abs_put vput_rejoin) (simp add: rejoin_def)
    qed
    moreover have "int k \<in> node_ids L" using n(1) by (simp add: node_ids_def)
    ultimately show ?thesis using 2(1) abs_at(1) [OF k]
      by (auto simp: refines_def intro!: r_into_rtranclp vstep.stand)
  qed
qed

lemma collect_in: "collect f xs = Return ys \<Longrightarrow> y \<in> set ys \<Longrightarrow> \<exists>x \<in> set xs. \<exists>zs. f x = Return zs \<and> y \<in> set zs"
proof (induction xs arbitrary: ys)
  case (Cons x xs)
  then show ?case by (fastforce simp: bind_Return)
qed simp

lemma claims_steps:
  assumes "role_of V i = leader"
  shows "\<forall>t \<in> set ts. t \<noteq> i \<Longrightarrow> (vstep L)\<^sup>*\<^sup>* V (V\<lparr>claims := claims V \<union> (\<lambda>t. (i, t, term_of V i)) ` set ts\<rparr>)"
proof (induction ts rule: rev_induct)
  case (snoc t ts)
  let ?V = "V\<lparr>claims := claims V \<union> (\<lambda>t. (i, t, term_of V i)) ` set ts\<rparr>"
  have "vstep L ?V (?V\<lparr>claims := insert (i, t, term_of ?V i) (claims ?V)\<rparr>)"
    using assms snoc.prems by (intro vstep.claim) auto
  with snoc show ?case by (auto intro: rtranclp.rtrancl_into_rtrancl)
qed simp

definition sends_claims :: "'c Raft \<Rightarrow> 'c append_request list \<Rightarrow> bool" where
  "sends_claims n qs \<longleftrightarrow> (qs \<noteq> [] \<longrightarrow> role n = leader)
     \<and> (\<forall>(t, args, saved, hb) \<in> set qs. t \<in> node_ids (num_nodes n) \<and> t \<noteq> my_id n \<and> ae_term args = saved \<and> saved = current_term n)"

lemma heartbeat_claims: "HeartbeatRound n = Return qs \<Longrightarrow> sends_claims n qs"
  by (fastforce simp: HeartbeatRound_def LeaderSendHeartbeat_def sends_claims_def heartbeat_to_def bind_Return Let_def
      node_ids_def dest!: collect_in split: if_splits)

lemma commit_claims: "CommitRound n = Return qs \<Longrightarrow> sends_claims n qs"
  by (fastforce simp: CommitRound_def sends_claims_def entries_to_def bind_Return Let_def
      node_ids_def dest!: collect_in split: if_splits)

lemma refines_claims:
  assumes ok: "net_ok L N" and k: "k < length (nodes N)" and q: "sends_claims (nodes N ! k) qs"
  shows "refines L N (N\<lparr>append_reqs := append_reqs N @ map (Pair (int k)) qs\<rparr>)"
proof (cases "qs = []")
  case True
  then show ?thesis using ok by (simp add: refines_def)
next
  case False
  let ?n = "nodes N ! k" and ?N = "N\<lparr>append_reqs := append_reqs N @ map (Pair (int k)) qs\<rparr>"
  have n: "k < L" "my_id ?n = int k" "num_nodes ?n = L" "0 \<le> current_term ?n" "role ?n = leader"
    using net_ok_node [OF ok k] q False by (simp_all add: node_ok_def sends_claims_def)
  have "net_ok L ?N" using ok n q by (auto simp: net_ok_def sends_claims_def node_ids_def)
  moreover have "claims (vote_abs ?N) = claims (vote_abs N) \<union> (\<lambda>t. (int k, t, term_of (vote_abs N) (int k))) ` set (map fst qs)"
    using q by (force simp: vote_abs_def of_node_at [OF k] sends_claims_def image_Un image_iff)
  then have "vote_abs ?N = (vote_abs N)\<lparr>claims := claims (vote_abs N) \<union> (\<lambda>t. (int k, t, term_of (vote_abs N) (int k))) ` set (map fst qs)\<rparr>"
    by (subst abs_pools [of ?N N]) (simp_all, simp add: vote_abs_def)
  moreover have "\<forall>t \<in> set (map fst qs). t \<noteq> int k" using q n by (force simp: sends_claims_def)
  ultimately show ?thesis using claims_steps [of "vote_abs N" "int k" "map fst qs" L] abs_at(1) [OF k] n
    by (simp add: refines_def)
qed

lemma net_ok_append_req:
  assumes "net_ok L N" and "(i, t, args, saved, hb) \<in> set (append_reqs N)"
  shows "i \<in> node_ids L \<and> t \<in> node_ids L \<and> ae_term args = saved \<and> 0 \<le> saved"
proof -
  have "\<forall>(i, t, args, saved, hb) \<in> set (append_reqs N). i \<in> node_ids L \<and> t \<in> node_ids L \<and> ae_term args = saved \<and> 0 \<le> saved"
    using assms(1) unfolding net_ok_def by (elim conjE)
  from bspec [OF this assms(2)] show ?thesis by simp
qed

lemma net_ok_index: "net_ok L N \<Longrightarrow> t \<in> node_ids L \<Longrightarrow> nat t < length (nodes N) \<and> int (nat t) = t"
  by (auto simp: net_ok_def node_ids_def)

lemma abs_replies: "vote_abs (N\<lparr>append_replies := x\<rparr>) = vote_abs N"
  by (simp add: vote_abs_def of_node_nodes [of "N\<lparr>append_replies := x\<rparr>" N])

lemma refines_append:
  assumes ok: "net_ok L N" and m: "(i, t, args, saved, hb) \<in> set (append_reqs N)"
    and e: "AppendEntries dflt serc now args (nodes N ! nat t) = Return (r, n')"
  shows "refines L N (put_node (nat t) n' (N\<lparr>append_replies := append_replies N @
    [(i, (t, args, saved, hb), \<lparr>aer_term = 0, success = False\<rparr>)]\<rparr>))" (is "refines L N (put_node _ _ ?N)")
proof -
  let ?n = "nodes N ! nat t"
  have q: "i \<in> node_ids L" "t \<in> node_ids L" "ae_term args = saved" "0 \<le> saved" using net_ok_append_req [OF ok m] by auto
  then have k: "nat t < length (nodes N)" "int (nat t) = t" using net_ok_index [OF ok] by auto
  have n: "nat t < L" "node_ok L (nat t) ?n" using net_ok_node [OF ok k(1)] by auto
  have N: "net_ok L ?N" using ok q by (simp add: net_ok_def)
  have put: "vote_abs (put_node (nat t) n' ?N) = vput t n' (vote_abs N)" using abs_put [of "nat t" ?N n'] k by (simp add: abs_replies)
  from view_append [OF e] show ?thesis
  proof (elim disjE conjE, goal_cases)
    case 1
    have "vote_abs (put_node (nat t) n' ?N) = vote_abs N" using vput_same [OF k(1) 1] k(2) put by simp
    then show ?case using net_ok_put [OF N n(1)] n(2) node_ok_view [OF 1] by (simp add: refines_def)
  next
    case 2
    then have "vstep L (vote_abs N) (rejoin t (ae_term args) follower (-1) (vote_abs N))"
      using abs_at(2) [OF k(1)] k(2) by (intro vstep.step_down) simp
    moreover have "node_ok L (nat t) n'" using 2(1) n q by (simp add: node_ok_def view_def)
    ultimately show ?case using 2 put n net_ok_put [OF N] by (simp add: refines_def vput_rejoin r_into_rtranclp)
  next
    case 3
    have "(i, t, term_of (vote_abs N) t) \<in> claims (vote_abs N)"
      using m q 3(2) abs_at(2) [OF k(1)] k(2) by (force simp: vote_abs_def)
    then have "vstep L (vote_abs N) (rejoin t (term_of (vote_abs N) t) follower (-1) (vote_abs N))"
      using abs_at(1) [OF k(1)] k(2) 3(3) by (intro vstep.yield) simp_all
    moreover have "node_ok L (nat t) n'" using 3(1) n q by (simp add: node_ok_def view_def)
    ultimately show ?case using 3 put n net_ok_put [OF N] abs_at(2) [OF k(1)] k(2)
      by (simp add: refines_def vput_rejoin r_into_rtranclp)
  qed
qed

lemma net_ok_vote_req:
  assumes "net_ok L N" and "(i, t, args, saved) \<in> set (vote_reqs N)"
  shows "i \<in> node_ids L \<and> t \<in> node_ids L \<and> rv_term args = saved \<and> candidate_id args = i"
proof -
  have "\<forall>(i, t, args, saved) \<in> set (vote_reqs N). i \<in> node_ids L \<and> t \<in> node_ids L \<and> rv_term args = saved \<and> candidate_id args = i"
    using assms(1) unfolding net_ok_def by (elim conjE)
  from bspec [OF this assms(2)] show ?thesis by simp
qed

lemma abs_vote_replies:
  "vote_abs (N\<lparr>vote_replies := vote_replies N @ [(i, t, saved, r)]\<rparr>) =
     (if vote_granted r then (vote_abs N)\<lparr>grants := insert (t, i, saved) (grants (vote_abs N))\<rparr> else vote_abs N)"
  by (auto simp: vote_abs_def of_node_nodes [of "N\<lparr>vote_replies := vote_replies N @ [(i, t, saved, r)]\<rparr>" N] image_iff)

lemma refines_vote:
  assumes ok: "net_ok L N" and m: "(i, t, args, saved) \<in> set (vote_reqs N)"
    and e: "RequestVote serc now args (nodes N ! nat t) = Return (r, n')"
  shows "refines L N (put_node (nat t) n' (N\<lparr>vote_replies := vote_replies N @ [(i, t, saved, r)]\<rparr>))"
    (is "refines L N (put_node _ _ ?N)")
proof -
  let ?n = "nodes N ! nat t" and ?V = "vote_abs N"
  have q: "i \<in> node_ids L" "t \<in> node_ids L" "rv_term args = saved" "candidate_id args = i" using net_ok_vote_req [OF ok m] by auto
  then have k: "nat t < length (nodes N)" "int (nat t) = t" using net_ok_index [OF ok] by auto
  have n: "nat t < L" "node_ok L (nat t) ?n" using net_ok_node [OF ok k(1)] by auto
  obtain n1 where n1: "view n1 = view ?n \<or> current_term ?n < saved \<and> view n1 = (my_id ?n, num_nodes ?n, follower, saved, -1, [])"
    and n': "if vote_granted r then saved = current_term n1 \<and> (vote_for n1 = -1 \<or> vote_for n1 = i) \<and> n' = n1\<lparr>vote_for := i\<rparr> else n' = n1"
    using view_request [OF e] q by auto
  have ok1: "node_ok L (nat t) n1"
    using n1
  proof (elim disjE conjE)
    assume "view n1 = view ?n" then show ?thesis using n(2) node_ok_view by blast
  qed (use n(2) in \<open>simp add: node_ok_def view_def\<close>)
  have V1: "(vstep L)\<^sup>*\<^sup>* ?V (vput t n1 ?V)"
    using n1
  proof (elim disjE conjE)
    assume v: "view n1 = view ?n" show ?thesis using vput_same [OF k(1) v] k(2) by simp
  next
    assume "current_term ?n < saved" and v: "view n1 = (my_id ?n, num_nodes ?n, follower, saved, -1, [])"
    then have "vstep L ?V (rejoin t saved follower (-1) ?V)" using abs_at(2) [OF k(1)] k(2) by (intro vstep.step_down) simp
    with vput_rejoin [OF v] show ?thesis by (simp add: r_into_rtranclp)
  qed
  have N: "net_ok L ?N" using ok q by (simp add: net_ok_def)
  have ok': "node_ok L (nat t) n'" using ok1 n' by (auto simp: node_ok_def split: if_splits)
  have put: "vote_abs (put_node (nat t) n' ?N) = vput t n' (vote_abs ?N)" using abs_put [of "nat t" ?N n'] k by simp
  have "(vstep L)\<^sup>*\<^sup>* ?V (vote_abs (put_node (nat t) n' ?N))"
  proof (cases "vote_granted r")
    case True
    let ?W = "vput t n1 ?V"
    have "(i, t, saved) \<in> asks ?W" using m q by (force simp: vote_abs_def vput_def)
    then have "vstep L ?W (?W\<lparr>vote_of := (vote_of ?W)(t := i), grants := insert (t, i, term_of ?W t) (grants ?W)\<rparr>)"
      using n' True by (intro vstep.grant) (auto simp: vput_def)
    moreover have "vote_abs (put_node (nat t) n' ?N) = ?W\<lparr>vote_of := (vote_of ?W)(t := i), grants := insert (t, i, term_of ?W t) (grants ?W)\<rparr>"
      using n' True unfolding put by (auto simp: abs_vote_replies vput_def)
    ultimately show ?thesis using V1 by (simp add: rtranclp.rtrancl_into_rtrancl)
  next
    case False
    then show ?thesis using V1 n' unfolding put by (simp add: abs_vote_replies)
  qed
  then show ?thesis using net_ok_put [OF N n(1) ok'] by (simp add: refines_def)
qed

lemma abs_elections: "vote_abs (N\<lparr>elections := x\<rparr>) = (vote_abs N)\<lparr>leads := set x\<rparr>"
  by (simp add: vote_abs_def of_node_nodes [of "N\<lparr>elections := x\<rparr>" N])

lemma refines_vote_reply:
  assumes ok: "net_ok L N" and m: "(i, t, saved, r) \<in> set (vote_replies N)" and i: "i \<in> node_ids L"
    and s: "current_term (nodes N ! nat i) = saved"
  shows "refines L N (let n' = OnVoteReply serc now t saved r (nodes N ! nat i)
    in note_winner (nat i) (nodes N ! nat i) n' (put_node (nat i) n' N))"
proof -
  let ?n = "nodes N ! nat i" and ?V = "vote_abs N"
  define n' where "n' = OnVoteReply serc now t saved r ?n"
  have k: "nat i < length (nodes N)" "int (nat i) = i" using net_ok_index [OF ok i] by auto
  have n: "nat i < L" "node_ok L (nat i) ?n" using net_ok_node [OF ok k(1)] by auto
  have at: "role_of ?V i = role ?n" "term_of ?V i = saved" "votes_of ?V i = set (follower_id_set ?n)"
    using abs_at [OF k(1)] k(2) s by simp_all
  define n1 where "n1 = (if rvr_term r = saved \<and> vote_granted r
    then ?n\<lparr>follower_id_set := List.insert t (follower_id_set ?n)\<rparr> else ?n)"
  have n1_ok: "node_ok L (nat i) n1" "role n1 = role ?n" using n(2) by (simp_all add: n1_def node_ok_def del: int_nat_eq)
  consider "role ?n \<noteq> candidate" "n' = ?n" | "role ?n = candidate" "saved < rvr_term r" "n' = BecomeFollower serc now (rvr_term r) ?n"
    | "role ?n = candidate" "\<not> saved < rvr_term r"
      "n' = (if length (follower_id_set n1) + 1 > num_nodes n1 div 2 then BecomeLeader n1 else n1)"
    unfolding n'_def OnVoteReply_def n1_def by (auto simp: Let_def)
  then have "refines L N (note_winner (nat i) ?n n' (put_node (nat i) n' N))"
  proof cases
    case 1
    then show ?thesis using refines_same [OF ok k(1), of n'] by (auto simp: note_winner_def)
  next
    case 2
    have v: "view n' = (my_id ?n, num_nodes ?n, follower, rvr_term r, -1, [])" using 2(3) by (simp add: view_follower)
    then have "role n' = follower" "node_ok L (nat i) n'" using n(2) s 2(2) by (simp_all add: view_def node_ok_def)
    moreover have "vstep L ?V (rejoin i (rvr_term r) follower (-1) ?V)" using 2(2) at by (intro vstep.step_down) simp
    ultimately show ?thesis using net_ok_put [OF ok n(1)] abs_put [OF k(1), of n'] vput_rejoin [OF v] k(2)
      by (simp add: refines_def note_winner_def r_into_rtranclp)
  next
    case 3
    have V1: "(vstep L)\<^sup>*\<^sup>* ?V (vput i n1 ?V)"
    proof (cases "rvr_term r = saved \<and> vote_granted r")
      case True
      then have "(t, i, term_of ?V i) \<in> grants ?V" using m at(2) by (force simp: vote_abs_def)
      then have "vstep L ?V (?V\<lparr>votes_of := (votes_of ?V)(i := insert t (votes_of ?V i))\<rparr>)"
        using 3(1) at(1) by (intro vstep.count) simp_all
      moreover have "vput i n1 ?V = ?V\<lparr>votes_of := (votes_of ?V)(i := insert t (votes_of ?V i))\<rparr>"
        using True at abs_at(3) [OF k(1)] k(2) s by (auto simp: vput_def n1_def fun_upd_idem)
      ultimately show ?thesis by (simp add: r_into_rtranclp)
    next
      case False
      then have "n1 = ?n" by (auto simp: n1_def)
      then show ?thesis using vput_same [OF k(1), of ?n] k(2) by simp
    qed
    show ?thesis
    proof (cases "length (follower_id_set n1) + 1 > num_nodes n1 div 2")
      case True
      let ?W = "vput i n1 ?V"
      have c: "card (votes_of ?W i) = length (follower_id_set n1)"
        using n1_ok by (simp add: vput_def node_ok_def distinct_card)
      have "vstep L ?W (?W\<lparr>role_of := (role_of ?W)(i := leader), leads := insert (i, term_of ?W i) (leads ?W)\<rparr>)"
        using i 3(1) n1_ok True c by (intro vstep.win) (simp_all add: vput_def node_ok_def)
      moreover have "vote_abs (note_winner (nat i) ?n n' (put_node (nat i) n' N)) =
          ?W\<lparr>role_of := (role_of ?W)(i := leader), leads := insert (i, term_of ?W i) (leads ?W)\<rparr>"
        using True 3 k abs_put [OF k(1), of n'] view_leader [of n1]
        by (simp add: note_winner_def abs_elections) (simp add: vput_def view_def put_node_def, simp add: vote_abs_def)
      moreover have "node_ok L (nat i) n'" using 3(3) True n1_ok by (simp add: BecomeLeader_def node_ok_def)
      then have "net_ok L (note_winner (nat i) ?n n' (put_node (nat i) n' N))"
        using net_ok_put [OF ok n(1), of n'] by (simp add: note_winner_def net_ok_def)
      ultimately show ?thesis using V1 by (simp add: refines_def rtranclp.rtrancl_into_rtrancl)
    next
      case False
      then show ?thesis using 3 n1_ok V1 net_ok_put [OF ok n(1), of n1] abs_put [OF k(1), of n1] k(2)
        by (simp add: refines_def note_winner_def)
    qed
  qed
  then show ?thesis by (simp add: n'_def Let_def)
qed

lemma refines_append_reply:
  assumes ok: "net_ok L N" and m: "(i, (t, args, saved, hb), r) \<in> set (append_replies N)"
    and e: "OnAppendReply serc now t args saved hb r (nodes N ! nat i) = Return n'"
  shows "refines L N (put_node (nat i) n' N)"
proof -
  have "\<forall>(i, (t, args, saved, hb), r) \<in> set (append_replies N). i \<in> node_ids L \<and> 0 \<le> saved \<and> r = \<lparr>aer_term = 0, success = False\<rparr>"
    using ok unfolding net_ok_def by (elim conjE)
  from bspec [OF this m] have q: "i \<in> node_ids L" "0 \<le> saved" "r = \<lparr>aer_term = 0, success = False\<rparr>" by simp_all
  show ?thesis using refines_same [OF ok _ view_append_reply [OF e [unfolded q(3)] q(2)]] net_ok_index [OF ok q(1)] by simp
qed

lemma refines_retry:
  assumes ok: "net_ok L N" and m: "append_reqs N ! k = (i, t, args, saved, hb)" "k < length (append_reqs N)"
  shows "refines L N (N\<lparr>append_reqs := append_reqs N @ [(i, t, args, saved, False)]\<rparr>)" (is "refines L N ?N")
proof -
  have in_reqs: "(i, t, args, saved, hb) \<in> set (append_reqs N)" using m by (metis nth_mem)
  then have "claims (vote_abs ?N) = claims (vote_abs N)" by (force simp: vote_abs_def image_iff)
  then have "vote_abs ?N = vote_abs N" by (subst abs_pools [of ?N N]) (simp_all, simp add: vote_abs_def)
  moreover have "net_ok L ?N" using ok net_ok_append_req [OF ok in_reqs] by (simp add: net_ok_def)
  ultimately show ?thesis by (simp add: refines_def)
qed

lemma wire_lost: "wire_append_reply r = Return \<lparr>aer_term = 0, success = False\<rparr>"
  by (simp add: wire_append_reply_def AppendEntriesReply_deserialize_def bind_outcome_def)

lemma refines_refl: "net_ok L N \<Longrightarrow> refines L N N"
  by (simp add: refines_def)

lemma nth_mem': "xs ! k = x \<Longrightarrow> k < length xs \<Longrightarrow> x \<in> set xs"
  by auto

lemma on_nodeE:
  assumes "on_node i f N = Return N'"
  obtains "N' = N" | "i < length (nodes N)" "f (nodes N ! i) N = Return N'"
  using assms by (auto simp: on_node_def split: if_splits)

lemma net_step_refines:
  assumes ok: "net_ok L N" and step: "net_step dflt serc e N = Return N'" and "timely e N"
  shows "refines L N N'"
proof (cases e)
  case (Election k now)
  with step ok show ?thesis by (auto simp: bind_Return intro: refines_refl refines_election elim!: on_nodeE)
next
  case (Heartbeat k)
  with step ok show ?thesis
    by (auto simp: bind_Return intro: refines_refl elim!: on_nodeE dest: refines_claims [OF ok _ heartbeat_claims])
next
  case (CommitWork k)
  with step ok show ?thesis
    by (auto simp: bind_Return intro: refines_refl elim!: on_nodeE dest: refines_claims [OF ok _ commit_claims])
next
  case (ApplyWork k)
  with step ok show ?thesis by (auto simp: bind_Return intro: refines_refl refines_same [OF ok _ view_apply] elim!: on_nodeE)
next
  case (Client k c)
  with step ok show ?thesis by (auto intro: refines_refl refines_same [OF ok _ view_command] elim!: on_nodeE)
next
  case (StopNode k)
  with step ok show ?thesis by (auto intro: refines_refl refines_same [OF ok _ view_stop] elim!: on_nodeE)
next
  case (DeliverVote k now)
  with step ok show ?thesis
    by (auto simp: bind_Return intro: refines_refl refines_vote [OF ok nth_mem'] elim!: on_nodeE split: if_splits prod.splits)
next
  case (ReplyVote k now)
  show ?thesis
  proof (cases "k < length (vote_replies N)")
    case True
    obtain i t saved r where q: "vote_replies N ! k = (i, t, saved, r)" by (cases "vote_replies N ! k") auto
    then have m: "(i, t, saved, r) \<in> set (vote_replies N)" using True nth_mem by metis
    have "\<forall>(i, t, saved, r) \<in> set (vote_replies N). i \<in> node_ids L" using ok unfolding net_ok_def by (elim conjE)
    from bspec [OF this m] have i: "i \<in> node_ids L" by simp
    have "current_term (nodes N ! nat i) = saved" using assms(3) ReplyVote True q net_ok_index [OF ok i] by simp
    from refines_vote_reply [OF ok m i this, of serc now] show ?thesis
      using step ReplyVote True q net_ok_index [OF ok i] by (simp add: on_node_def Let_def)
  next
    case False
    with step ReplyVote ok show ?thesis by (simp add: refines_refl)
  qed
next
  case (DeliverAppend k now)
  with step ok show ?thesis
    by (auto simp: bind_Return wire_lost intro: refines_refl refines_append [OF ok nth_mem'] elim!: on_nodeE split: if_splits prod.splits)
next
  case (ReplyAppend k now)
  with step ok show ?thesis
    by (auto simp: bind_Return intro: refines_refl refines_append_reply [OF ok nth_mem'] elim!: on_nodeE split: if_splits prod.splits)
next
  case (RetryAppend k)
  with step ok show ?thesis
    by (auto intro: refines_refl refines_retry [OF ok] split: if_splits prod.splits)
qed

section \<open>Runs\<close>

lemma init_ok: "fresh_cluster ns \<Longrightarrow> net_ok (length ns) (Net_init ns)"
  by (fastforce simp: fresh_cluster_def net_ok_def Net_init_def node_ok_def Raft_init_def)

lemma init_vote_inv:
  assumes "fresh_cluster ns" shows "vote_inv (length ns) (vote_abs (Net_init ns))"
proof (rule vote_init)
  have "role n = follower" if "n \<in> set ns" for n
    using assms that unfolding fresh_cluster_def in_set_conv_nth by (auto simp: Raft_init_def)
  then show "role_of (vote_abs (Net_init ns)) i = follower" for i
    by (auto simp: vote_abs_def of_node_def Net_init_def)
qed (simp_all add: vote_abs_def Net_init_def)

lemma reachable_refines:
  assumes "reachable dflt serc timely ns N" and "fresh_cluster ns"
  shows "refines (length ns) (Net_init ns) N"
  using assms(1)
proof induction
  case reach_init
  then show ?case using init_ok [OF assms(2)] by (rule refines_refl)
next
  case (reach_step N e N')
  then have "net_ok (length ns) N" by (simp add: refines_def)
  from net_step_refines [OF this reach_step.hyps(3,2)] have "refines (length ns) N N'" .
  with reach_step.IH show ?case by (auto simp: refines_def)
qed

lemma reachable_vote_inv:
  assumes "reachable dflt serc timely ns N" and "fresh_cluster ns"
  shows "vote_inv (length ns) (vote_abs N) \<and> net_ok (length ns) N"
  using reachable_refines [OF assms] vsteps_inv init_vote_inv [OF assms(2)] by (auto simp: refines_def)

fun run_within :: "('c event \<Rightarrow> 'c Net \<Rightarrow> bool) \<Rightarrow> 'c LogEntry \<Rightarrow> 'c writer \<Rightarrow> 'c event list \<Rightarrow> 'c Net \<Rightarrow> bool" where
  "run_within allowed dflt serc [] N = True"
| "run_within allowed dflt serc (e # es) N = (allowed e N \<and>
     (case net_step dflt serc e N of Return N' \<Rightarrow> run_within allowed dflt serc es N' | Fault _ \<Rightarrow> False))"

lemma reachable_run:
  "reachable dflt serc allowed ns N \<Longrightarrow> net_run dflt serc es N = Return N' \<Longrightarrow> run_within allowed dflt serc es N
    \<Longrightarrow> reachable dflt serc allowed ns N'"
  by (induction es arbitrary: N) (auto simp: bind_Return split: outcome.splits intro: reach_step)

text \<open>
  C9. At most one leader per term: in a cluster whose candidates handle the reply to a vote
  request only while the election it belongs to is their current one, two nodes that ever won
  the election of a term are the same node, and so are two nodes that lead in the same term.
\<close>

theorem election_safety:
  assumes "fresh_cluster ns" and "reachable dflt serc timely ns N"
  shows "(\<forall>i j T. (i, T) \<in> set (elections N) \<and> (j, T) \<in> set (elections N) \<longrightarrow> i = j)
    \<and> (\<forall>i j. i < length ns \<and> j < length ns \<and> role (nodes N ! i) = leader \<and> role (nodes N ! j) = leader
        \<and> current_term (nodes N ! i) = current_term (nodes N ! j) \<longrightarrow> i = j)"
proof -
  have inv: "vote_inv (length ns) (vote_abs N)" "length (nodes N) = length ns"
    using reachable_vote_inv [OF assms(2,1)] by (auto simp: net_ok_def)
  have one: "i = j" if "(i, T) \<in> set (elections N)" "(j, T) \<in> set (elections N)" for i j T
    using vote_inv_one_leader [OF inv(1)] that unfolding one_leader_def by (auto simp: vote_abs_def)
  have "(int i, current_term (nodes N ! i)) \<in> set (elections N)" if "i < length ns" "role (nodes N ! i) = leader" for i
    using vote_invD(6) [OF inv(1), of "int i"] abs_at [of i N] that inv(2) by (simp add: vote_abs_def)
  with one show ?thesis by (metis of_nat_eq_iff)
qed

definition ex_cluster :: "u32 Raft list" where
  "ex_cluster = map (\<lambda>k. Raft_init k 3 \<lparr>rs_current_term = 0, rs_vote_for = -1, rs_log = [], rs_file = ''data'', rs_ofs = 0\<rparr>
     \<lparr>files = [], dirs = [], dir_order = id, wr_script = [], sync_script = []\<rparr>
     (Random_init (\<lambda>s k. s) 1 (\<lambda>k. 0) 1 True) 0) [0, 1, 2]"

lemma ex_cluster_fresh: "fresh_cluster ex_cluster"
  unfolding fresh_cluster_def
proof (intro allI impI)
  fix i assume "i < length ex_cluster"
  then have "i = 0 \<or> i = 1 \<or> i = 2" by (auto simp: ex_cluster_def)
  then show "\<exists>st w r now. ex_cluster ! i = Raft_init (int i) (length ex_cluster) st w r now"
    by (elim disjE) (simp add: ex_cluster_def numeral_3_eq_3; blast)+
qed

abbreviation ex_dflt :: "u32 LogEntry" where
  "ex_dflt \<equiv> \<lparr>le_cmd = 0, le_term = 0\<rparr>"

definition ex_events :: "u32 event list" where
  "ex_events = [Election 0 1000, DeliverVote 0 1000, ReplyVote 0 1000]"

lemma ex_run:
  "\<exists>N. reachable ex_dflt serialize_arith timely ex_cluster N \<and> (0, 1) \<in> set (elections N)"
proof -
  have "case net_run ex_dflt serialize_arith ex_events (Net_init ex_cluster) of Return N \<Rightarrow> (0, 1) \<in> set (elections N) | Fault _ \<Rightarrow> False"
    by code_simp
  then obtain N where N: "net_run ex_dflt serialize_arith ex_events (Net_init ex_cluster) = Return N" "(0, 1) \<in> set (elections N)"
    by (auto split: outcome.splits)
  have "run_within timely ex_dflt serialize_arith ex_events (Net_init ex_cluster)" by code_simp
  from reachable_run [OF reach_init N(1) this] N(2) show ?thesis by blast
qed

theorem election_safety_witness:
  "fresh_cluster ex_cluster \<and> (\<exists>N. reachable ex_dflt serialize_arith timely ex_cluster N \<and> (0, 1) \<in> set (elections N)
     \<and> (\<forall>j. (j, 1) \<in> set (elections N) \<longrightarrow> j = 0))"
  using ex_cluster_fresh ex_run election_safety [of ex_cluster ex_dflt serialize_arith] by blast

text \<open>
  C29. Two leaders in one term: a vote that arrives late, after its candidate has started another
  election, is counted in that later election. If the vote completes the majority, the candidate
  becomes leader of its present term, also when another node has won that term before.
\<close>

theorem stale_reply_two_leaders:
  assumes reply: "k < length (vote_replies N)" "vote_replies N ! k = (int i, t, saved, r)" and i: "i < length (nodes N)"
    and cand: "role (nodes N ! i) = candidate" and late: "saved < current_term (nodes N ! i)"
    and vote: "rvr_term r = saved" "vote_granted r"
    and major: "num_nodes (nodes N ! i) div 2 < length (List.insert t (follower_id_set (nodes N ! i))) + 1"
    and other: "(j, current_term (nodes N ! i)) \<in> set (elections N)"
  shows "\<exists>N'. net_step dflt serc (ReplyVote k now) N = Return N' \<and> role (nodes N' ! i) = leader
    \<and> current_term (nodes N' ! i) = current_term (nodes N ! i)
    \<and> {(int i, current_term (nodes N ! i)), (j, current_term (nodes N ! i))} \<subseteq> set (elections N')"
proof -
  let ?n = "nodes N ! i" let ?n' = "BecomeLeader (?n\<lparr>follower_id_set := List.insert t (follower_id_set ?n)\<rparr>)"
  have "OnVoteReply serc now t saved r ?n = ?n'" using cand vote major by (simp add: OnVoteReply_def Let_def)
  then have "net_step dflt serc (ReplyVote k now) N = Return (note_winner i ?n ?n' (put_node i ?n' N))"
    using reply i by (simp add: on_node_def Let_def)
  moreover have "role ?n' = leader" "current_term ?n' = current_term ?n" by (simp_all add: BecomeLeader_def)
  ultimately show ?thesis using cand i other by (simp add: note_winner_def put_node_def)
qed

text \<open>Node 0 asks for votes in term 1 and again in term 2, and node 2 wins term 2 with the vote of node 1.\<close>

definition ex_stale :: "u32 event list" where
  "ex_stale = [Election 0 1000, DeliverVote 0 1000, Election 0 2000, Election 2 1000, Election 2 2000,
     DeliverVote 7 2000, ReplyVote 1 2000]"

theorem stale_reply_two_leaders_witness:
  "fresh_cluster ex_cluster \<and> (\<exists>N N'. net_run ex_dflt serialize_arith ex_stale (Net_init ex_cluster) = Return N
     \<and> net_step ex_dflt serialize_arith (ReplyVote 0 2000) N = Return N' \<and> {(0, 2), (2, 2)} \<subseteq> set (elections N'))"
proof -
  have "case net_run ex_dflt serialize_arith ex_stale (Net_init ex_cluster) of Return N \<Rightarrow>
      0 < length (vote_replies N) \<and> vote_replies N ! 0 = (int 0, 1, 1, \<lparr>rvr_term = 1, vote_granted = True\<rparr>) \<and> 0 < length (nodes N)
      \<and> role (nodes N ! 0) = candidate \<and> current_term (nodes N ! 0) = 2
      \<and> num_nodes (nodes N ! 0) div 2 < length (List.insert 1 (follower_id_set (nodes N ! 0))) + 1 \<and> (2, 2) \<in> set (elections N)
    | Fault _ \<Rightarrow> False"
    by code_simp
  then obtain N where N: "net_run ex_dflt serialize_arith ex_stale (Net_init ex_cluster) = Return N"
    and h: "0 < length (vote_replies N)" "vote_replies N ! 0 = (int 0, 1, 1, \<lparr>rvr_term = 1, vote_granted = True\<rparr>)" "0 < length (nodes N)"
      "role (nodes N ! 0) = candidate" and t: "current_term (nodes N ! 0) = 2"
    and m: "num_nodes (nodes N ! 0) div 2 < length (List.insert 1 (follower_id_set (nodes N ! 0))) + 1" "(2, 2) \<in> set (elections N)"
    by (auto split: outcome.splits simp del: in_set_insert)
  have "\<exists>N'. net_step ex_dflt serialize_arith (ReplyVote 0 2000) N = Return N' \<and> role (nodes N' ! 0) = leader
    \<and> current_term (nodes N' ! 0) = current_term (nodes N ! 0)
    \<and> {(int 0, current_term (nodes N ! 0)), (2, current_term (nodes N ! 0))} \<subseteq> set (elections N')"
    by (rule stale_reply_two_leaders [OF h]) (use t m in simp_all)
  then show ?thesis using N t ex_cluster_fresh by auto
qed

end
