(* ===== verification/Raft_Progress.thy ===== *)
theory Raft_Progress
  imports Raft_Elections
begin

text \<open>
  What a cluster does whatever the order of its messages: no step faults, and, since the
  replies to \<open>AppendEntries\<close> are not transported, no command is ever committed or applied.
  Where the entries of a request end up in the log of a follower.
\<close>

section \<open>The invariant of a node and of the pools\<close>

definition calm :: "'c Raft \<Rightarrow> bool" where
  "calm n \<longleftrightarrow> commit_index n = 0 \<and> last_applied n = 0 \<and> applied n = [] \<and> 0 \<le> current_term n
     \<and> (role n \<noteq> follower \<longrightarrow> 1 \<le> current_term n)
     \<and> (role n = leader \<longrightarrow> length (next_index n) = num_nodes n \<and> (\<forall>x \<in> set (next_index n). 1 \<le> x))"

definition calm_append :: "'c append_request \<Rightarrow> bool" where
  "calm_append = (\<lambda>(t, args, saved, hb). leader_commit args = 0 \<and> 0 \<le> prev_log_index args \<and> ae_term args = saved \<and> 1 \<le> saved)"

definition calm_net :: "'c Net \<Rightarrow> bool" where
  "calm_net N \<longleftrightarrow> (\<forall>n \<in> set (nodes N). calm n)
   \<and> (\<forall>(i, t, args, saved) \<in> set (vote_reqs N). rv_term args = saved \<and> 1 \<le> saved)
   \<and> (\<forall>(i, t, saved, r) \<in> set (vote_replies N). 1 \<le> saved)
   \<and> (\<forall>(i, q) \<in> set (append_reqs N). calm_append q)
   \<and> (\<forall>(i, q, r) \<in> set (append_replies N). calm_append q \<and> r = \<lparr>aer_term = 0, success = False\<rparr>)"

section \<open>Operations of a node\<close>

lemma calm_flush [simp]: "calm (flush_storage serc n) = calm n"
  by (simp add: flush_storage_def calm_def split: prod.split)

lemma calm_follower: "calm n \<Longrightarrow> 0 \<le> T \<Longrightarrow> calm (BecomeFollower serc now T n)"
  by (simp add: BecomeFollower_def BeginNewTerm_def) (simp add: calm_def)

lemma calm_candidate: "calm n \<Longrightarrow> 1 \<le> T \<Longrightarrow> calm (BecomeCandidate serc now T n)"
  by (simp add: BecomeCandidate_def BeginNewTerm_def) (simp add: calm_def)

lemma log_term_last: "\<exists>x. GetLogTerm (GetLastLogIndex n) n = Return x"
  by (simp add: GetLogTerm_def GetLastLogIndex_def vec_at_def)

lemma log_term_nonneg: "0 \<le> i \<Longrightarrow> \<exists>x. GetLogTerm i n = Return x"
  by (simp add: GetLogTerm_def GetLastLogIndex_def vec_at_def)

text \<open>The loop over the entries returns and stays inside of both vectors.\<close>

lemma skip_returns:
  "0 \<le> i \<Longrightarrow> 0 \<le> j \<Longrightarrow> \<exists>i' j'. skip_matching log es i j = Return (i', j') \<and> 0 \<le> j'"
proof (induction log es i j rule: skip_matching.induct)
  case (1 log es i j)
  show ?case
  proof (cases "i \<ge> int (length log) \<or> j \<ge> int (length es)")
    case True
    then show ?thesis using 1(3) by (simp add: skip_matching.simps [of log es i j])
  next
    case False
    then have v: "vec_at log i = Return (log ! nat i)" "vec_at es j = Return (es ! nat j)" using 1(2,3) by (simp_all add: vec_at_def)
    show ?thesis using "1.IH" [OF False v] 1(2,3) False v by (simp add: skip_matching.simps [of log es i j])
  qed
qed

lemma timeout_returns: "\<exists>t r'. UniformRange 150 300 r = Return (t, r')"
  by (simp add: UniformRange_def Uniform_def bind_outcome_def split: prod.split)

lemma calm_election:
  assumes "calm n"
  shows "\<exists>qs n'. ElectionRound serc now n = Return (qs, n') \<and> calm n' \<and> (\<forall>(t, args, saved) \<in> set qs. rv_term args = saved \<and> 1 \<le> saved)"
proof -
  obtain t r where u: "UniformRange 150 300 (rander n) = Return (t, r)" using timeout_returns by blast
  let ?n = "BecomeCandidate serc now (current_term n + 1) (n\<lparr>rander := r\<rparr>)"
  have "calm (n\<lparr>rander := r\<rparr>)" and "1 \<le> current_term n + 1" using assms by (simp_all add: calm_def)
  then have c: "calm ?n" and r: "calm (n\<lparr>rander := r\<rparr>)" by (simp_all add: calm_candidate)
  have t: "current_term ?n = current_term n + 1" using view_candidate [of serc now "current_term n + 1" "n\<lparr>rander := r\<rparr>"] by (simp add: view_def)
  obtain x where "GetLogTerm (GetLastLogIndex ?n) ?n = Return x" using log_term_last by blast
  then show ?thesis using assms u c r t
    by (auto simp: ElectionRound_def StartElection_def Let_def bind_outcome_def calm_def)
qed

lemma collect_returns:
  "(\<And>x. x \<in> set xs \<Longrightarrow> \<exists>ys. f x = Return ys \<and> (\<forall>y \<in> set ys. P y)) \<Longrightarrow> \<exists>ys. collect f xs = Return ys \<and> (\<forall>y \<in> set ys. P y)"
proof (induction xs)
  case (Cons x xs)
  then obtain ys zs where "f x = Return ys" "\<forall>y \<in> set ys. P y" "collect f xs = Return zs" "\<forall>y \<in> set zs. P y" by force
  then show ?case by (auto simp: bind_outcome_def)
qed simp

lemma calm_next: "calm n \<Longrightarrow> role n = leader \<Longrightarrow> 0 \<le> i \<Longrightarrow> i < int (num_nodes n) \<Longrightarrow> \<exists>x. vec_at (next_index n) i = Return x \<and> 1 \<le> x"
  by (auto simp: calm_def vec_at_def)

lemma calm_heartbeat_to:
  assumes "calm n" and "role n = leader" and "0 \<le> i" and "i < int (num_nodes n)"
  shows "\<exists>qs. heartbeat_to n i = Return qs \<and> (\<forall>q \<in> set qs. calm_append q)"
proof -
  obtain x where x: "vec_at (next_index n) i = Return x" "1 \<le> x" using calm_next [OF assms] by blast
  obtain y where "GetLogTerm (x - 1) n = Return y" using log_term_nonneg [of "x - 1" n] x by auto
  then show ?thesis using x assms by (simp add: heartbeat_to_def Let_def bind_outcome_def calm_append_def calm_def)
qed

lemma calm_entries_to:
  assumes "calm n" and "role n = leader" and "0 \<le> i" and "i < int (num_nodes n)"
  shows "\<exists>qs. entries_to n i = Return qs \<and> (\<forall>q \<in> set qs. calm_append q)"
proof -
  obtain x where x: "vec_at (next_index n) i = Return x" "1 \<le> x" using calm_next [OF assms] by blast
  obtain y where "GetLogTerm (x - 1) n = Return y" using log_term_nonneg [of "x - 1" n] x by auto
  then show ?thesis using x assms by (simp add: entries_to_def Let_def bind_outcome_def calm_append_def calm_def GetLastLogIndex_def)
qed

lemma calm_rounds:
  assumes "calm n"
  shows "\<exists>qs. HeartbeatRound n = Return qs \<and> (\<forall>q \<in> set qs. calm_append q)"
    and "\<exists>qs. CommitRound n = Return qs \<and> (\<forall>q \<in> set qs. calm_append q)"
  using collect_returns [of "[0..int (num_nodes n) - 1]" "heartbeat_to n" calm_append] calm_heartbeat_to [OF assms]
    collect_returns [of "[0..int (num_nodes n) - 1]" "entries_to n" calm_append] calm_entries_to [OF assms]
  by (auto simp: HeartbeatRound_def LeaderSendHeartbeat_def CommitRound_def)

lemma calm_apply: "calm n \<Longrightarrow> ApplyRound n = Return n"
  by (simp add: ApplyRound_def calm_def)

lemma calm_command: "calm n \<Longrightarrow> calm (snd (NewCommand serc c n))"
  by (simp add: NewCommand_def) (simp add: calm_def)

lemma calm_stop: "calm n \<Longrightarrow> calm (Raft_Stop n)"
  by (simp add: Raft_Stop_def calm_def)

lemma calm_request:
  assumes "calm n" and "1 \<le> rv_term args"
  shows "\<exists>r n'. RequestVote serc now args n = Return (r, n') \<and> calm n'"
proof -
  have v: "calm (m\<lparr>vote_for := x\<rparr>) = calm m" for m :: "'a Raft" and x by (simp add: calm_def)
  have f: "calm (BecomeFollower serc now (rv_term args) n)" using assms by (simp add: calm_follower)
  obtain x where "GetLogTerm (GetLastLogIndex n) n = Return x" using log_term_last by blast
  moreover obtain y where "GetLogTerm (GetLastLogIndex (BecomeFollower serc now (rv_term args) n)) (BecomeFollower serc now (rv_term args) n) = Return y"
    using log_term_last by blast
  ultimately show ?thesis using assms(1) f by (simp add: RequestVote_def Let_def bind_outcome_def v)
qed

lemma calm_accept:
  assumes "calm n" and "leader_commit args = 0" and "0 \<le> prev_log_index args"
  shows "\<exists>n'. accept_entries dflt args n = Return n' \<and> calm n'"
proof -
  obtain i j where "skip_matching (raft_log n) (entries args) (prev_log_index args + 1) 0 = Return (i, j)"
    using skip_returns [of "prev_log_index args + 1" 0] assms(3) by fastforce
  then show ?thesis using assms(1,2) by (simp add: accept_entries_def calm_def Let_def bind_outcome_def)
qed

lemma calm_append_entries:
  assumes "calm n" and "calm_append (t, args, saved, hb)"
  shows "\<exists>r n'. AppendEntries dflt serc now args n = Return (r, n') \<and> calm n'"
proof -
  have a: "leader_commit args = 0" "0 \<le> prev_log_index args" "0 \<le> ae_term args" using assms(2) by (auto simp: calm_append_def)
  have l: "calm (m\<lparr>last_received_rpc_time := x\<rparr>) = calm m" for m :: "'a Raft" and x by (simp add: calm_def)
  have f: "calm (BecomeFollower serc now (ae_term args) n)" using assms(1) a by (simp add: calm_follower)
  have m: "\<exists>b. is_log_index_matched (prev_log_index args) (prev_log_term args) m = Return b" for m :: "'a Raft"
    using log_term_nonneg [OF a(2), of m] by (auto simp: is_log_index_matched_def bind_outcome_def)
  define fin where "fin = (\<lambda>m :: 'a Raft. bind_outcome (is_log_index_matched (prev_log_index args) (prev_log_term args) m) (\<lambda>b.
      if b then bind_outcome (accept_entries dflt args m) (\<lambda>n3. Return (\<lparr>aer_term = current_term n3, success = True\<rparr>, n3))
      else Return (\<lparr>aer_term = current_term m, success = False\<rparr>, m)))"
  have fin: "\<exists>r n'. fin m = Return (r, n') \<and> calm n'" if "calm m" for m
    using m [of m] calm_accept [OF that a(1,2), of dflt] that by (auto simp: fin_def bind_outcome_def)
  have r: "role (BecomeFollower serc now (ae_term args) n) = follower"
    using view_follower [of serc now "ae_term args" n] by (simp add: view_def)
  show ?thesis using assms(1) f l r fin unfolding AppendEntries_def fin_def [symmetric] by (auto simp: Let_def)
qed

lemma calm_vote_reply:
  assumes "calm n" and "1 \<le> saved"
  shows "calm (OnVoteReply serc now t saved r n)"
proof -
  have "calm (BecomeLeader m)" if "calm m" "role m = candidate" for m :: "'a Raft"
    using that by (auto simp: BecomeLeader_def calm_def GetLastLogIndex_def)
  moreover have "calm (m\<lparr>follower_id_set := x\<rparr>) = calm m" for m :: "'a Raft" and x by (simp add: calm_def)
  ultimately show ?thesis using assms calm_follower [OF assms(1), of "rvr_term r" serc now]
    by (simp add: OnVoteReply_def Let_def)
qed

lemma calm_append_reply:
  "calm n \<Longrightarrow> calm_append (t, args, saved, hb) \<Longrightarrow> OnAppendReply serc now t args saved hb \<lparr>aer_term = 0, success = False\<rparr> n = Return n"
  by (simp add: OnAppendReply_def calm_append_def)

section \<open>Steps of the cluster\<close>

lemma calm_put: "calm_net N \<Longrightarrow> calm n \<Longrightarrow> calm_net (put_node k n N)"
  using set_update_subset_insert [of "nodes N" k n] by (auto simp: calm_net_def put_node_def)

lemma calm_netD:
  assumes "calm_net N"
  shows "k < length (nodes N) \<Longrightarrow> calm (nodes N ! k)"
    and "k < length (vote_reqs N) \<Longrightarrow> vote_reqs N ! k = (i, t, args, saved) \<Longrightarrow> rv_term args = saved \<and> 1 \<le> saved"
    and "k < length (vote_replies N) \<Longrightarrow> vote_replies N ! k = (i, t, saved, r) \<Longrightarrow> 1 \<le> saved"
    and "k < length (append_reqs N) \<Longrightarrow> append_reqs N ! k = (i, q) \<Longrightarrow> calm_append q"
    and "k < length (append_replies N) \<Longrightarrow> append_replies N ! k = (i, q, r') \<Longrightarrow> calm_append q \<and> r' = \<lparr>aer_term = 0, success = False\<rparr>"
  using assms unfolding calm_net_def by (fastforce dest: nth_mem)+

lemma calm_winner: "calm_net N \<Longrightarrow> calm_net (note_winner k n n' N)"
  by (simp add: note_winner_def calm_net_def)

lemma calm_on_node:
  assumes "calm_net N" and "k < length (nodes N) \<Longrightarrow> calm (nodes N ! k) \<Longrightarrow> \<exists>N'. f (nodes N ! k) N = Return N' \<and> calm_net N'"
  shows "\<exists>N'. on_node k f N = Return N' \<and> calm_net N'"
  using assms calm_netD(1) [OF assms(1)] by (auto simp: on_node_def)

lemma calm_add_votes:
  "calm_net N \<Longrightarrow> \<forall>(t, args, saved) \<in> set qs. rv_term args = saved \<and> 1 \<le> saved \<Longrightarrow> calm_net (N\<lparr>vote_reqs := vote_reqs N @ map (Pair i) qs\<rparr>)"
  by (auto simp: calm_net_def)

lemma calm_add_appends: "calm_net N \<Longrightarrow> \<forall>q \<in> set qs. calm_append q \<Longrightarrow> calm_net (N\<lparr>append_reqs := append_reqs N @ map (Pair i) qs\<rparr>)"
  by (auto simp: calm_net_def)

lemma calm_step:
  assumes calm: "calm_net N"
  shows "\<exists>N'. net_step dflt serc e N = Return N' \<and> calm_net N'"
proof (cases e)
  case (Election k now)
  show ?thesis unfolding Election net_step.simps
  proof (rule calm_on_node [OF calm])
    assume "calm (nodes N ! k)"
    from calm_election [OF this, of serc now] obtain qs n' where "ElectionRound serc now (nodes N ! k) = Return (qs, n')" "calm n'"
      "\<forall>(t, args, saved) \<in> set qs. rv_term args = saved \<and> 1 \<le> saved" by blast
    then show "\<exists>N'. bind_outcome (ElectionRound serc now (nodes N ! k)) (\<lambda>(qs, n').
        Return (put_node k n' (N\<lparr>vote_reqs := vote_reqs N @ map (Pair (int k)) qs\<rparr>))) = Return N' \<and> calm_net N'"
      using calm_put [OF calm_add_votes [OF calm]] by (simp add: bind_outcome_def)
  qed
next
  case (Heartbeat k)
  show ?thesis unfolding Heartbeat net_step.simps
    by (rule calm_on_node [OF calm], drule calm_rounds(1)) (auto simp: bind_outcome_def calm_add_appends [OF calm])
next
  case (CommitWork k)
  show ?thesis unfolding CommitWork net_step.simps
    by (rule calm_on_node [OF calm], drule calm_rounds(2)) (auto simp: bind_outcome_def calm_add_appends [OF calm])
next
  case (ApplyWork k)
  show ?thesis unfolding ApplyWork net_step.simps
    by (rule calm_on_node [OF calm]) (simp add: calm_apply bind_outcome_def calm_put [OF calm])
next
  case (Client k c)
  show ?thesis unfolding Client net_step.simps
    by (rule calm_on_node [OF calm]) (simp add: calm_command calm_put [OF calm])
next
  case (StopNode k)
  show ?thesis unfolding StopNode net_step.simps
    by (rule calm_on_node [OF calm]) (simp add: calm_stop calm_put [OF calm])
next
  case (DeliverVote k now)
  show ?thesis
  proof (cases "k < length (vote_reqs N)")
    case True
    obtain i t args saved where q: "vote_reqs N ! k = (i, t, args, saved)" by (cases "vote_reqs N ! k") auto
    have a: "1 \<le> rv_term args" "1 \<le> saved" using calm_netD(2) [OF calm True q] by auto
    have "calm_net (N\<lparr>vote_replies := vote_replies N @ [(i, t, saved, r)]\<rparr>)" for r using calm a by (simp add: calm_net_def)
    then show ?thesis unfolding DeliverVote net_step.simps if_P [OF True] q prod.case
      by (intro calm_on_node [OF calm]) (use calm_request [OF _ a(1), of _ serc now] calm_put in \<open>fastforce simp: bind_outcome_def\<close>)
  qed (use DeliverVote calm in simp)
next
  case (ReplyVote k now)
  show ?thesis
  proof (cases "k < length (vote_replies N)")
    case True
    obtain i t saved r where q: "vote_replies N ! k = (i, t, saved, r)" by (cases "vote_replies N ! k") auto
    have a: "1 \<le> saved" using calm_netD(3) [OF calm True q] .
    show ?thesis unfolding ReplyVote net_step.simps if_P [OF True] q prod.case
      by (intro calm_on_node [OF calm]) (simp add: Let_def calm_vote_reply [OF _ a] calm_winner calm_put [OF calm])
  qed (use ReplyVote calm in simp)
next
  case (DeliverAppend k now)
  show ?thesis
  proof (cases "k < length (append_reqs N)")
    case True
    obtain i t args saved hb where q: "append_reqs N ! k = (i, t, args, saved, hb)" by (cases "append_reqs N ! k") auto
    have a: "calm_append (t, args, saved, hb)" using calm_netD(4) [OF calm True q] .
    have "calm_net (N\<lparr>append_replies := append_replies N @ [(i, (t, args, saved, hb), \<lparr>aer_term = 0, success = False\<rparr>)]\<rparr>)"
      using calm a by (simp add: calm_net_def)
    then show ?thesis unfolding DeliverAppend net_step.simps if_P [OF True] q prod.case wire_lost
      by (intro calm_on_node [OF calm]) (use calm_append_entries [OF _ a, of _ dflt serc now] calm_put in \<open>fastforce simp: bind_outcome_def\<close>)
  qed (use DeliverAppend calm in simp)
next
  case (ReplyAppend k now)
  show ?thesis
  proof (cases "k < length (append_replies N)")
    case True
    obtain i t args saved hb r where q: "append_replies N ! k = (i, (t, args, saved, hb), r)" by (cases "append_replies N ! k") auto
    have a: "calm_append (t, args, saved, hb)" "r = \<lparr>aer_term = 0, success = False\<rparr>" using calm_netD(5) [OF calm True q] by auto
    show ?thesis unfolding ReplyAppend net_step.simps if_P [OF True] q prod.case a(2)
      by (intro calm_on_node [OF calm]) (simp add: calm_append_reply [OF _ a(1)] bind_outcome_def calm_put [OF calm])
  qed (use ReplyAppend calm in simp)
next
  case (RetryAppend k)
  show ?thesis
  proof (cases "k < length (append_reqs N)")
    case True
    obtain i t args saved hb where q: "append_reqs N ! k = (i, t, args, saved, hb)" by (cases "append_reqs N ! k") auto
    have "calm_append (t, args, saved, False)" using calm_netD(4) [OF calm True q] by (simp add: calm_append_def)
    with True q calm show ?thesis unfolding RetryAppend by (simp add: calm_net_def)
  qed (use RetryAppend calm in simp)
qed

section \<open>Runs\<close>

definition any_event :: "'c event \<Rightarrow> 'c Net \<Rightarrow> bool" where
  "any_event e N = True"

lemma calm_init: "fresh_cluster ns \<Longrightarrow> calm_net (Net_init ns)"
proof -
  assume fresh: "fresh_cluster ns"
  have "calm n" if n: "n \<in> set ns" for n
  proof -
    obtain i where i: "i < length ns" "ns ! i = n" using n by (metis in_set_conv_nth)
    have "\<exists>st w r now. n = Raft_init (int i) (length ns) st w r now"
      using fresh [unfolded fresh_cluster_def, THEN spec, THEN mp, OF i(1)] unfolding i(2) .
    then obtain st w r now where "n = Raft_init (int i) (length ns) st w r now" by (elim exE)
    then show ?thesis by (simp add: calm_def Raft_init_def)
  qed
  then show ?thesis by (simp add: calm_net_def Net_init_def)
qed

lemma calm_reachable: "reachable dflt serc allowed ns N \<Longrightarrow> fresh_cluster ns \<Longrightarrow> calm_net N"
proof (induction rule: reachable.induct)
  case reach_init
  then show ?case by (rule calm_init)
next
  case (reach_step N e N')
  then show ?case using calm_step [of N dflt serc e] by auto
qed

lemma ex_any_run:
  "\<exists>N. reachable ex_dflt serialize_arith any_event ex_cluster N \<and> (0, 1) \<in> set (elections N) \<and> length (append_replies N) = 1
     \<and> length (nodes N) = 3"
proof -
  let ?es = "ex_events @ [Client 0 7, CommitWork 0, DeliverAppend 0 1000, ReplyAppend 0 1000]"
  have "case net_run ex_dflt serialize_arith ?es (Net_init ex_cluster) of
      Return N \<Rightarrow> (0, 1) \<in> set (elections N) \<and> length (append_replies N) = 1 \<and> length (nodes N) = 3 | Fault _ \<Rightarrow> False"
    by code_simp
  then obtain N where N: "net_run ex_dflt serialize_arith ?es (Net_init ex_cluster) = Return N"
    "(0, 1) \<in> set (elections N) \<and> length (append_replies N) = 1 \<and> length (nodes N) = 3"
    by (auto split: outcome.splits)
  have "run_within any_event ex_dflt serialize_arith ?es (Net_init ex_cluster)" by code_simp
  from reachable_run [OF reach_init N(1) this] N(2) show ?thesis by blast
qed

text \<open>
  C10. No step of a cluster faults: whatever messages are delivered, late or again, every
  handler, every background round and every reply of a node that started with the cluster
  stays inside the arrays it reads and returns.
\<close>

theorem raft_never_faults:
  assumes "fresh_cluster ns" and "reachable dflt serc any_event ns N"
  shows "\<exists>N'. net_step dflt serc e N = Return N'"
  using calm_step [OF calm_reachable [OF assms(2,1)]] by blast

theorem raft_never_faults_witness:
  "fresh_cluster ex_cluster \<and> (\<exists>N. reachable ex_dflt serialize_arith any_event ex_cluster N \<and> length (append_replies N) = 1
     \<and> (\<exists>N'. net_step ex_dflt serialize_arith (CommitWork 0) N = Return N'))"
  using ex_cluster_fresh ex_any_run raft_never_faults [of ex_cluster ex_dflt serialize_arith] by blast

text \<open>
  C30. Nothing is committed: since the reply to \<open>AppendEntries\<close> arrives at the leader without its
  content, no node of a cluster ever advances its commit index, and no command that a client
  hands to a leader is ever applied to a state machine.
\<close>

theorem nothing_committed:
  assumes "fresh_cluster ns" and "reachable dflt serc any_event ns N" and "n \<in> set (nodes N)"
  shows "commit_index n = 0 \<and> last_applied n = 0 \<and> applied n = []"
  using calm_reachable [OF assms(2,1)] assms(3) by (simp add: calm_net_def calm_def)

theorem nothing_committed_witness:
  "fresh_cluster ex_cluster \<and> (\<exists>N. reachable ex_dflt serialize_arith any_event ex_cluster N \<and> length (append_replies N) = 1
     \<and> applied (nodes N ! 0) = [])"
proof -
  obtain N where N: "reachable ex_dflt serialize_arith any_event ex_cluster N" "length (append_replies N) = 1" "length (nodes N) = 3"
    using ex_any_run by blast
  then have "nodes N ! 0 \<in> set (nodes N)" by simp
  from nothing_committed [OF ex_cluster_fresh N(1) this] N ex_cluster_fresh show ?thesis by blast
qed

section \<open>Where entries are stored\<close>

lemma AddLogAt_past: "es \<noteq> [] \<Longrightarrow> AddLogAt dflt (Suc (length log)) es log = log @ dflt # es"
  by (rule nth_equalityI) (auto simp: AddLogAt_def nth_append Let_def)

text \<open>
  C31. A follower leaves a gap: when the leader sends the entries that follow the last entry of
  the follower, which is the request a leader makes in normal operation, the follower reports
  success and stores them one position too far, behind a default-constructed entry.
\<close>

theorem append_leaves_gap:
  assumes "\<not> stopped n" and "role n = follower" and "ae_term args = current_term n"
    and "prev_log_index args = GetLastLogIndex n" and "GetLogTerm (GetLastLogIndex n) n = Return (prev_log_term args)"
    and "entries args \<noteq> []"
  shows "\<exists>r n'. AppendEntries dflt serc now args n = Return (r, n') \<and> success r \<and> raft_log n' = raft_log n @ dflt # entries args"
proof -
  let ?n = "n\<lparr>last_received_rpc_time := now\<rparr>"
  have "skip_matching (raft_log ?n) (entries args) (prev_log_index args + 1) 0 = Return (int (length (raft_log n)) + 1, 0)"
    using assms(4) by (simp add: skip_matching.simps GetLastLogIndex_def)
  moreover have "nat (int (length (raft_log n)) + 1) = Suc (length (raft_log n))" by simp
  ultimately obtain n' where acc: "accept_entries dflt args ?n = Return n'" "raft_log n' = raft_log n @ dflt # entries args"
    using AddLogAt_past [OF assms(6), of dflt "raft_log n"] assms(6) by (simp add: accept_entries_def Let_def bind_outcome_def)
  have "GetLogTerm (GetLastLogIndex n) ?n = GetLogTerm (GetLastLogIndex n) n" "GetLastLogIndex ?n = GetLastLogIndex n"
    by (simp_all add: GetLogTerm_def GetLastLogIndex_def)
  then have "is_log_index_matched (prev_log_index args) (prev_log_term args) ?n = Return True"
    using assms(4,5) by (simp add: is_log_index_matched_def bind_outcome_def)
  with acc assms(1-3,6) show ?thesis by (simp add: AppendEntries_def Let_def bind_outcome_def)
qed

theorem append_leaves_gap_witness:
  "\<exists>r n'. AppendEntries ex_dflt serialize_arith 5 \<lparr>ae_term = 0, ae_leader_id = 1, prev_log_index = 0, prev_log_term = 0,
     entries = [\<lparr>le_cmd = 7, le_term = 0\<rparr>], leader_commit = 0\<rparr> (ex_cluster ! 0) = Return (r, n') \<and> success r
     \<and> raft_log n' = [ex_dflt, \<lparr>le_cmd = 7, le_term = 0\<rparr>]"
proof -
  let ?a = "\<lparr>ae_term = 0, ae_leader_id = 1, prev_log_index = 0, prev_log_term = 0,
     entries = [\<lparr>le_cmd = 7 :: u32, le_term = 0\<rparr>], leader_commit = 0\<rparr>"
  have "raft_log (ex_cluster ! 0) = []" by (simp add: ex_cluster_def Raft_init_def)
  moreover have "\<exists>r n'. AppendEntries ex_dflt serialize_arith 5 ?a (ex_cluster ! 0) = Return (r, n') \<and> success r
      \<and> raft_log n' = raft_log (ex_cluster ! 0) @ ex_dflt # entries ?a"
    by (rule append_leaves_gap) (simp_all add: ex_cluster_def Raft_init_def GetLastLogIndex_def GetLogTerm_def)
  ultimately show ?thesis by simp
qed

end
