(* ===== verification/Packets.thy ===== *)
theory Packets
  imports Serializer
begin

text \<open>
  \<^verbatim>\<open>net/io_awaiter.h\<close>, \<^verbatim>\<open>net/io_awaiter.cpp\<close> and the packet functions of the blocking client in
  \<^verbatim>\<open>net/rpc/rpc_client.h\<close>: messages framed by a four-byte length, over a non-blocking
  socket that takes and delivers bytes in pieces of any size.

  A connection carries the bytes that will arrive, the bytes that were sent, and, for each
  direction, what the coming system calls do: transfer at most so many bytes, fail with a
  code that asks for a retry (\<open>EINTR\<close>, \<open>EAGAIN\<close>, \<open>EWOULDBLOCK\<close>), report the end of the stream, or
  fail. When these lists are used up every call transfers what it can.
\<close>

section \<open>System calls\<close>

datatype io_event = Chunk nat | Again | Closed | Broken

datatype 'a io_result = Got 'a | Retry | Failed

record TcpConnection =
  is_closed :: bool
  conn_in :: bytes
  conn_out :: bytes
  rd_events :: "io_event list"
  wr_events :: "io_event list"

definition take_in :: "nat \<Rightarrow> TcpConnection \<Rightarrow> bytes io_result \<times> TcpConnection" where
  "take_in n c = (Got (take n (conn_in c)), c\<lparr>conn_in := drop n (conn_in c)\<rparr>)"

definition sys_read :: "nat \<Rightarrow> TcpConnection \<Rightarrow> bytes io_result \<times> TcpConnection" where
  "sys_read len c =
     (case rd_events c of [] \<Rightarrow> take_in len c
      | e # es \<Rightarrow> let c' = c\<lparr>rd_events := es\<rparr> in
         (case e of Chunk n \<Rightarrow> take_in (min len (Suc n)) c' | Again \<Rightarrow> (Retry, c') | Closed \<Rightarrow> (Got [], c') | Broken \<Rightarrow> (Failed, c')))"

definition put_out :: "bytes \<Rightarrow> TcpConnection \<Rightarrow> nat io_result \<times> TcpConnection" where
  "put_out bs c = (Got (length bs), c\<lparr>conn_out := conn_out c @ bs\<rparr>)"

definition sys_write :: "bytes \<Rightarrow> TcpConnection \<Rightarrow> nat io_result \<times> TcpConnection" where
  "sys_write bs c =
     (case wr_events c of [] \<Rightarrow> put_out bs c
      | e # es \<Rightarrow> let c' = c\<lparr>wr_events := es\<rparr> in
         (case e of Chunk n \<Rightarrow> put_out (take (Suc n) bs) c' | Again \<Rightarrow> (Retry, c') | Closed \<Rightarrow> (Got 0, c') | Broken \<Rightarrow> (Failed, c')))"

text \<open>An awaiter that cannot proceed is suspended until the socket is ready, and then tries once more.\<close>

definition ReadInnerAwaiter :: "nat \<Rightarrow> TcpConnection \<Rightarrow> bytes io_result \<times> TcpConnection" where
  "ReadInnerAwaiter len c =
     (if is_closed c then (Got [], c)
      else case sys_read len c of (Got bs, c') \<Rightarrow> (Got bs, c') | (_, c') \<Rightarrow> sys_read len c')"

definition WriteInnerAwaiter :: "bytes \<Rightarrow> TcpConnection \<Rightarrow> nat io_result \<times> TcpConnection" where
  "WriteInnerAwaiter bs c =
     (if is_closed c then (Got 0, c)
      else case sys_write bs c of (Got n, c') \<Rightarrow> (Got n, c') | (_, c') \<Rightarrow> sys_write bs c')"

lemma sys_read_events: "sys_read len c = (Retry, c') \<Longrightarrow> length (rd_events c') < length (rd_events c)"
  by (auto simp: sys_read_def take_in_def Let_def split: list.splits io_event.splits)

lemma sys_read_le: "sys_read len c = (r, c') \<Longrightarrow> length (rd_events c') \<le> length (rd_events c)"
  by (auto simp: sys_read_def take_in_def Let_def split: list.splits io_event.splits)

lemma sys_write_events: "sys_write bs c = (Retry, c') \<Longrightarrow> length (wr_events c') < length (wr_events c)"
  by (auto simp: sys_write_def put_out_def Let_def split: list.splits io_event.splits)

lemma sys_write_le: "sys_write bs c = (r, c') \<Longrightarrow> length (wr_events c') \<le> length (wr_events c)"
  by (auto simp: sys_write_def put_out_def Let_def split: list.splits io_event.splits)

lemma read_awaiter_events: "ReadInnerAwaiter len c = (Retry, c') \<Longrightarrow> length (rd_events c') < length (rd_events c)"
  using sys_read_le sys_read_events
  by (fastforce simp: ReadInnerAwaiter_def split: if_splits prod.splits io_result.splits)

lemma write_awaiter_events: "WriteInnerAwaiter bs c = (Retry, c') \<Longrightarrow> length (wr_events c') < length (wr_events c)"
  using sys_write_le sys_write_events
  by (fastforce simp: WriteInnerAwaiter_def split: if_splits prod.splits io_result.splits)

lemma sys_read_len: "sys_read len c = (Got bs, c') \<Longrightarrow> length bs \<le> len"
  by (auto simp: sys_read_def take_in_def Let_def split: list.splits io_event.splits)

lemma read_awaiter_len: "ReadInnerAwaiter len c = (Got bs, c') \<Longrightarrow> length bs \<le> len"
  using sys_read_len by (auto simp: ReadInnerAwaiter_def split: if_splits prod.splits io_result.splits)

section \<open>Packets on the event loop\<close>

text \<open>The two loops of \<open>AsyncReadPacket\<close>: \<open>rest\<close> bytes are still missing.\<close>

function read_exact :: "nat \<Rightarrow> bytes \<Rightarrow> TcpConnection \<Rightarrow> bytes option \<times> TcpConnection" where
  "read_exact rest acc c =
     (if rest = 0 then (Some acc, c)
      else case ReadInnerAwaiter rest c of
        (Got bs, c') \<Rightarrow> if bs = [] then (None, c') else read_exact (rest - length bs) (acc @ bs) c'
      | (Retry, c') \<Rightarrow> read_exact rest acc c'
      | (Failed, c') \<Rightarrow> (None, c'))"
  by pat_completeness auto
termination
  by (relation "measures [\<lambda>(rest, acc, c). rest, \<lambda>(rest, acc, c). length (rd_events c)]")
    (auto dest: read_awaiter_events [OF sym])

function write_exact :: "bytes \<Rightarrow> TcpConnection \<Rightarrow> bool \<times> TcpConnection" where
  "write_exact bs c =
     (if bs = [] then (True, c)
      else case WriteInnerAwaiter bs c of
        (Got n, c') \<Rightarrow> if n = 0 then (False, c') else write_exact (drop n bs) c'
      | (Retry, c') \<Rightarrow> write_exact bs c'
      | (Failed, c') \<Rightarrow> (False, c'))"
  by pat_completeness auto
termination
  by (relation "measures [\<lambda>(bs, c). length bs, \<lambda>(bs, c). length (wr_events c)]")
    (auto dest: write_awaiter_events [OF sym])

declare read_exact.simps [simp del] write_exact.simps [simp del]

definition HEADER_SIZE :: nat where
  "HEADER_SIZE = 4"

definition AsyncReadPacket :: "TcpConnection \<Rightarrow> bytes option \<times> TcpConnection" where
  "AsyncReadPacket c =
     (case read_exact HEADER_SIZE [] c of (None, c') \<Rightarrow> (None, c')
      | (Some head_buffer, c') \<Rightarrow> read_exact (unat (bytes_word head_buffer :: u32)) [] c')"

definition AsyncWritePacket :: "bytes \<Rightarrow> TcpConnection \<Rightarrow> bool \<times> TcpConnection" where
  "AsyncWritePacket buffer c =
     (let total_write_size = (of_nat (length buffer) :: u32)
      in case write_exact (word_bytes total_write_size) c of
           (True, c') \<Rightarrow> write_exact (take (unat total_write_size) buffer) c'
         | (False, c') \<Rightarrow> (False, c'))"

text \<open>\<open>AsyncRead\<close> returns after the first call that is not to be repeated.\<close>

function AsyncRead :: "nat \<Rightarrow> TcpConnection \<Rightarrow> bytes \<times> TcpConnection" where
  "AsyncRead len c =
     (case ReadInnerAwaiter len c of
        (Got bs, c') \<Rightarrow> (bs, c')
      | (Retry, c') \<Rightarrow> AsyncRead len c'
      | (Failed, c') \<Rightarrow> ([], c'))"
  by pat_completeness auto
termination
  by (relation "measure (\<lambda>(len, c). length (rd_events c))") (auto dest: read_awaiter_events [OF sym])

function AsyncWrite :: "bytes \<Rightarrow> TcpConnection \<Rightarrow> nat \<times> TcpConnection" where
  "AsyncWrite bs c =
     (if bs = [] then (0, c)
      else case WriteInnerAwaiter bs c of
        (Got n, c') \<Rightarrow> if n = 0 then (0, c') else (case AsyncWrite (drop n bs) c' of (m, c'') \<Rightarrow> (n + m, c''))
      | (Retry, c') \<Rightarrow> AsyncWrite bs c'
      | (Failed, c') \<Rightarrow> (0, c'))"
  by pat_completeness auto
termination
  by (relation "measures [\<lambda>(bs, c). length bs, \<lambda>(bs, c). length (wr_events c)]")
    (auto dest: write_awaiter_events [OF sym])

declare AsyncRead.simps [simp del] AsyncWrite.simps [simp del]

definition Conn_Close :: "TcpConnection \<Rightarrow> TcpConnection" where
  "Conn_Close c = c\<lparr>is_closed := True\<rparr>"

section \<open>The blocking client\<close>

text \<open>
  \<open>BlockingRpcClient::ReadPacket\<close>. The loop over the header reads each piece to the start of
  \<open>head_buffer\<close>, and goes on after the end of the stream; it need not end, so it takes fuel.
\<close>

fun read_head :: "nat \<Rightarrow> nat \<Rightarrow> bytes \<Rightarrow> TcpConnection \<Rightarrow> (bytes option \<times> TcpConnection) outcome" where
  "read_head 0 head_recv_size head_buffer c = Fault Stuck"
| "read_head (Suc fuel) head_recv_size head_buffer c =
     (if head_recv_size = HEADER_SIZE then Return (Some head_buffer, c)
      else case sys_read HEADER_SIZE c of
        (Got bs, c') \<Rightarrow> read_head fuel (head_recv_size + length bs) (bs @ drop (length bs) head_buffer) c'
      | (Retry, c') \<Rightarrow> read_head fuel head_recv_size head_buffer c'
      | (Failed, c') \<Rightarrow> Return (None, c'))"

text \<open>
  The number of bytes received is an \<open>int\<close>, which is negative from \<open>2 ^ 31\<close> on: a piece that arrives then is
  stored before the start of the buffer.
\<close>

definition already_read_size :: "bytes \<Rightarrow> int" where
  "already_read_size acc = as_int (length acc)"

function read_body :: "nat \<Rightarrow> bytes \<Rightarrow> TcpConnection \<Rightarrow> (bytes \<times> TcpConnection) outcome" where
  "read_body rest acc c =
     (if rest = 0 then Return (acc, c)
      else case sys_read rest c of
        (Got bs, c') \<Rightarrow> if bs = [] then Return (acc, c')
           else if already_read_size acc < 0 then Fault OutOfBounds
           else read_body (rest - length bs) (acc @ bs) c'
      | (Retry, c') \<Rightarrow> read_body rest acc c'
      | (Failed, c') \<Rightarrow> Return (acc, c'))"
  by pat_completeness auto
termination
  by (relation "measures [\<lambda>(rest, acc, c). rest, \<lambda>(rest, acc, c). length (rd_events c)]")
    (auto dest: sys_read_events [OF sym])

text \<open>\<open>None\<close> is the result \<open>-1\<close>; else the bytes received, whose number is returned. \<open>resize\<close> to a negative number throws.\<close>

definition Blocking_ReadPacket :: "nat \<Rightarrow> bytes \<Rightarrow> TcpConnection \<Rightarrow> (bytes option \<times> TcpConnection) outcome" where
  "Blocking_ReadPacket fuel head_buffer c =
     bind_outcome (read_head fuel 0 head_buffer c) (\<lambda>(h, c').
       case h of None \<Rightarrow> Return (None, c')
       | Some hb \<Rightarrow> bind_outcome (read_body (unat (bytes_word hb :: u32)) [] c') (\<lambda>(b, c'').
           if already_read_size b < 0 then Fault Uncaught else Return (Some b, c'')))"

function write_body :: "bytes \<Rightarrow> TcpConnection \<Rightarrow> nat \<times> TcpConnection" where
  "write_body bs c =
     (if bs = [] then (0, c)
      else case sys_write bs c of
        (Got n, c') \<Rightarrow> if n = 0 then (0, c') else (case write_body (drop n bs) c' of (m, c'') \<Rightarrow> (n + m, c''))
      | (Retry, c') \<Rightarrow> write_body bs c'
      | (Failed, c') \<Rightarrow> (0, c'))"
  by pat_completeness auto
termination
  by (relation "measures [\<lambda>(bs, c). length bs, \<lambda>(bs, c). length (wr_events c)]")
    (auto dest: sys_write_events [OF sym])

declare read_body.simps [simp del] write_body.simps [simp del]

text \<open>The header is written by one call, whose count is not compared with four.\<close>

definition Blocking_WritePacket :: "bytes \<Rightarrow> TcpConnection \<Rightarrow> nat option \<times> TcpConnection" where
  "Blocking_WritePacket buffer c =
     (case sys_write (word_bytes (of_nat (length buffer) :: u32)) c of
        (Got n, c') \<Rightarrow> if n = 0 then (None, c') else (case write_body buffer c' of (m, c'') \<Rightarrow> (Some m, c''))
      | (_, c') \<Rightarrow> (None, c'))"

section \<open>Transport in pieces\<close>

text \<open>A connection on which no call fails and the stream does not end.\<close>

fun benign :: "io_event \<Rightarrow> bool" where
  "benign (Chunk n) = True"
| "benign Again = True"
| "benign _ = False"

definition conn_up :: "TcpConnection \<Rightarrow> bool" where
  "conn_up c \<longleftrightarrow> \<not> is_closed c \<and> list_all benign (rd_events c) \<and> list_all benign (wr_events c)"

text \<open>A call on a connection that is up transfers a non-empty piece or asks for a retry.\<close>

lemma sys_read_live:
  assumes "conn_up c" and "0 < len" and "len \<le> length (conn_in c)" and "sys_read len c = (r, c')"
  shows "conn_up c' \<and> conn_out c' = conn_out c \<and> wr_events c' = wr_events c
    \<and> (r = Retry \<and> conn_in c' = conn_in c \<or> (\<exists>n. 0 < n \<and> n \<le> len \<and> r = Got (take n (conn_in c)) \<and> conn_in c' = drop n (conn_in c)))"
proof (cases "rd_events c")
  case Nil
  then show ?thesis using assms by (auto simp: sys_read_def take_in_def conn_up_def)
next
  case (Cons e es)
  then show ?thesis using assms by (cases e) (auto simp: sys_read_def take_in_def conn_up_def Let_def intro!: exI [of _ "min len (Suc _)"])
qed

lemma sys_write_live:
  assumes "conn_up c" and "bs \<noteq> []" and "sys_write bs c = (r, c')"
  shows "conn_up c' \<and> conn_in c' = conn_in c \<and> rd_events c' = rd_events c
    \<and> (r = Retry \<and> conn_out c' = conn_out c \<or> (\<exists>n. 0 < n \<and> n \<le> length bs \<and> r = Got n \<and> conn_out c' = conn_out c @ take n bs))"
proof (cases "wr_events c")
  case Nil
  then show ?thesis using assms by (auto simp: sys_write_def put_out_def conn_up_def)
next
  case (Cons e es)
  then show ?thesis using assms
    by (cases e) (auto simp: sys_write_def put_out_def conn_up_def Let_def min_def intro!: exI [of _ "min (length bs) (Suc _)"])
qed

lemma read_awaiter_live:
  assumes "conn_up c" and "0 < len" and "len \<le> length (conn_in c)" and "ReadInnerAwaiter len c = (r, c')"
  shows "conn_up c' \<and> conn_out c' = conn_out c \<and> wr_events c' = wr_events c
    \<and> (r = Retry \<and> conn_in c' = conn_in c \<or> (\<exists>n. 0 < n \<and> n \<le> len \<and> r = Got (take n (conn_in c)) \<and> conn_in c' = drop n (conn_in c)))"
proof -
  obtain r1 c1 where s: "sys_read len c = (r1, c1)" by fastforce
  note l1 = sys_read_live [OF assms(1-3) s]
  show ?thesis
  proof (cases "r1 = Retry")
    case True
    then have "sys_read len c1 = (r, c')" "conn_in c1 = conn_in c" "conn_up c1" "conn_out c1 = conn_out c" "wr_events c1 = wr_events c"
      using assms(1,4) s l1 by (auto simp: ReadInnerAwaiter_def conn_up_def)
    then show ?thesis using sys_read_live [of c1 len r c'] assms(2,3) by simp
  next
    case False
    then show ?thesis using assms(1,4) s l1 by (auto simp: ReadInnerAwaiter_def conn_up_def)
  qed
qed

lemma write_awaiter_live:
  assumes "conn_up c" and "bs \<noteq> []" and "WriteInnerAwaiter bs c = (r, c')"
  shows "conn_up c' \<and> conn_in c' = conn_in c \<and> rd_events c' = rd_events c
    \<and> (r = Retry \<and> conn_out c' = conn_out c \<or> (\<exists>n. 0 < n \<and> n \<le> length bs \<and> r = Got n \<and> conn_out c' = conn_out c @ take n bs))"
proof -
  obtain r1 c1 where s: "sys_write bs c = (r1, c1)" by fastforce
  note l1 = sys_write_live [OF assms(1,2) s]
  show ?thesis
  proof (cases "r1 = Retry")
    case True
    then have "sys_write bs c1 = (r, c')" "conn_out c1 = conn_out c" "conn_up c1" "conn_in c1 = conn_in c" "rd_events c1 = rd_events c"
      using assms(1,3) s l1 by (auto simp: WriteInnerAwaiter_def conn_up_def)
    then show ?thesis using sys_write_live [of c1 bs r c'] assms(2) by simp
  next
    case False
    then show ?thesis using assms(1,3) s l1 by (auto simp: WriteInnerAwaiter_def conn_up_def)
  qed
qed

lemma write_exact_live:
  "conn_up c \<Longrightarrow> \<exists>c'. write_exact bs c = (True, c') \<and> conn_up c' \<and> conn_out c' = conn_out c @ bs \<and> conn_in c' = conn_in c"
proof (induction bs c rule: write_exact.induct)
  case (1 bs c)
  show ?case
  proof (cases "bs = []")
    case True
    then show ?thesis using 1(3) by (simp add: write_exact.simps)
  next
    case False
    obtain r c1 where w: "WriteInnerAwaiter bs c = (r, c1)" by fastforce
    note l = write_awaiter_live [OF 1(3) False w]
    then consider "r = Retry" "conn_up c1" "conn_out c1 = conn_out c" "conn_in c1 = conn_in c"
      | n where "0 < n" "n \<le> length bs" "r = Got n" "conn_up c1" "conn_out c1 = conn_out c @ take n bs" "conn_in c1 = conn_in c" by auto
    then show ?thesis
    proof cases
      case a: 1
      from "1.IH"(2) [OF False w [symmetric] a(1) a(2)] show ?thesis
        using False w a by (simp add: write_exact.simps [of bs c])
    next
      case (2 n)
      then have "n \<noteq> 0" by simp
      from "1.IH"(1) [OF False w [symmetric] 2(3) this 2(4)] show ?thesis
        using False w 2 by (auto simp: write_exact.simps [of bs c])
    qed
  qed
qed

lemma read_exact_live:
  "conn_up c \<Longrightarrow> rest \<le> length (conn_in c) \<Longrightarrow>
   \<exists>c'. read_exact rest acc c = (Some (acc @ take rest (conn_in c)), c') \<and> conn_up c' \<and> conn_in c' = drop rest (conn_in c) \<and> conn_out c' = conn_out c"
proof (induction rest acc c rule: read_exact.induct)
  case (1 rest acc c)
  show ?case
  proof (cases "rest = 0")
    case True
    then show ?thesis using 1(3) by (simp add: read_exact.simps)
  next
    case False
    then have pos: "0 < rest" by simp
    obtain r c1 where w: "ReadInnerAwaiter rest c = (r, c1)" by fastforce
    note l = read_awaiter_live [OF 1(3) pos 1(4) w]
    then consider "r = Retry" "conn_up c1" "conn_out c1 = conn_out c" "conn_in c1 = conn_in c"
      | n where "0 < n" "n \<le> rest" "r = Got (take n (conn_in c))" "conn_up c1" "conn_in c1 = drop n (conn_in c)" "conn_out c1 = conn_out c" by auto
    then show ?thesis
    proof cases
      case a: 1
      from "1.IH"(2) [OF False w [symmetric] a(1) a(2)] show ?thesis
        using False w a 1(4) by (simp add: read_exact.simps [of rest acc c])
    next
      case (2 n)
      have len: "length (take n (conn_in c)) = n" "take n (conn_in c) \<noteq> []" using 2 1(4) by auto
      have "rest - n \<le> length (conn_in c1)" using 2(5) 1(4) by simp
      with "1.IH"(1) [OF False w [symmetric] 2(3) len(2) 2(4)] len(1) obtain c' where
        c': "read_exact (rest - n) (acc @ take n (conn_in c)) c1 = (Some ((acc @ take n (conn_in c)) @ take (rest - n) (conn_in c1)), c')"
          "conn_up c'" "conn_in c' = drop (rest - n) (conn_in c1)" "conn_out c' = conn_out c1" by auto
      have "take n (conn_in c) @ take (rest - n) (conn_in c1) = take rest (conn_in c)"
        using 2(2,5) take_add [of n "rest - n" "conn_in c"] by simp
      then show ?thesis using False w 2 len c' by (simp add: read_exact.simps [of rest acc c])
    qed
  qed
qed

section \<open>Framed transport\<close>

primrec send_all :: "(bytes \<Rightarrow> 'c \<Rightarrow> bool \<times> 'c) \<Rightarrow> bytes list \<Rightarrow> 'c \<Rightarrow> bool \<times> 'c" where
  "send_all send [] c = (True, c)"
| "send_all send (b # bs) c = (case send b c of (ok, c') \<Rightarrow> if ok then send_all send bs c' else (False, c'))"

primrec recv_all :: "('c \<Rightarrow> bytes option \<times> 'c) \<Rightarrow> nat \<Rightarrow> 'c \<Rightarrow> bytes list option \<times> 'c" where
  "recv_all recv 0 c = (Some [], c)"
| "recv_all recv (Suc n) c = (case recv c of (None, c') \<Rightarrow> (None, c')
     | (Some b, c') \<Rightarrow> (case recv_all recv n c' of (None, c'') \<Rightarrow> (None, c'') | (Some bs, c'') \<Rightarrow> (Some (b # bs), c'')))"

text \<open>What a sender and a receiver of packets promise, whatever the pieces in which the
  bytes travel.\<close>

locale transport =
  fixes send :: "bytes \<Rightarrow> 'c \<Rightarrow> bool \<times> 'c" and recv :: "'c \<Rightarrow> bytes option \<times> 'c"
    and up :: "'c \<Rightarrow> bool" and sent :: "'c \<Rightarrow> bytes" and coming :: "'c \<Rightarrow> bytes" and frame :: "bytes \<Rightarrow> bytes"
  assumes send_law: "up c \<Longrightarrow> length b < 2 ^ 32 \<Longrightarrow>
      \<exists>c'. send b c = (True, c') \<and> up c' \<and> sent c' = sent c @ frame b \<and> coming c' = coming c"
    and recv_law: "up c \<Longrightarrow> length b < 2 ^ 32 \<Longrightarrow> coming c = frame b @ rest \<Longrightarrow>
      \<exists>c'. recv c = (Some b, c') \<and> up c' \<and> coming c' = rest \<and> sent c' = sent c"
begin

lemma send_all_law:
  "up c \<Longrightarrow> \<forall>b \<in> set bs. length b < 2 ^ 32 \<Longrightarrow>
   \<exists>c'. send_all send bs c = (True, c') \<and> up c' \<and> sent c' = sent c @ concat (map frame bs)"
proof (induction bs arbitrary: c)
  case (Cons b bs)
  obtain c' where c': "send b c = (True, c')" "up c'" "sent c' = sent c @ frame b" using send_law [of c b] Cons.prems by auto
  then show ?case using Cons.IH [of c'] Cons.prems by auto
qed simp

lemma recv_all_law:
  "up c \<Longrightarrow> \<forall>b \<in> set bs. length b < 2 ^ 32 \<Longrightarrow> coming c = concat (map frame bs) @ rest \<Longrightarrow>
   \<exists>c'. recv_all recv (length bs) c = (Some bs, c') \<and> up c' \<and> coming c' = rest"
proof (induction bs arbitrary: c)
  case (Cons b bs)
  obtain c' where c': "recv c = (Some b, c')" "up c'" "coming c' = concat (map frame bs) @ rest"
    using recv_law [of c b "concat (map frame bs) @ rest"] Cons.prems by auto
  then show ?case using Cons.IH [of c'] Cons.prems by auto
qed simp

lemma packets_in_order:
  assumes "up a" and "up b" and "sent a = []" and "\<forall>p \<in> set ps. length p < 2 ^ 32" and "coming b = sent (snd (send_all send ps a))"
  shows "fst (send_all send ps a) \<and> fst (recv_all recv (length ps) b) = Some ps"
  using send_all_law [OF assms(1,4)] recv_all_law [OF assms(2,4), of "[]"] assms(3,5) by auto

end

definition frame :: "bytes \<Rightarrow> bytes" where
  "frame b = word_bytes (of_nat (length b) :: u32) @ b"

interpretation async: transport AsyncWritePacket AsyncReadPacket conn_up conn_out conn_in frame
proof
  fix c :: TcpConnection and b :: bytes
  assume conn_up: "conn_up c" and len: "length b < 2 ^ 32"
  obtain c1 where c1: "write_exact (word_bytes (of_nat (length b) :: u32)) c = (True, c1)" "conn_up c1"
    "conn_out c1 = conn_out c @ word_bytes (of_nat (length b) :: u32)" "conn_in c1 = conn_in c" using write_exact_live [OF conn_up] by blast
  have "take (unat (of_nat (length b) :: u32)) b = b" using len by (simp add: unat_of_nat)
  then show "\<exists>c'. AsyncWritePacket b c = (True, c') \<and> conn_up c' \<and> conn_out c' = conn_out c @ frame b \<and> conn_in c' = conn_in c"
    using c1 write_exact_live [OF c1(2), of b] by (auto simp: AsyncWritePacket_def Let_def frame_def)
next
  fix c :: TcpConnection and b rest :: bytes
  assume conn_up: "conn_up c" and len: "length b < 2 ^ 32" and c: "conn_in c = frame b @ rest"
  obtain c1 where c1: "read_exact 4 [] c = (Some (word_bytes (of_nat (length b) :: u32)), c1)" "conn_up c1"
    "conn_in c1 = b @ rest" "conn_out c1 = conn_out c" using read_exact_live [OF conn_up, of 4 "[]"] c by (auto simp: frame_def)
  have "unat (bytes_word (word_bytes (of_nat (length b) :: u32)) :: u32) = length b"
    using len by (simp add: bytes_word_bytes unat_of_nat)
  then show "\<exists>c'. AsyncReadPacket c = (Some b, c') \<and> conn_up c' \<and> conn_in c' = rest \<and> conn_out c' = conn_out c"
    using c1 read_exact_live [OF c1(2), of "length b" "[]"] by (auto simp: AsyncReadPacket_def HEADER_SIZE_def)
qed

text \<open>
  C15. Packets arrive whole and in order: whatever the pieces in which the socket takes and
  delivers the bytes, and however often a call has to be repeated, the packets one side
  writes are the packets the other side reads.
\<close>

theorem packets_arrive:
  assumes "conn_up a" and "conn_up b" and "conn_out a = []" and "\<forall>p \<in> set ps. length p < 2 ^ 32"
    and "conn_in b = conn_out (snd (send_all AsyncWritePacket ps a))"
  shows "fst (send_all AsyncWritePacket ps a) \<and> fst (recv_all AsyncReadPacket (length ps) b) = Some ps"
  using async.packets_in_order [OF assms] .

definition ex_sender :: TcpConnection where
  "ex_sender = \<lparr>is_closed = False, conn_in = [], conn_out = [], rd_events = [], wr_events = [Chunk 1, Again, Again, Chunk 0, Chunk 7]\<rparr>"

definition ex_receiver :: TcpConnection where
  "ex_receiver = \<lparr>is_closed = False, conn_in = [2, 0, 0, 0, 7, 8, 1, 0, 0, 0, 9], conn_out = [], rd_events = [Again, Chunk 2, Again, Chunk 0], wr_events = []\<rparr>"

theorem packets_arrive_witness:
  "fst (send_all AsyncWritePacket [[7, 8], [9]] ex_sender) \<and> fst (recv_all AsyncReadPacket 2 ex_receiver) = Some [[7, 8], [9]]"
proof -
  have "conn_in ex_receiver = conn_out (snd (send_all AsyncWritePacket [[7, 8], [9]] ex_sender))" by code_simp
  moreover have "conn_up ex_sender" "conn_up ex_receiver" "conn_out ex_sender = []" by (simp_all add: conn_up_def ex_sender_def ex_receiver_def)
  moreover have "\<forall>p \<in> set [[7, 8], [9 :: byte]]. length p < 2 ^ 32" "length [[7, 8], [9 :: byte]] = 2" by simp_all
  ultimately show ?thesis using packets_arrive [of ex_sender ex_receiver "[[7, 8], [9]]"] by metis
qed

lemma read_head_spins:
  "conn_in c = [] \<Longrightarrow> rd_events c = [] \<Longrightarrow> n \<noteq> HEADER_SIZE \<Longrightarrow> read_head fuel n h c = Fault Stuck"
  by (induction fuel arbitrary: c h) (simp_all add: sys_read_def take_in_def)

text \<open>
  The blocking client spins: once the server has closed the connection, the loop that reads
  the header of a reply never ends, however long it runs.
\<close>

theorem blocking_read_spins:
  assumes "conn_in c = []" and "rd_events c = []"
  shows "Blocking_ReadPacket fuel head_buffer c = Fault Stuck"
  using read_head_spins [OF assms, of 0 fuel head_buffer] by (simp add: Blocking_ReadPacket_def bind_outcome_def HEADER_SIZE_def)

theorem blocking_read_spins_witness:
  "Blocking_ReadPacket 1000 [0, 0, 0, 0] (ex_receiver\<lparr>conn_in := [], rd_events := []\<rparr>) = Fault Stuck"
  by (rule blocking_read_spins) simp_all

end
