(* ===== verification/Rpc.thy ===== *)
theory Rpc
  imports Packets "HOL-Library.AList"
begin

text \<open>
  \<^verbatim>\<open>net/rpc/\<close>: requests carry the name of a function and its arguments, replies carry an error
  code, a message and the result. The bound functions work on a state of the server; their
  argument and result types are known by their \<open>serialize\<close> and \<open>deserialize\<close> functions.
\<close>

section \<open>Responses\<close>

definition RPC_SUCCECC :: u16 where
  "RPC_SUCCECC = 0"

definition RPC_ERR_FUNCTION_NOT_FOUND :: u16 where
  "RPC_ERR_FUNCTION_NOT_FOUND = 1"

definition RPC_ERR_RECV_TIMEOUT :: u16 where
  "RPC_ERR_RECV_TIMEOUT = 2"

record 'r RpcResponse =
  err_code :: u16
  err_msg :: bytes
  detail_value :: 'r

definition RpcResponse_serialize :: "'r writer \<Rightarrow> 'r RpcResponse writer" where
  "RpcResponse_serialize serr v s =
     serr (detail_value v) (serialize_string (err_msg v) (serialize_arith (err_code v) s))"

definition RpcResponse_deserialize :: "'r reader \<Rightarrow> 'r RpcResponse reader" where
  "RpcResponse_deserialize desr s =
     bind_outcome (deserialize_arith s) (\<lambda>(c, s).
     bind_outcome (deserialize_string s) (\<lambda>(m, s).
     bind_outcome (desr s) (\<lambda>(v, s). Return (\<lparr>err_code = c, err_msg = m, detail_value = v\<rparr>, s))))"

section \<open>The server\<close>

type_synonym 's handler = "Serializer \<Rightarrow> 's \<Rightarrow> (Serializer \<times> 's) outcome"

record 's RpcServer =
  handlers :: "(bytes \<times> 's handler) list"
  server_reachable :: bool

definition RpcServer_init :: "'s RpcServer" where
  "RpcServer_init = \<lparr>handlers = [], server_reachable = True\<rparr>"

text \<open>\<open>CallProxy\<close>: decode the arguments, call the function, encode the response.\<close>

definition CallProxy :: "'a reader \<Rightarrow> 'r writer \<Rightarrow> ('a \<Rightarrow> 's \<Rightarrow> ('r \<times> 's) outcome) \<Rightarrow> 's handler" where
  "CallProxy desa serr func input_serializer st =
     bind_outcome (desa input_serializer) (\<lambda>(args, _).
     bind_outcome (func args st) (\<lambda>(res, st').
       Return (RpcResponse_serialize serr \<lparr>err_code = RPC_SUCCECC, err_msg = [], detail_value = res\<rparr> (Serializer_init []), st')))"

definition Bind :: "bytes \<Rightarrow> 's handler \<Rightarrow> 's RpcServer \<Rightarrow> 's RpcServer" where
  "Bind name f srv = srv\<lparr>handlers := AList.update (cstr name) f (handlers srv)\<rparr>"

definition CallImpl :: "'s RpcServer \<Rightarrow> bytes \<Rightarrow> 's handler" where
  "CallImpl srv name input_serializer st =
     (case map_of (handlers srv) name of
        None \<Rightarrow> Return (serialize_string (str ''function not bind: '' @ name)
                         (serialize_arith RPC_ERR_FUNCTION_NOT_FOUND (Serializer_init [])), st)
      | Some func \<Rightarrow> func input_serializer st)"

text \<open>One round of \<open>OnRequest\<close>; the result is whether the loop goes on. A failure to send the response is only logged.\<close>

definition OnRequest :: "'s RpcServer \<Rightarrow> TcpConnection \<Rightarrow> 's \<Rightarrow> (bool \<times> TcpConnection \<times> 's) outcome" where
  "OnRequest srv conn st =
     (case AsyncReadPacket conn of
        (None, conn') \<Rightarrow> Return (False, conn', st)
      | (Some buffer, conn') \<Rightarrow>
          bind_outcome (deserialize_string (Serializer_init buffer)) (\<lambda>(func_name, serializer).
          bind_outcome (CallImpl srv func_name serializer st) (\<lambda>(out, st').
            Return (True, snd (AsyncWritePacket (Serializer_str out) conn'), st'))))"

section \<open>The client\<close>

record RpcClient =
  client_err :: u16
  client_conn :: TcpConnection

definition request_bytes :: "bytes \<Rightarrow> 'a writer \<Rightarrow> 'a \<Rightarrow> bytes" where
  "request_bytes name sera args = Serializer_str (sera args (serialize_string name (Serializer_init [])))"

text \<open>
  \<open>NetCall\<close> before and after the awaited reply. After a call that got no reply the request is
  not sent; a failing write ends the process.
\<close>

definition NetCall_send :: "bytes \<Rightarrow> RpcClient \<Rightarrow> RpcClient outcome" where
  "NetCall_send request_buffer cl =
     (if client_err cl = RPC_ERR_RECV_TIMEOUT then Return cl
      else case AsyncWritePacket request_buffer (client_conn cl) of
        (True, c') \<Rightarrow> Return (cl\<lparr>client_conn := c'\<rparr>)
      | (False, c') \<Rightarrow> Fault ExitCall)"

definition NetCall_recv :: "'r reader \<Rightarrow> 'r \<Rightarrow> RpcClient \<Rightarrow> ('r RpcResponse \<times> RpcClient) outcome" where
  "NetCall_recv desr dflt cl =
     (case AsyncReadPacket (client_conn cl) of
        (None, c') \<Rightarrow> Return (\<lparr>err_code = RPC_ERR_RECV_TIMEOUT, err_msg = str ''recv timeout'', detail_value = dflt\<rparr>,
                               cl\<lparr>client_conn := c', client_err := RPC_ERR_RECV_TIMEOUT\<rparr>)
      | (Some reply_buffer, c') \<Rightarrow>
          bind_outcome (RpcResponse_deserialize desr (Serializer_init reply_buffer)) (\<lambda>(v, _).
            Return (v, cl\<lparr>client_conn := c', client_err := RPC_SUCCECC\<rparr>)))"

section \<open>Responses round-trip\<close>

interpretation u16c: codec "serialize_arith :: u16 writer" deserialize_arith word_bytes "\<lambda>_. True"
  by (rule arith_codec) simp

definition response_tuple :: "'r RpcResponse \<Rightarrow> u16 \<times> bytes \<times> 'r" where
  "response_tuple v = (err_code v, err_msg v, detail_value v)"

definition enc_response :: "('r \<Rightarrow> bytes) \<Rightarrow> 'r RpcResponse \<Rightarrow> bytes" where
  "enc_response encr v = (case response_tuple v of (c, m, r) \<Rightarrow>
     word_bytes c @ (word_bytes (word_of_nat (length m) :: u64) @ m) @ encr r)"

lemma response_codec:
  fixes serr :: "'r writer"
  assumes "codec serr desr encr validr"
  shows "codec (RpcResponse_serialize serr) (RpcResponse_deserialize desr) (enc_response encr)
    (\<lambda>v. case response_tuple v of (c, m, r) \<Rightarrow> True \<and> length m < 2 ^ 64 \<and> validr r)"
  unfolding split_def enc_response_def [abs_def]
  by (rule iso_codec [OF pair_codec [OF u16c.codec_axioms pair_codec [OF chars.codec_axioms assms]],
        where f = response_tuple and g = "\<lambda>(c, m, r). \<lparr>err_code = c, err_msg = m, detail_value = r\<rparr>"])
    (auto simp: RpcResponse_serialize_def RpcResponse_deserialize_def serialize_pair_def deserialize_pair_def
      bind_outcome_def response_tuple_def split: outcome.split)

section \<open>A call over the network\<close>

lemma request_law:
  fixes sera :: "'a writer"
  assumes "codec sera desa enca valida" and "valida args" and "length name < 2 ^ 64"
  shows "\<exists>s. deserialize_string (Serializer_init (request_bytes name sera args)) = Return (name, s)
    \<and> (\<exists>s'. desa s = Return (args, s'))"
proof -
  let ?n = "word_bytes (word_of_nat (length name) :: u64) @ name"
  let ?s = "Serializer_init (?n @ enca args)"
  have b: "request_bytes name sera args = ?n @ enca args"
    by (simp add: request_bytes_def chars.ser_law codec.ser_law [OF assms(1)] put_bytes_def Serializer_init_def Serializer_str_def)
  have 1: "deserialize_string ?s = Return (name, ?s\<lparr>ser_pos := length ([] :: bytes) + length ?n\<rparr>)"
    by (rule chars.des_law [where post = "enca args"]) (use assms(3) in \<open>simp_all add: Serializer_init_def\<close>)
  have "desa (?s\<lparr>ser_pos := length ([] :: bytes) + length ?n\<rparr>) = Return (args, ?s\<lparr>ser_pos := length ?n + length (enca args)\<rparr>)"
    using codec.des_law [OF assms(1,2), where s = "?s\<lparr>ser_pos := length ([] :: bytes) + length ?n\<rparr>" and pre = ?n and post = "[]"]
    by (simp add: Serializer_init_def)
  with 1 b show ?thesis by auto
qed

lemma server_round:
  fixes sera :: "'a writer" and serr :: "'r writer"
  assumes ca: "codec sera desa enca valida" and cr: "codec serr desr encr validr"
    and "valida args" and "length name < 2 ^ 64"
    and h: "map_of (handlers srv) name = Some (CallProxy desa serr func)" and f: "func args st = Return (res, st')"
    and conn_up: "conn_up conn" and inb: "conn_in conn = frame (request_bytes name sera args) @ rest"
    and len: "length (request_bytes name sera args) < 2 ^ 32"
    and rlen: "length (enc_response encr \<lparr>err_code = RPC_SUCCECC, err_msg = [], detail_value = res\<rparr>) < 2 ^ 32"
  shows "\<exists>conn'. OnRequest srv conn st = Return (True, conn', st') \<and> conn_up conn' \<and> conn_in conn' = rest
    \<and> conn_out conn' = conn_out conn @ frame (enc_response encr \<lparr>err_code = RPC_SUCCECC, err_msg = [], detail_value = res\<rparr>)"
proof -
  obtain c1 where c1: "AsyncReadPacket conn = (Some (request_bytes name sera args), c1)" "conn_up c1" "conn_in c1 = rest" "conn_out c1 = conn_out conn"
    using async.recv_law [OF conn_up len inb] by blast
  obtain s s' where s: "deserialize_string (Serializer_init (request_bytes name sera args)) = Return (name, s)" "desa s = Return (args, s')"
    using request_law [OF ca assms(3,4)] by blast
  let ?r = "\<lparr>err_code = RPC_SUCCECC, err_msg = [], detail_value = res\<rparr>"
  have out: "Serializer_str (RpcResponse_serialize serr ?r (Serializer_init [])) = enc_response encr ?r"
    by (simp add: codec.ser_law [OF response_codec [OF cr]] put_bytes_def Serializer_init_def Serializer_str_def)
  obtain c2 where "AsyncWritePacket (enc_response encr ?r) c1 = (True, c2)" "conn_up c2" "conn_out c2 = conn_out c1 @ frame (enc_response encr ?r)"
    "conn_in c2 = conn_in c1" using async.send_law [OF c1(2) rlen] by blast
  then show ?thesis using c1 s h f out
    by (auto simp: OnRequest_def CallImpl_def CallProxy_def bind_outcome_def)
qed

text \<open>
  C16. A remote call returns what the function returns: when the function is bound to the
  name on the server and its arguments and result can be encoded, the request of the client
  makes the server call it once, and the reply gives the client its result with error code 0.
\<close>

theorem rpc_call:
  fixes sera :: "'a writer" and serr :: "'r writer"
  assumes "codec sera desa enca valida" and "codec serr desr encr validr"
    and "valida args" and "length name < 2 ^ 64" and "cstr name = name"
    and "func args st = Return (res, st')" and "validr res"
    and "conn_up (client_conn cl)" and "client_err cl = 0" and "conn_out (client_conn cl) = []"
    and "conn_up conn" and "conn_out conn = []"
    and "length (request_bytes name sera args) < 2 ^ 32" and "length (enc_response encr \<lparr>err_code = 0, err_msg = [], detail_value = res\<rparr>) < 2 ^ 32"
  shows "\<exists>cl1 conn1 cl2. NetCall_send (request_bytes name sera args) cl = Return cl1
    \<and> OnRequest (Bind name (CallProxy desa serr func) srv) (conn\<lparr>conn_in := conn_out (client_conn cl1)\<rparr>) st = Return (True, conn1, st')
    \<and> NetCall_recv desr dflt (cl1\<lparr>client_conn := (client_conn cl1)\<lparr>conn_in := conn_out conn1\<rparr>\<rparr>)
        = Return (\<lparr>err_code = 0, err_msg = [], detail_value = res\<rparr>, cl2) \<and> client_err cl2 = 0"
proof -
  let ?q = "request_bytes name sera args" and ?r = "\<lparr>err_code = 0, err_msg = [], detail_value = res\<rparr>"
  obtain c1 where c1: "AsyncWritePacket ?q (client_conn cl) = (True, c1)" "conn_up c1" "conn_out c1 = frame ?q"
    using async.send_law [OF assms(8,13)] assms(10) by auto
  let ?cl1 = "cl\<lparr>client_conn := c1\<rparr>"
  have send: "NetCall_send ?q cl = Return ?cl1" using c1 assms(9) by (simp add: NetCall_send_def RPC_ERR_RECV_TIMEOUT_def)
  have b: "map_of (handlers (Bind name (CallProxy desa serr func) srv)) name = Some (CallProxy desa serr func)"
    by (simp add: Bind_def assms(5) update_conv)
  have "conn_up (conn\<lparr>conn_in := frame ?q\<rparr>)" using assms(11) by (simp add: conn_up_def)
  from server_round [OF assms(1-4) b assms(6) this, of "[]"] assms(12-14)
  obtain conn1 where s: "OnRequest (Bind name (CallProxy desa serr func) srv) (conn\<lparr>conn_in := frame ?q\<rparr>) st = Return (True, conn1, st')"
    "conn_out conn1 = frame (enc_response encr ?r)" by (auto simp: RPC_SUCCECC_def)
  have "conn_up (c1\<lparr>conn_in := frame (enc_response encr ?r)\<rparr>)" using c1(2) by (simp add: conn_up_def)
  from async.recv_law [OF this assms(14), of "[]"] obtain c2 where
    c2: "AsyncReadPacket (c1\<lparr>conn_in := frame (enc_response encr ?r)\<rparr>) = (Some (enc_response encr ?r), c2)" by auto
  have "Serializer_str (RpcResponse_serialize serr ?r (Serializer_init [])) = enc_response encr ?r"
    by (simp add: codec.ser_law [OF response_codec [OF assms(2)]] put_bytes_def Serializer_init_def Serializer_str_def)
  then have "\<exists>s. RpcResponse_deserialize desr (Serializer_init (enc_response encr ?r)) = Return (?r, s)"
    using codec.roundtrip [OF response_codec [OF assms(2)], of ?r "[]"] assms(7) by (auto simp: response_tuple_def)
  then have "\<exists>cl2. NetCall_recv desr dflt (?cl1\<lparr>client_conn := (client_conn ?cl1)\<lparr>conn_in := conn_out conn1\<rparr>\<rparr>) = Return (?r, cl2) \<and> client_err cl2 = 0"
    using c2 s(2) by (auto simp: NetCall_recv_def bind_outcome_def RPC_SUCCECC_def)
  then show ?thesis using send s(1) c1(3) by auto
qed

definition ex_client :: RpcClient where
  "ex_client = \<lparr>client_err = 0, client_conn = ex_sender\<rparr>"

definition ex_add :: "u32 \<times> u32 \<Rightarrow> nat \<Rightarrow> (u32 \<times> nat) outcome" where
  "ex_add = (\<lambda>(a, b) calls. Return (a + b, Suc calls))"

theorem rpc_call_witness:
  "\<exists>cl1 conn1 cl2. NetCall_send (request_bytes (str ''add'') (serialize_pair serialize_arith serialize_arith) (2 :: u32, 3 :: u32)) ex_client = Return cl1
    \<and> OnRequest (Bind (str ''add'') (CallProxy (deserialize_pair deserialize_arith deserialize_arith) serialize_arith ex_add) RpcServer_init)
        (ex_receiver\<lparr>conn_in := conn_out (client_conn cl1)\<rparr>) 0 = Return (True, conn1, 1)
    \<and> NetCall_recv deserialize_arith 0 (cl1\<lparr>client_conn := (client_conn cl1)\<lparr>conn_in := conn_out conn1\<rparr>\<rparr>)
        = Return (\<lparr>err_code = 0, err_msg = [], detail_value = 5 :: u32\<rparr>, cl2) \<and> client_err cl2 = 0"
proof -
  have n: "cstr (str ''add'') = str ''add''" by (simp add: str_def cstr_def)
  have q: "length (request_bytes (str ''add'') (serialize_pair serialize_arith serialize_arith) (2 :: u32, 3 :: u32)) < 2 ^ 32"
    by (simp add: request_bytes_def chars.ser_law serialize_pair_def i32.ser_law put_bytes_def Serializer_init_def Serializer_str_def str_def)
  have r: "length (enc_response word_bytes \<lparr>err_code = 0, err_msg = [], detail_value = 5 :: u32\<rparr>) < 2 ^ 32"
    by (simp add: enc_response_def response_tuple_def)
  have l: "conn_up (client_conn ex_client)" "conn_up ex_receiver" "conn_out (client_conn ex_client) = []" "conn_out ex_receiver = []" "client_err ex_client = 0"
    by (simp_all add: ex_client_def ex_sender_def ex_receiver_def conn_up_def)
  have f: "ex_add (2, 3) 0 = Return (5, 1)" "length (str ''add'') < 2 ^ 64" by (simp_all add: ex_add_def str_def)
  show ?thesis
    by (rule rpc_call [OF pair_codec [OF i32.codec_axioms i32.codec_axioms] i32.codec_axioms _ f(2) n, where func = ex_add and args = "(2, 3)" and st = 0 and st' = 1 and res = 5
          and cl = ex_client and conn = ex_receiver and srv = RpcServer_init and dflt = 0]) (use f(1) l q r in simp_all)
qed

text \<open>
  A call of a function that is not bound faults in the client: the reply carries the error
  code and the message but no result, and decoding it reads past the end of the reply before
  the error code can be looked at.
\<close>

theorem unbound_call_faults:
  assumes "map_of (handlers srv) name = None" and "length name < 2 ^ 63"
  shows "\<exists>out. CallImpl srv name input st = Return (out, st)
    \<and> RpcResponse_deserialize (deserialize_arith :: u32 reader) (Serializer_init (Serializer_str out)) = Fault OutOfBounds"
proof -
  let ?m = "str ''function not bind: '' @ name"
  let ?w = "word_bytes RPC_ERR_FUNCTION_NOT_FOUND" and ?n = "word_bytes (word_of_nat (length ?m) :: u64) @ ?m"
  let ?s = "Serializer_init (?w @ ?n)"
  have len: "length ?m < 2 ^ 64" using assms(2) by (simp add: str_def)
  have out: "Serializer_str (serialize_string ?m (serialize_arith RPC_ERR_FUNCTION_NOT_FOUND (Serializer_init []))) = ?w @ ?n"
    by (simp add: chars.ser_law u16c.ser_law put_bytes_def Serializer_init_def Serializer_str_def)
  have 1: "deserialize_arith ?s = Return (RPC_ERR_FUNCTION_NOT_FOUND, ?s\<lparr>ser_pos := length ?w\<rparr>)"
    using u16c.des_law [where x = RPC_ERR_FUNCTION_NOT_FOUND and s = ?s and pre = "[]" and post = ?n] by (simp add: Serializer_init_def)
  have 2: "deserialize_string (?s\<lparr>ser_pos := length ?w\<rparr>) = Return (?m, ?s\<lparr>ser_pos := length ?w + length ?n\<rparr>)"
    using chars.des_law [where x = ?m and s = "?s\<lparr>ser_pos := length ?w\<rparr>" and pre = ?w and post = "[]"] len by (simp add: Serializer_init_def)
  have 3: "(deserialize_arith :: u32 reader) (?s\<lparr>ser_pos := length ?w + length ?n\<rparr>) = Fault OutOfBounds"
    by (simp add: deserialize_arith_def get_bytes_def Serializer_init_def bind_outcome_def)
  show ?thesis using assms(1) 1 2 3 out by (simp add: CallImpl_def RpcResponse_deserialize_def bind_outcome_def)
qed

theorem unbound_call_faults_witness:
  "\<exists>out. CallImpl (RpcServer_init :: nat RpcServer) (str ''add'') (Serializer_init []) 0 = Return (out, 0)
    \<and> RpcResponse_deserialize (deserialize_arith :: u32 reader) (Serializer_init (Serializer_str out)) = Fault OutOfBounds"
  by (rule unbound_call_faults) (simp_all add: RpcServer_init_def str_def)

end
