(* ===== verification/Events.thy ===== *)
theory Events
  imports Prelude
begin

unbundle bit_operations_syntax

text \<open>
  \<^verbatim>\<open>net/socket.h\<close>, \<^verbatim>\<open>net/event_manager.cpp\<close>, the awaiter of \<^verbatim>\<open>net/io_awaiter.h\<close> for connections and what \<^verbatim>\<open>net/tcp/\<close> computes. The kernel's
  set of watched descriptors is a map from descriptors to event masks: adding one twice and changing or removing one
  that is not there fails, as documented for \<open>epoll_ctl\<close>, and a descriptor that is closed is dropped from it. \<open>LOG_FATAL\<close> ends
  the process. Coroutines are known by their handles.
\<close>

section \<open>Sockets\<close>

definition EPOLLIN :: u32 where
  "EPOLLIN = 1"

definition EPOLLOUT :: u32 where
  "EPOLLOUT = 4"

definition EPOLLET :: u32 where
  "EPOLLET = 0x80000000"

record 'h Socket =
  so_fd :: int
  io_state :: u32
  detached :: bool
  so_closed :: bool
  recv_coro :: "'h option"
  send_coro :: "'h option"

definition Socket_init :: "int \<Rightarrow> 'h Socket" where
  "Socket_init sock_fd = \<lparr>so_fd = sock_fd, io_state = 0, detached = True, so_closed = False, recv_coro = None, send_coro = None\<rparr>"

definition Attached :: "'h Socket \<Rightarrow> bool" where
  "Attached s \<longleftrightarrow> \<not> detached s"

section \<open>The event manager\<close>

record EventManager =
  em_watched :: "int \<rightharpoonup> u32"
  em_shutdown :: bool
  em_events :: nat

definition EventManager_init :: "nat \<Rightarrow> EventManager" where
  "EventManager_init init_size = \<lparr>em_watched = Map.empty, em_shutdown = False, em_events = init_size\<rparr>"

definition Socket_Close :: "EventManager \<times> 'h Socket \<Rightarrow> EventManager \<times> 'h Socket" where
  "Socket_Close = (\<lambda>(em, s). (em\<lparr>em_watched := (em_watched em)(so_fd s := None)\<rparr>, s\<lparr>so_closed := True\<rparr>))"

definition UpdateEvent :: "u32 \<Rightarrow> EventManager \<times> 'h Socket \<Rightarrow> (EventManager \<times> 'h Socket) outcome" where
  "UpdateEvent new_state = (\<lambda>(em, s).
     if so_closed s \<or> em_watched em (so_fd s) = None then Fault ExitCall
     else Return (em\<lparr>em_watched := (em_watched em)(so_fd s \<mapsto> new_state)\<rparr>, s))"

definition Attach :: "u32 \<Rightarrow> EventManager \<times> 'h Socket \<Rightarrow> (EventManager \<times> 'h Socket) outcome" where
  "Attach events = (\<lambda>(em, s).
     let s = s\<lparr>io_state := events, detached := False\<rparr>
     in if so_closed s \<or> em_watched em (so_fd s) \<noteq> None then Fault ExitCall
        else Return (em\<lparr>em_watched := (em_watched em)(so_fd s \<mapsto> events)\<rparr>, s))"

definition Detach :: "EventManager \<times> 'h Socket \<Rightarrow> (EventManager \<times> 'h Socket) outcome" where
  "Detach = (\<lambda>(em, s).
     let s = s\<lparr>detached := True\<rparr>
     in if so_closed s \<or> em_watched em (so_fd s) = None then Fault ExitCall
        else Return (em\<lparr>em_watched := (em_watched em)(so_fd s := None)\<rparr>, s))"

definition set_state :: "u32 \<Rightarrow> EventManager \<times> 'h Socket \<Rightarrow> (EventManager \<times> 'h Socket) outcome" where
  "set_state new_state = (\<lambda>(em, s). UpdateEvent new_state (em, s\<lparr>io_state := new_state\<rparr>))"

definition AddRecv :: "'h \<Rightarrow> EventManager \<times> 'h Socket \<Rightarrow> (EventManager \<times> 'h Socket) outcome" where
  "AddRecv coro = (\<lambda>(em, s).
     if em_shutdown em then Return (em, s)
     else bind_outcome (if \<not> Attached s then Attach (EPOLLIN OR EPOLLET) (em, s) else Return (em, s)) (\<lambda>(em, s).
       let s = s\<lparr>recv_coro := Some coro\<rparr> in set_state (io_state s OR EPOLLIN) (em, s)))"

definition DelRecv :: "EventManager \<times> 'h Socket \<Rightarrow> (EventManager \<times> 'h Socket) outcome" where
  "DelRecv = (\<lambda>(em, s).
     if em_shutdown em then Return (em, s)
     else let s = s\<lparr>recv_coro := None\<rparr> in set_state (io_state s AND NOT EPOLLIN) (em, s))"

definition AddSend :: "'h \<Rightarrow> EventManager \<times> 'h Socket \<Rightarrow> (EventManager \<times> 'h Socket) outcome" where
  "AddSend coro = (\<lambda>(em, s).
     if em_shutdown em then Return (em, s)
     else bind_outcome (if \<not> Attached s then Attach (EPOLLOUT OR EPOLLET) (em, s) else Return (em, s)) (\<lambda>(em, s).
       let s = s\<lparr>send_coro := Some coro\<rparr> in set_state (io_state s OR EPOLLOUT) (em, s)))"

definition DelSend :: "EventManager \<times> 'h Socket \<Rightarrow> (EventManager \<times> 'h Socket) outcome" where
  "DelSend = (\<lambda>(em, s).
     if em_shutdown em then Return (em, s)
     else let s = s\<lparr>send_coro := None\<rparr> in set_state (io_state s AND NOT EPOLLOUT) (em, s))"

text \<open>What \<open>Start\<close> does with one event: the coroutine that it has resumed. Resuming an empty handle is a fault.\<close>

definition dispatch :: "u32 \<Rightarrow> 'h Socket \<Rightarrow> 'h option outcome" where
  "dispatch events s =
     (if events AND EPOLLIN \<noteq> 0 then bind_outcome (deref (recv_coro s)) (\<lambda>h. Return (Some h))
      else if events AND EPOLLOUT \<noteq> 0 then bind_outcome (deref (send_coro s)) (\<lambda>h. Return (Some h))
      else Return None)"

fun dispatch_all :: "(u32 \<times> 'h Socket) list \<Rightarrow> 'h list outcome" where
  "dispatch_all [] = Return []"
| "dispatch_all ((events, s) # es) =
     bind_outcome (dispatch events s) (\<lambda>h. bind_outcome (dispatch_all es) (\<lambda>hs.
       Return (case h of None \<Rightarrow> hs | Some x \<Rightarrow> x # hs)))"

datatype 'h epoll_result = Interrupted | EpollError | Ready "(u32 \<times> 'h Socket) list"

text \<open>One round of \<open>Start\<close>: whether it goes on, and the coroutines resumed.\<close>

definition Start_round :: "'h epoll_result \<Rightarrow> EventManager \<Rightarrow> (bool \<times> 'h list \<times> EventManager) outcome" where
  "Start_round r em =
     (if em_shutdown em then Return (False, [], em)
      else case r of
          Interrupted \<Rightarrow> Return (True, [], em)
        | EpollError \<Rightarrow> Fault ExitCall
        | Ready evs \<Rightarrow>
            let em = (if length evs = em_events em then em\<lparr>em_events := em_events em * 2\<rparr> else em)
            in bind_outcome (dispatch_all evs) (\<lambda>hs. Return (True, hs, em)))"

definition EventManager_Shutdown :: "EventManager \<Rightarrow> EventManager" where
  "EventManager_Shutdown em = em\<lparr>em_shutdown := True\<rparr>"

section \<open>Connections\<close>

text \<open>The destructor of a connection, when its socket was not closed by \<open>Close\<close>.\<close>

definition TcpConnection_destroy :: "EventManager \<times> 'h Socket \<Rightarrow> (EventManager \<times> 'h Socket) outcome" where
  "TcpConnection_destroy = (\<lambda>(em, s). if so_fd s \<noteq> - 1 \<and> Attached s then Detach (em, s) else Return (em, s))"

text \<open>\<open>accept4\<close> is called once, and again when the listening socket has become readable; \<open>first\<close> and \<open>second\<close> are its results.\<close>

definition accept_conn :: "int \<Rightarrow> int \<Rightarrow> 'h \<Rightarrow> EventManager \<times> 'h Socket \<Rightarrow> ('h Socket option \<times> EventManager \<times> 'h Socket) outcome" where
  "accept_conn first second coro st =
     bind_outcome (if first \<ge> 0 then Return (first, st)
       else bind_outcome (AddRecv coro st) (\<lambda>st. bind_outcome (DelRecv st) (\<lambda>st. Return (second, st)))) (\<lambda>(peer_fd, st).
       Return (if peer_fd = - 1 then None else Some (Socket_init peer_fd), st))"

text \<open>The loop of \<open>connect\<close> over a non-blocking socket; \<open>results\<close> are those of the calls of \<open>connect\<close>. The number of attempts is not negative.\<close>

datatype connect_result = Connected | InProgress | ConnectError

fun connect_loop :: "nat \<Rightarrow> (nat \<Rightarrow> connect_result) \<Rightarrow> nat \<Rightarrow> unit outcome" where
  "connect_loop 0 results i = Return ()"
| "connect_loop (Suc retry_times) results i =
     (case results i of Connected \<Rightarrow> Return () | InProgress \<Rightarrow> connect_loop retry_times results (Suc i) | ConnectError \<Rightarrow> Fault ExitCall)"

definition TcpClient_connect :: "nat \<Rightarrow> int \<Rightarrow> (nat \<Rightarrow> connect_result) \<Rightarrow> 'h Socket option outcome" where
  "TcpClient_connect retry_times sock_fd results =
     (if sock_fd = - 1 then Return None
      else bind_outcome (connect_loop retry_times results 0) (\<lambda>_. Return (Some (Socket_init sock_fd))))"

section \<open>The server\<close>

record TcpServer =
  sub_reactors :: "EventManager list"
  main_reactor :: EventManager
  reactor_cnt :: u64
  server_shutdown :: bool

text \<open>The number of rounds of the loop that makes the sub-reactors, in unsigned arithmetic.\<close>

definition sub_reactor_num :: "u64 \<Rightarrow> nat" where
  "sub_reactor_num thread_num = unat (thread_num div 2 - 1)"

definition TcpServer_init :: "u64 \<Rightarrow> TcpServer" where
  "TcpServer_init thread_num = \<lparr>sub_reactors = replicate (sub_reactor_num thread_num) (EventManager_init 16),
     main_reactor = EventManager_init 2048, reactor_cnt = 0, server_shutdown = False\<rparr>"

definition GetSubReactor :: "TcpServer \<Rightarrow> (EventManager \<times> TcpServer) outcome" where
  "GetSubReactor srv =
     (if sub_reactors srv = [] then Fault Uncaught
      else Return (sub_reactors srv ! (unat (reactor_cnt srv) mod length (sub_reactors srv)), srv\<lparr>reactor_cnt := reactor_cnt srv + 1\<rparr>))"

definition TcpServer_Shutdown :: "TcpServer \<Rightarrow> TcpServer" where
  "TcpServer_Shutdown srv = srv\<lparr>server_shutdown := True, main_reactor := EventManager_Shutdown (main_reactor srv),
     sub_reactors := map EventManager_Shutdown (sub_reactors srv)\<rparr>"

section \<open>The watched set mirrors the sockets\<close>

text \<open>A socket is watched with its state, and its state asks for an event exactly when a coroutine waits for it.\<close>

definition mirrors :: "EventManager \<times> 'h Socket \<Rightarrow> bool" where
  "mirrors = (\<lambda>(em, s). \<not> so_closed s \<and> em_watched em (so_fd s) = (if detached s then None else Some (io_state s))
     \<and> (detached s \<longrightarrow> io_state s = 0) \<and> (bit (io_state s) 0 \<longleftrightarrow> recv_coro s \<noteq> None) \<and> (bit (io_state s) 2 \<longleftrightarrow> send_coro s \<noteq> None))"

lemma bit_exp_u32: "m < 32 \<Longrightarrow> bit ((2 :: u32) ^ m) n \<longleftrightarrow> n = m"
  by (auto simp: bit_exp_iff)

lemma epoll_bits:
  "bit EPOLLIN n \<longleftrightarrow> n = 0" "bit EPOLLOUT n \<longleftrightarrow> n = 2" "bit EPOLLET n \<longleftrightarrow> n = 31"
  using bit_exp_u32 [of 0 n] bit_exp_u32 [of 2 n] bit_exp_u32 [of 31 n] by (simp_all add: EPOLLIN_def EPOLLOUT_def EPOLLET_def)

datatype 'h sock_op = OpAddRecv 'h | OpDelRecv | OpAddSend 'h | OpDelSend

fun run_sock_op :: "'h sock_op \<Rightarrow> EventManager \<times> 'h Socket \<Rightarrow> (EventManager \<times> 'h Socket) outcome" where
  "run_sock_op (OpAddRecv h) = AddRecv h"
| "run_sock_op OpDelRecv = DelRecv"
| "run_sock_op (OpAddSend h) = AddSend h"
| "run_sock_op OpDelSend = DelSend"

definition adds :: "'h sock_op \<Rightarrow> bool" where
  "adds op \<longleftrightarrow> (\<exists>h. op = OpAddRecv h \<or> op = OpAddSend h)"

lemma sock_op_mirrors:
  assumes "mirrors (em, s)" and "\<not> em_shutdown em" and "adds op \<or> \<not> detached s"
  shows "\<exists>em' s'. run_sock_op op (em, s) = Return (em', s') \<and> mirrors (em', s') \<and> \<not> em_shutdown em' \<and> \<not> detached s' \<and> so_fd s' = so_fd s
    \<and> (\<forall>fd. fd \<noteq> so_fd s \<longrightarrow> em_watched em' fd = em_watched em fd)"
  using assms
  by (cases op) (auto simp: adds_def mirrors_def AddRecv_def DelRecv_def AddSend_def DelSend_def Attached_def Attach_def set_state_def
      UpdateEvent_def Let_def bit_or_iff bit_and_iff bit_not_iff epoll_bits)

fun run_sock_ops :: "'h sock_op list \<Rightarrow> EventManager \<times> 'h Socket \<Rightarrow> (EventManager \<times> 'h Socket) outcome" where
  "run_sock_ops [] st = Return st"
| "run_sock_ops (op # ops) st = bind_outcome (run_sock_op op st) (run_sock_ops ops)"

lemma sock_ops_mirror:
  assumes "mirrors (em, s)" and "\<not> em_shutdown em" and "\<not> detached s"
  shows "\<exists>em' s'. run_sock_ops ops (em, s) = Return (em', s') \<and> mirrors (em', s') \<and> \<not> detached s' \<and> so_fd s' = so_fd s
    \<and> (\<forall>fd. fd \<noteq> so_fd s \<longrightarrow> em_watched em' fd = em_watched em fd)"
  using assms
proof (induction ops arbitrary: em s)
  case (Cons op ops)
  from sock_op_mirrors [of em s op] Cons.prems obtain em1 s1 where 1: "run_sock_op op (em, s) = Return (em1, s1)" "mirrors (em1, s1)"
    "\<not> em_shutdown em1" "\<not> detached s1" "so_fd s1 = so_fd s" "\<forall>fd. fd \<noteq> so_fd s \<longrightarrow> em_watched em1 fd = em_watched em fd" by auto
  from Cons.IH [OF 1(2-4)] 1 show ?case by auto
qed simp

text \<open>
  C20. After a first wait, any sequence of waits and ends of waits on a socket that is not closed runs without a failing
  call of \<open>epoll_ctl\<close>, and leaves the kernel watching the socket for reading exactly when a coroutine waits to read, and for
  writing exactly when one waits to write; other descriptors are watched as before.
\<close>

theorem watched_as_waited:
  assumes "\<not> em_shutdown em" and "em_watched em fd = None" and "adds op"
  shows "\<exists>em' s m. run_sock_ops (op # ops) (em, Socket_init fd) = Return (em', s) \<and> em_watched em' fd = Some m
    \<and> (bit m 0 \<longleftrightarrow> recv_coro s \<noteq> None) \<and> (bit m 2 \<longleftrightarrow> send_coro s \<noteq> None) \<and> (\<forall>fd'. fd' \<noteq> fd \<longrightarrow> em_watched em' fd' = em_watched em fd')"
proof -
  have "mirrors (em, Socket_init fd :: 'a Socket)" using assms(2) by (simp add: mirrors_def Socket_init_def)
  from sock_op_mirrors [OF this assms(1), of op] assms(3) obtain em1 s1 where 1: "run_sock_op op (em, Socket_init fd) = Return (em1, s1)" "mirrors (em1, s1)"
    "\<not> em_shutdown em1" "\<not> detached s1" "so_fd s1 = fd" "\<forall>fd'. fd' \<noteq> fd \<longrightarrow> em_watched em1 fd' = em_watched em fd'"
    by (auto simp: Socket_init_def)
  from sock_ops_mirror [OF 1(2-4), of ops] obtain em2 s2 where 2: "run_sock_ops ops (em1, s1) = Return (em2, s2)" "mirrors (em2, s2)"
    "\<not> detached s2" "so_fd s2 = fd" "\<forall>fd'. fd' \<noteq> fd \<longrightarrow> em_watched em2 fd' = em_watched em1 fd'" using 1(5) by auto
  with 1 show ?thesis by (simp add: mirrors_def)
qed

theorem watched_as_waited_witness:
  "\<exists>em' s m. run_sock_ops [OpAddRecv (1 :: nat), OpAddSend 2, OpDelRecv] (EventManager_init 16, Socket_init 5) = Return (em', s)
     \<and> em_watched em' 5 = Some m \<and> (bit m 0 \<longleftrightarrow> recv_coro s \<noteq> None) \<and> (bit m 2 \<longleftrightarrow> send_coro s \<noteq> None)"
  using watched_as_waited [of "EventManager_init 16" 5 "OpAddRecv (1 :: nat)" "[OpAddSend 2, OpDelRecv]"]
  by (simp add: EventManager_init_def adds_def del: run_sock_ops.simps) blast

text \<open>A second attempt to connect that is told that the first is still in progress ends the process; without a
  successful attempt a connection is returned all the same.\<close>

lemma connect_exits: "results 0 = InProgress \<Longrightarrow> results 1 = ConnectError \<Longrightarrow> 2 \<le> n \<Longrightarrow> connect_loop n results 0 = Fault ExitCall"
  by (cases n; cases "n - 1") auto

lemma connect_unconnected: "\<forall>i. results i = InProgress \<Longrightarrow> connect_loop n results i = Return ()"
  by (induction n arbitrary: i) simp_all

text \<open>A server with one thread makes \<open>2 ^ 64 - 1\<close> sub-reactors, and one with two or three makes none, so that there is none to choose.\<close>

lemma sub_reactor_nums:
  "sub_reactor_num 1 = 2 ^ 64 - 1" "sub_reactor_num 3 = 0" "GetSubReactor (TcpServer_init 3) = Fault Uncaught"
  by (simp_all add: sub_reactor_num_def GetSubReactor_def TcpServer_init_def unsigned_minus_1_eq_mask mask_eq_exp_minus_1)

end
