(* ===== verification/Blocking_Client.thy ===== *)
theory Blocking_Client
  imports Rpc Events
begin

text \<open>
  \<open>BlockingRpcClient\<close> of \<^verbatim>\<open>net/rpc/rpc_client.h\<close> and the blocking way to connect of
  \<^verbatim>\<open>net/tcp/tcp_client.cpp\<close>. A call writes its request and waits for a packet, which it takes as
  the reply.
\<close>

section \<open>Connecting and calling\<close>

record BlockingRpcClient =
  blk_err :: u16
  blk_conn :: TcpConnection

text \<open>The constructor; that the socket could be created is not checked, \<open>connect\<close> fails then.\<close>

definition BlockingRpcClient_init :: "TcpConnection \<Rightarrow> (nat \<Rightarrow> connect_result) \<Rightarrow> BlockingRpcClient outcome" where
  "BlockingRpcClient_init client_fd results =
     bind_outcome (connect_loop 50 results 0) (\<lambda>_. Return \<lparr>blk_err = 0, blk_conn = client_fd\<rparr>)"

definition TcpClient_block_connect :: "nat \<Rightarrow> int \<Rightarrow> (nat \<Rightarrow> connect_result) \<Rightarrow> 'h Socket option outcome" where
  "TcpClient_block_connect retry_times sock_fd results =
     (if sock_fd = - 1 then Return None
      else bind_outcome (connect_loop retry_times results 0) (\<lambda>_. Return (Some (Socket_init sock_fd))))"

text \<open>
  \<open>NetCall\<close>. After a call that timed out the request is not sent. A packet that could not be read
  (\<open>-1\<close>) is only logged, and the empty buffer is decoded. The uninitialised header buffer is an
  argument.
\<close>

definition Blocking_NetCall ::
    "nat \<Rightarrow> bytes \<Rightarrow> 'r reader \<Rightarrow> 'r \<Rightarrow> bytes \<Rightarrow> BlockingRpcClient \<Rightarrow> ('r RpcResponse \<times> BlockingRpcClient) outcome" where
  "Blocking_NetCall fuel head_buffer desr dflt request_buffer cl =
     bind_outcome
       (if blk_err cl = RPC_ERR_RECV_TIMEOUT then Return cl
        else case Blocking_WritePacket request_buffer (blk_conn cl) of (res, c') \<Rightarrow>
          if res = Some (length request_buffer) then Return (cl\<lparr>blk_conn := c'\<rparr>) else Fault ExitCall) (\<lambda>cl.
     bind_outcome (Blocking_ReadPacket fuel head_buffer (blk_conn cl)) (\<lambda>(recv_res, c').
       if recv_res = Some []
       then Return (\<lparr>err_code = RPC_ERR_RECV_TIMEOUT, err_msg = str ''recv timeout'', detail_value = dflt\<rparr>,
                    cl\<lparr>blk_err := RPC_ERR_RECV_TIMEOUT, blk_conn := c'\<rparr>)
       else bind_outcome (RpcResponse_deserialize desr (Serializer_init (case recv_res of None \<Rightarrow> [] | Some b \<Rightarrow> b))) (\<lambda>(value, _).
              Return (value, cl\<lparr>blk_err := RPC_SUCCECC, blk_conn := c'\<rparr>))))"

definition Blocking_Call ::
    "nat \<Rightarrow> bytes \<Rightarrow> 'a writer \<Rightarrow> 'r reader \<Rightarrow> 'r \<Rightarrow> bytes \<Rightarrow> 'a \<Rightarrow> BlockingRpcClient \<Rightarrow> ('r RpcResponse \<times> BlockingRpcClient) outcome" where
  "Blocking_Call fuel head_buffer sera desr dflt name args = Blocking_NetCall fuel head_buffer desr dflt (request_bytes name sera args)"

text \<open>A call without arguments sends the name only.\<close>

definition Blocking_Call0 ::
    "nat \<Rightarrow> bytes \<Rightarrow> 'r reader \<Rightarrow> 'r \<Rightarrow> bytes \<Rightarrow> BlockingRpcClient \<Rightarrow> ('r RpcResponse \<times> BlockingRpcClient) outcome" where
  "Blocking_Call0 fuel head_buffer desr dflt name =
     Blocking_NetCall fuel head_buffer desr dflt (Serializer_str (serialize_string name (Serializer_init [])))"

section \<open>Packets of the blocking client\<close>

text \<open>A read delivers the four bytes of a header in one piece, after any number of retries; a write takes them at once.\<close>

definition head_read :: "io_event list \<Rightarrow> bool" where
  "head_read es \<longleftrightarrow> (case dropWhile (\<lambda>e. e = Again) es of Chunk n # _ \<Rightarrow> 3 \<le> n | [] \<Rightarrow> True | _ \<Rightarrow> False)"

definition head_written :: "io_event list \<Rightarrow> bool" where
  "head_written es \<longleftrightarrow> (case es of Chunk n # _ \<Rightarrow> 3 \<le> n | [] \<Rightarrow> True | _ \<Rightarrow> False)"

lemma read_head_whole:
  assumes "conn_up c" and "head_read (rd_events c)" and "conn_in c = h @ rest" and "length h = HEADER_SIZE" and "length hb = HEADER_SIZE"
    and "length (rd_events c) + 2 \<le> fuel"
  shows "\<exists>c'. read_head fuel 0 hb c = Return (Some h, c') \<and> conn_up c' \<and> conn_in c' = rest \<and> conn_out c' = conn_out c"
  using assms
proof (induction "rd_events c" arbitrary: c fuel)
  case Nil
  then obtain k where "fuel = Suc (Suc k)" by (metis add_2_eq_Suc' le_Suc_ex add_Suc)
  then show ?case using Nil by (auto simp: sys_read_def take_in_def HEADER_SIZE_def conn_up_def)
next
  case (Cons e es)
  obtain k where k: "fuel = Suc (Suc k)" using Cons.prems(6) by (metis add_2_eq_Suc' le_Suc_ex add_Suc)
  show ?case
  proof (cases "e = Again")
    case True
    have "\<exists>c'. read_head (Suc k) 0 hb (c\<lparr>rd_events := es\<rparr>) = Return (Some h, c') \<and> conn_up c' \<and> conn_in c' = rest
        \<and> conn_out c' = conn_out (c\<lparr>rd_events := es\<rparr>)"
      using Cons.hyps(1) [of "c\<lparr>rd_events := es\<rparr>" "Suc k"] Cons.prems Cons.hyps(2) [symmetric] True k
      by (simp add: conn_up_def head_read_def)
    then show ?thesis using k True Cons.hyps(2) [symmetric] by (simp add: sys_read_def HEADER_SIZE_def)
  next
    case False
    then obtain n where e: "e = Chunk n" "3 \<le> n" using Cons.prems(2) Cons.hyps(2) [symmetric]
      by (cases e) (auto simp: head_read_def)
    then have "min 4 (Suc n) = 4" by simp
    then show ?thesis using k e Cons.hyps(2) [symmetric] Cons.prems
      by (auto simp: sys_read_def take_in_def HEADER_SIZE_def conn_up_def)
  qed
qed

lemma already_read_size_small: "length acc < 2 ^ 31 \<Longrightarrow> already_read_size acc = int (length acc)"
  by (simp add: already_read_size_def as_int_small)

lemma read_body_live:
  "conn_up c \<Longrightarrow> rest \<le> length (conn_in c) \<Longrightarrow> length acc + rest < 2 ^ 31 \<Longrightarrow>
   \<exists>c'. read_body rest acc c = Return (acc @ take rest (conn_in c), c') \<and> conn_up c' \<and> conn_in c' = drop rest (conn_in c) \<and> conn_out c' = conn_out c"
proof (induction rest acc c rule: read_body.induct)
  case (1 rest acc c)
  show ?case
  proof (cases "rest = 0")
    case True
    then show ?thesis using 1(3) by (simp add: read_body.simps)
  next
    case False
    then have pos: "0 < rest" by simp
    obtain r c1 where w: "sys_read rest c = (r, c1)" by fastforce
    from sys_read_live [OF 1(3) pos 1(4) w]
    consider "r = Retry" "conn_up c1" "conn_out c1 = conn_out c" "conn_in c1 = conn_in c"
      | n where "0 < n" "n \<le> rest" "r = Got (take n (conn_in c))" "conn_up c1" "conn_in c1 = drop n (conn_in c)" "conn_out c1 = conn_out c" by auto
    then show ?thesis
    proof cases
      case a: 1
      from "1.IH"(2) [OF False w [symmetric] a(1) a(2)] show ?thesis
        using False w a 1(4,5) by (simp add: read_body.simps [of rest acc c])
    next
      case (2 n)
      have len: "length (take n (conn_in c)) = n" "take n (conn_in c) \<noteq> []" using 2 1(4) by auto
      have "rest - n \<le> length (conn_in c1)" using 2(5) 1(4) by simp
      moreover have up: "\<not> already_read_size acc < 0" using already_read_size_small [of acc] 1(5) by simp
      ultimately obtain c' where
        c': "read_body (rest - n) (acc @ take n (conn_in c)) c1 = Return ((acc @ take n (conn_in c)) @ take (rest - n) (conn_in c1), c')"
          "conn_up c'" "conn_in c' = drop (rest - n) (conn_in c1)" "conn_out c' = conn_out c1"
        using "1.IH"(1) [OF False w [symmetric] 2(3) len(2) up 2(4)] len(1) 1(5) 2(2) by auto
      have "take n (conn_in c) @ take (rest - n) (conn_in c1) = take rest (conn_in c)"
        using 2(2,5) take_add [of n "rest - n" "conn_in c"] by simp
      then show ?thesis using False w 2 len c' up by (simp add: read_body.simps [of rest acc c])
    qed
  qed
qed

lemma write_body_live:
  "conn_up c \<Longrightarrow> \<exists>c'. write_body bs c = (length bs, c') \<and> conn_up c' \<and> conn_out c' = conn_out c @ bs \<and> conn_in c' = conn_in c
     \<and> rd_events c' = rd_events c"
proof (induction bs c rule: write_body.induct)
  case (1 bs c)
  show ?case
  proof (cases "bs = []")
    case True
    then show ?thesis using 1(3) by (simp add: write_body.simps)
  next
    case False
    obtain r c1 where w: "sys_write bs c = (r, c1)" by fastforce
    from sys_write_live [OF 1(3) False w]
    consider "r = Retry" "conn_up c1" "conn_out c1 = conn_out c" "conn_in c1 = conn_in c" "rd_events c1 = rd_events c"
      | n where "0 < n" "n \<le> length bs" "r = Got n" "conn_up c1" "conn_out c1 = conn_out c @ take n bs" "conn_in c1 = conn_in c"
          "rd_events c1 = rd_events c" by auto
    then show ?thesis
    proof cases
      case a: 1
      from "1.IH"(2) [OF False w [symmetric] a(1) a(2)] show ?thesis
        using False w a by (simp add: write_body.simps [of bs c])
    next
      case (2 n)
      then have "n \<noteq> 0" by simp
      from "1.IH"(1) [OF False w [symmetric] 2(3) this 2(4)] show ?thesis
        using False w 2 by (auto simp: write_body.simps [of bs c])
    qed
  qed
qed

lemma Blocking_WritePacket_live:
  assumes "conn_up c" and "head_written (wr_events c)"
  shows "\<exists>c'. Blocking_WritePacket b c = (Some (length b), c') \<and> conn_up c' \<and> conn_out c' = conn_out c @ frame b
    \<and> conn_in c' = conn_in c \<and> rd_events c' = rd_events c"
proof -
  let ?h = "word_bytes (of_nat (length b) :: u32)"
  obtain c1 where c1: "sys_write ?h c = (Got 4, c1)" "conn_up c1" "conn_out c1 = conn_out c @ ?h" "conn_in c1 = conn_in c" "rd_events c1 = rd_events c"
    using assms by (cases "wr_events c") (auto simp: head_written_def sys_write_def put_out_def conn_up_def Let_def split: io_event.splits)
  from write_body_live [OF c1(2), of b] show ?thesis using c1 by (auto simp: Blocking_WritePacket_def frame_def)
qed

lemma Blocking_ReadPacket_live:
  assumes "conn_up c" and "head_read (rd_events c)" and "conn_in c = frame b @ rest" and "length b < 2 ^ 31"
    and "length hb = HEADER_SIZE" and "length (rd_events c) + 2 \<le> fuel"
  shows "\<exists>c'. Blocking_ReadPacket fuel hb c = Return (Some b, c') \<and> conn_up c' \<and> conn_in c' = rest \<and> conn_out c' = conn_out c"
proof -
  let ?h = "word_bytes (of_nat (length b) :: u32)"
  have "conn_in c = ?h @ b @ rest" "length ?h = HEADER_SIZE" using assms(3) by (simp_all add: frame_def HEADER_SIZE_def)
  from read_head_whole [OF assms(1,2) this assms(5,6)] obtain c1 where
    c1: "read_head fuel 0 hb c = Return (Some ?h, c1)" "conn_up c1" "conn_in c1 = b @ rest" "conn_out c1 = conn_out c" by blast
  have "unat (bytes_word ?h :: u32) = length b" using assms(4) by (simp add: bytes_word_bytes unat_of_nat)
  with c1 read_body_live [OF c1(2), of "length b" "[]"] assms(4) already_read_size_small [of b] show ?thesis
    by (auto simp: Blocking_ReadPacket_def bind_outcome_def)
qed

section \<open>The reply of a call\<close>

text \<open>C32. A blocking call returns the next packet that arrives: it writes its request and gives the
  response that the packet holds, in whatever pieces the bodies are transferred; after a call that
  timed out it writes nothing and takes that packet, the late reply to an earlier request, as its own.
  The connection is up, the four bytes of either header are moved by one call (\<open>head_read\<close>, \<open>head_written\<close>: the client
  does not put a header together from pieces), and the reply is shorter than \<open>2 ^ 31\<close> bytes.\<close>

theorem blocking_call:
  fixes serr :: "'r writer"
  assumes cr: "codec serr desr encr validr" and v: "validr (detail_value v)" "length (err_msg v) < 2 ^ 64"
    and len: "length (enc_response encr v) < 2 ^ 31"
    and up: "conn_up (blk_conn cl)" and heads: "head_read (rd_events (blk_conn cl))" "head_written (wr_events (blk_conn cl))"
    and "in": "conn_in (blk_conn cl) = frame (enc_response encr v) @ rest"
    and fuel: "length (rd_events (blk_conn cl)) + 2 \<le> fuel" and hb: "length hb = HEADER_SIZE"
  shows "\<exists>cl'. Blocking_Call fuel hb sera desr dflt name args cl = Return (v, cl') \<and> conn_in (blk_conn cl') = rest \<and> blk_err cl' = 0
    \<and> conn_out (blk_conn cl') = conn_out (blk_conn cl)
        @ (if blk_err cl = RPC_ERR_RECV_TIMEOUT then [] else frame (request_bytes name sera args))"
proof -
  let ?q = "request_bytes name sera args" and ?r = "enc_response encr v"
  let ?out = "conn_out (blk_conn cl) @ (if blk_err cl = RPC_ERR_RECV_TIMEOUT then [] else frame ?q)"
  obtain c1 where c1: "(if blk_err cl = RPC_ERR_RECV_TIMEOUT then Return cl
      else case Blocking_WritePacket ?q (blk_conn cl) of (res, c') \<Rightarrow>
        if res = Some (length ?q) then Return (cl\<lparr>blk_conn := c'\<rparr>) else Fault ExitCall) = Return (cl\<lparr>blk_conn := c1\<rparr>)"
    "conn_up c1" "conn_in c1 = frame ?r @ rest" "rd_events c1 = rd_events (blk_conn cl)" "conn_out c1 = ?out"
  proof (cases "blk_err cl = RPC_ERR_RECV_TIMEOUT")
    case True
    then show thesis using up "in" by (intro that [of "blk_conn cl"]) simp_all
  next
    case False
    with Blocking_WritePacket_live [OF up heads(2), of ?q] "in" show thesis by (auto intro: that)
  qed
  obtain c2 where c2: "Blocking_ReadPacket fuel hb c1 = Return (Some ?r, c2)" "conn_in c2 = rest" "conn_out c2 = ?out"
    using Blocking_ReadPacket_live [of c1 ?r rest hb fuel] c1 heads(1) len hb fuel by auto
  have "Serializer_str (RpcResponse_serialize serr v (Serializer_init [])) = ?r"
    by (simp add: codec.ser_law [OF response_codec [OF cr]] put_bytes_def Serializer_init_def Serializer_str_def)
  then obtain s where "RpcResponse_deserialize desr (Serializer_init ?r) = Return (v, s)"
    using codec.roundtrip [OF response_codec [OF cr], of v "[]"] v by (auto simp: response_tuple_def)
  moreover have "length (word_bytes (err_code v)) = 2" by simp
  then have "?r \<noteq> []" by (auto simp: enc_response_def response_tuple_def simp del: length_word_bytes)
  ultimately show ?thesis using c1(1) c2 by (simp add: Blocking_Call_def Blocking_NetCall_def bind_outcome_def RPC_SUCCECC_def)
qed

text \<open>A client that has timed out and whose next packet is the late reply to the call before.\<close>

definition ex_blocking :: BlockingRpcClient where
  "ex_blocking = \<lparr>blk_err = RPC_ERR_RECV_TIMEOUT, blk_conn = \<lparr>is_closed = False,
     conn_in = frame (enc_response word_bytes \<lparr>err_code = 0, err_msg = [], detail_value = 5 :: u32\<rparr>),
     conn_out = [], rd_events = [Again, Chunk 9, Chunk 1, Again], wr_events = []\<rparr>\<rparr>"

theorem blocking_call_witness:
  "\<exists>cl'. Blocking_Call 9 [0, 0, 0, 0] (serialize_arith :: u32 writer) deserialize_arith 0 (str ''inc'') 7 ex_blocking
     = Return (\<lparr>err_code = 0, err_msg = [], detail_value = 5 :: u32\<rparr>, cl') \<and> conn_out (blk_conn cl') = []"
proof -
  have "length (enc_response word_bytes \<lparr>err_code = 0, err_msg = [], detail_value = 5 :: u32\<rparr>) < 2 ^ 31"
    by (simp add: enc_response_def response_tuple_def)
  then show ?thesis
    using blocking_call [OF i32.codec_axioms, where v = "\<lparr>err_code = 0, err_msg = [], detail_value = 5\<rparr>" and cl = ex_blocking
        and rest = "[]" and fuel = 9 and hb = "[0, 0, 0, 0]" and sera = "serialize_arith :: u32 writer" and name = "str ''inc''"
        and args = 7 and dflt = 0]
    by (auto simp: ex_blocking_def conn_up_def head_read_def head_written_def HEADER_SIZE_def)
qed

text \<open>The other ends of a call: an empty packet is taken for a timeout, and a failed read for a reply without bytes.\<close>

lemma blocking_empty_reply:
  assumes "Blocking_ReadPacket fuel hb (blk_conn cl) = Return (Some [], c')" and "blk_err cl = RPC_ERR_RECV_TIMEOUT"
  shows "Blocking_Call fuel hb sera desr dflt name args cl
    = Return (\<lparr>err_code = RPC_ERR_RECV_TIMEOUT, err_msg = str ''recv timeout'', detail_value = dflt\<rparr>, cl\<lparr>blk_conn := c'\<rparr>)"
  using assms by (cases cl) (simp add: Blocking_Call_def Blocking_NetCall_def bind_outcome_def)

lemma blocking_failed_read:
  assumes "Blocking_WritePacket (request_bytes name sera args) (blk_conn cl) = (Some (length (request_bytes name sera args)), c1)"
    and "Blocking_ReadPacket fuel hb c1 = Return (None, c')" and "blk_err cl \<noteq> RPC_ERR_RECV_TIMEOUT"
  shows "Blocking_Call fuel hb sera desr dflt name args cl = Fault OutOfBounds"
  using assms
  by (simp add: Blocking_Call_def Blocking_NetCall_def bind_outcome_def RpcResponse_deserialize_def deserialize_arith_def
      get_bytes_def Serializer_init_def)

end
