(* ===== verification/Timers.thy ===== *)
theory Timers
  imports Prelude "HOL-Library.Multiset"
begin

text \<open>
  \<^verbatim>\<open>timer/timer.h\<close>: timers in a binary heap ordered by their expiry time. Indices are below
  \<open>2 ^ 31\<close>, so the \<open>uint32_t\<close> arithmetic on them does not wrap.
\<close>

section \<open>The heap\<close>

record 't Timer =
  expiry_time :: int
  timer_id :: nat
  task :: 't

definition swap :: "nat \<Rightarrow> nat \<Rightarrow> 'a list \<Rightarrow> 'a list" where
  "swap i j xs = xs[i := xs ! j, j := xs ! i]"

fun HeapifyUp :: "nat \<Rightarrow> 't Timer list \<Rightarrow> 't Timer list" where
  "HeapifyUp index ts =
     (if index = 0 then ts
      else let parent_index = (index - 1) div 2
           in if expiry_time (ts ! index) < expiry_time (ts ! parent_index)
              then HeapifyUp parent_index (swap index parent_index ts) else ts)"

definition smallest_index :: "nat \<Rightarrow> 't Timer list \<Rightarrow> nat" where
  "smallest_index index ts =
     (let left_child_index = index * 2 + 1; right_child_index = index * 2 + 2;
          s = (if left_child_index < length ts \<and> expiry_time (ts ! left_child_index) < expiry_time (ts ! index)
               then left_child_index else index)
      in if right_child_index < length ts \<and> expiry_time (ts ! right_child_index) < expiry_time (ts ! s)
         then right_child_index else s)"

lemma smallest_index_cases: "smallest_index i ts = i \<or> (i < smallest_index i ts \<and> smallest_index i ts < length ts)"
  by (auto simp: smallest_index_def Let_def)

lemma length_swap [simp]: "length (swap i j xs) = length xs"
  by (simp add: swap_def)

function HeapifyDown :: "nat \<Rightarrow> 't Timer list \<Rightarrow> 't Timer list" where
  "HeapifyDown index ts =
     (let s = smallest_index index ts in if s \<noteq> index then HeapifyDown s (swap s index ts) else ts)"
  by pat_completeness auto
termination
proof (relation "measure (\<lambda>(i, ts). length ts - i)", simp, goal_cases)
  case (1 i ts s)
  then show ?case using smallest_index_cases [of i ts] by auto
qed

declare HeapifyUp.simps [simp del] HeapifyDown.simps [simp del]

definition Push :: "'t Timer \<Rightarrow> 't Timer list \<Rightarrow> 't Timer list" where
  "Push t ts = HeapifyUp (length ts) (ts @ [t])"

definition Erase :: "nat \<Rightarrow> 't Timer list \<Rightarrow> 't Timer list" where
  "Erase index ts = HeapifyDown index (butlast (swap index (length ts - 1) ts))"

text \<open>
  \<open>pop\<close> returns through a reference to the first slot, which is read after \<open>Erase\<close>: that slot
  holds another timer then, or none.
\<close>

definition pop :: "'t Timer \<Rightarrow> 't Timer list \<Rightarrow> ('t Timer \<times> 't Timer list) outcome" where
  "pop dflt ts =
     (if ts = [] then Return (dflt, ts)
      else let ts' = Erase 0 ts in if ts' = [] then Fault OutOfBounds else Return (ts' ! 0, ts'))"

section \<open>The manager\<close>

record 't TimerManager =
  timers :: "'t Timer list"
  next_timer_id :: nat
  stop :: bool

definition AddTimer :: "int \<Rightarrow> nat \<Rightarrow> 't \<Rightarrow> 't TimerManager \<Rightarrow> nat \<times> 't TimerManager" where
  "AddTimer now milliseconds callback m =
     (next_timer_id m, m\<lparr>timers := Push \<lparr>expiry_time = now + int milliseconds, timer_id = next_timer_id m, task = callback\<rparr> (timers m),
        next_timer_id := next_timer_id m + 1\<rparr>)"

fun find_timer :: "nat \<Rightarrow> 't Timer list \<Rightarrow> nat option" where
  "find_timer tid [] = None"
| "find_timer tid (t # ts) = (if timer_id t = tid then Some 0 else map_option Suc (find_timer tid ts))"

definition RemoveTimer :: "nat \<Rightarrow> 't TimerManager \<Rightarrow> 't TimerManager" where
  "RemoveTimer tid m = (case find_timer tid (timers m) of None \<Rightarrow> m | Some i \<Rightarrow> m\<lparr>timers := Erase i (timers m)\<rparr>)"

text \<open>One round of \<open>Tick\<close>, with the task it starts.\<close>

definition Tick :: "'t Timer \<Rightarrow> int \<Rightarrow> 't TimerManager \<Rightarrow> ('t option \<times> 't TimerManager) outcome" where
  "Tick dflt now m =
     (if stop m then Return (None, m)
      else if timers m \<noteq> [] \<and> now \<ge> expiry_time (timers m ! 0)
      then bind_outcome (pop dflt (timers m)) (\<lambda>(timer, ts). Return (Some (task timer), m\<lparr>timers := ts\<rparr>))
      else Return (None, m))"

definition Timer_Shutdown :: "'t TimerManager \<Rightarrow> 't TimerManager" where
  "Timer_Shutdown m = m\<lparr>stop := True\<rparr>"

section \<open>The heap order\<close>

definition par :: "nat \<Rightarrow> nat" where
  "par j = (j - 1) div 2"

lemma par_less: "0 < j \<Longrightarrow> par j < j"
  by (simp add: par_def)

lemma par_child: "0 < j \<Longrightarrow> par j = i \<longleftrightarrow> j = i * 2 + 1 \<or> j = i * 2 + 2"
  by (auto simp: par_def)

definition heap :: "'t Timer list \<Rightarrow> bool" where
  "heap ts \<longleftrightarrow> (\<forall>j < length ts. 0 < j \<longrightarrow> expiry_time (ts ! par j) \<le> expiry_time (ts ! j))"

text \<open>The order holds but between a node and its parent, or between a node and its children.\<close>

definition heap_up :: "nat \<Rightarrow> 't Timer list \<Rightarrow> bool" where
  "heap_up i ts \<longleftrightarrow> (\<forall>j < length ts. 0 < j \<and> j \<noteq> i \<longrightarrow> expiry_time (ts ! par j) \<le> expiry_time (ts ! j))
     \<and> (\<forall>j < length ts. 0 < j \<and> 0 < i \<and> par j = i \<longrightarrow> expiry_time (ts ! par i) \<le> expiry_time (ts ! j))"

definition heap_down :: "nat \<Rightarrow> 't Timer list \<Rightarrow> bool" where
  "heap_down i ts \<longleftrightarrow> (\<forall>j < length ts. 0 < j \<and> par j \<noteq> i \<longrightarrow> expiry_time (ts ! par j) \<le> expiry_time (ts ! j))
     \<and> (\<forall>j < length ts. 0 < j \<and> 0 < i \<and> par j = i \<longrightarrow> expiry_time (ts ! par i) \<le> expiry_time (ts ! j))"

lemma swap_nth: "i < length xs \<Longrightarrow> j < length xs \<Longrightarrow> swap i j xs ! k = (if k = j then xs ! i else if k = i then xs ! j else xs ! k)"
  by (auto simp: swap_def nth_list_update)

lemma mset_swap_list: "i < length xs \<Longrightarrow> j < length xs \<Longrightarrow> mset (swap i j xs) = mset xs"
  by (cases "i = j") (simp_all add: swap_def mset_swap)

lemma HeapifyUp_par:
  "HeapifyUp i ts = (if i \<noteq> 0 \<and> expiry_time (ts ! i) < expiry_time (ts ! par i) then HeapifyUp (par i) (swap i (par i) ts) else ts)"
  by (subst HeapifyUp.simps) (simp add: par_def Let_def)

lemma swap_up:
  assumes "heap_up i ts" and i: "0 < i" "i < length ts" and lt: "expiry_time (ts ! i) < expiry_time (ts ! par i)"
  shows "heap_up (par i) (swap i (par i) ts)"
proof -
  let ?s = "swap i (par i) ts" and ?e = "\<lambda>k. expiry_time (ts ! k)"
  have p: "par i < i" "par i < length ts" using par_less [OF i(1)] i(2) by auto
  have nth: "?s ! k = (if k = par i then ts ! i else if k = i then ts ! par i else ts ! k)" for k
    using swap_nth [of i ts "par i" k] i p by simp
  have ord: "?e (par j) \<le> ?e j" if "j < length ts" "0 < j" "j \<noteq> i" for j using assms(1) that by (simp add: heap_up_def)
  have gr: "?e (par i) \<le> ?e j" if "j < length ts" "0 < j" "par j = i" for j using assms(1) that i by (simp add: heap_up_def)
  show ?thesis unfolding heap_up_def length_swap
  proof (intro conjI allI impI; elim conjE)
    fix j assume j: "j < length ts" "0 < j" "j \<noteq> par i"
    consider "j = i" | "j \<noteq> i" "par j = i" | "j \<noteq> i" "par j = par i" | "j \<noteq> i" "par j \<noteq> i" "par j \<noteq> par i" by blast
    then show "expiry_time (?s ! par j) \<le> expiry_time (?s ! j)"
    proof cases
      case 1 then show ?thesis using nth p lt by simp
    next
      case 2 then show ?thesis using nth p j gr [of j] by simp
    next
      case 3
      then have "?e (par i) \<le> ?e j" using ord [of j] j by simp
      then show ?thesis using nth 3 j lt by simp
    next
      case 4 then show ?thesis using nth j ord [of j] by simp
    qed
  next
    fix j assume j: "j < length ts" "0 < j" "0 < par i" "par j = par i"
    have pp: "par (par i) < par i" "?e (par (par i)) \<le> ?e (par i)" using par_less [OF j(3)] ord [of "par i"] j(3) p by auto
    have "j \<noteq> par i" using par_less [OF j(2)] j(4) by simp
    moreover have "?e (par i) \<le> ?e j" if "j \<noteq> i" using ord [of j] j that by simp
    ultimately show "expiry_time (?s ! par (par i)) \<le> expiry_time (?s ! j)"
      using nth pp p by (cases "j = i") force+
  qed
qed

lemma HeapifyUp_heap:
  "i < length ts \<Longrightarrow> heap_up i ts \<Longrightarrow> heap (HeapifyUp i ts) \<and> mset (HeapifyUp i ts) = mset ts"
proof (induction i arbitrary: ts rule: less_induct)
  case (less i)
  show ?case
  proof (cases "i \<noteq> 0 \<and> expiry_time (ts ! i) < expiry_time (ts ! par i)")
    case True
    have p: "par i < i" using par_less [of i] True by simp
    have "heap_up (par i) (swap i (par i) ts)" using swap_up less.prems True by auto
    from less.IH [OF p _ this] show ?thesis
      using True p less.prems mset_swap_list [of i ts "par i"] by (subst (1 2) HeapifyUp_par) simp
  next
    case False
    then have "heap ts" using less.prems by (auto simp: heap_def heap_up_def)
    with False show ?thesis by (subst (1 2) HeapifyUp_par) auto
  qed
qed

lemma smallest_index_min:
  assumes "i < length ts"
  shows "smallest_index i ts < length ts"
    and "smallest_index i ts \<noteq> i \<Longrightarrow> 0 < smallest_index i ts \<and> par (smallest_index i ts) = i"
    and "j < length ts \<Longrightarrow> 0 < j \<Longrightarrow> par j = i \<Longrightarrow> expiry_time (ts ! smallest_index i ts) \<le> expiry_time (ts ! j)"
    and "expiry_time (ts ! smallest_index i ts) \<le> expiry_time (ts ! i)"
proof -
  show "smallest_index i ts < length ts" using assms smallest_index_cases [of i ts] by auto
  show "smallest_index i ts \<noteq> i \<Longrightarrow> 0 < smallest_index i ts \<and> par (smallest_index i ts) = i"
    by (auto simp: smallest_index_def Let_def par_def split: if_splits)
  show "j < length ts \<Longrightarrow> 0 < j \<Longrightarrow> par j = i \<Longrightarrow> expiry_time (ts ! smallest_index i ts) \<le> expiry_time (ts ! j)"
    by (auto simp: smallest_index_def Let_def par_child)
  show "expiry_time (ts ! smallest_index i ts) \<le> expiry_time (ts ! i)" by (auto simp: smallest_index_def Let_def)
qed

lemma swap_down:
  assumes "heap_down i ts" and i: "i < length ts" and k: "0 < k" "par k = i" "k < length ts"
    and min: "\<And>j. j < length ts \<Longrightarrow> 0 < j \<Longrightarrow> par j = i \<Longrightarrow> expiry_time (ts ! k) \<le> expiry_time (ts ! j)"
    and le: "expiry_time (ts ! k) \<le> expiry_time (ts ! i)"
  shows "heap_down k (swap k i ts)"
proof -
  let ?s = "swap k i ts" and ?e = "\<lambda>k. expiry_time (ts ! k)"
  have ki: "i < k" using par_less [OF k(1)] k(2) by simp
  have nth: "?s ! l = (if l = i then ts ! k else if l = k then ts ! i else ts ! l)" for l using swap_nth [OF k(3) i] by simp
  have ord: "?e (par j) \<le> ?e j" if "j < length ts" "0 < j" "par j \<noteq> i" for j using assms(1) that by (simp add: heap_down_def)
  have up: "?e (par i) \<le> ?e k" if "0 < i" using assms(1) that k by (simp add: heap_down_def)
  show ?thesis unfolding heap_down_def length_swap
  proof (intro conjI allI impI; elim conjE)
    fix j assume j: "j < length ts" "0 < j" "par j \<noteq> k"
    have pj: "par j < j" using par_less [OF j(2)] .
    consider "j = i" | "j = k" | "j \<noteq> i" "j \<noteq> k" "par j = i" | "j \<noteq> i" "j \<noteq> k" "par j \<noteq> i" by blast
    then show "expiry_time (?s ! par j) \<le> expiry_time (?s ! j)"
    proof cases
      case 1 then show ?thesis using nth up j pj by simp
    next
      case 2 then show ?thesis using nth le k ki by simp
    next
      case 3 then show ?thesis using nth min [of j] j by simp
    next
      case 4 then show ?thesis using nth ord [of j] j by simp
    qed
  next
    fix j assume j: "j < length ts" "0 < j" "0 < k" "par j = k"
    have "k < j" using par_less [OF j(2)] j(4) by simp
    then show "expiry_time (?s ! par k) \<le> expiry_time (?s ! j)" using nth ki k(2) ord [of j] j by simp
  qed
qed

lemma HeapifyDown_heap:
  "i < length ts \<Longrightarrow> heap_down i ts \<Longrightarrow> heap (HeapifyDown i ts) \<and> mset (HeapifyDown i ts) = mset ts"
proof (induction i ts rule: HeapifyDown.induct)
  case (1 i ts)
  let ?k = "smallest_index i ts"
  note min = smallest_index_min [OF "1.prems"(1)]
  show ?case
  proof (cases "?k = i")
    case True
    then have "heap ts" using "1.prems"(2) min(3) by (force simp: heap_def heap_down_def)
    then show ?thesis using True by (simp add: HeapifyDown.simps Let_def)
  next
    case False
    have "heap_down ?k (swap ?k i ts)"
      by (rule swap_down [OF "1.prems"(2,1)]) (use min min(2) [OF False] in auto)
    then show ?thesis using "1.IH" [OF refl False] mset_swap_list [OF min(1) "1.prems"(1)] False min(1)
      by (simp add: HeapifyDown.simps [of i ts] Let_def)
  qed
qed

lemma Push_heap: "heap ts \<Longrightarrow> heap (Push t ts) \<and> mset (Push t ts) = add_mset t (mset ts)"
proof -
  assume "heap ts"
  have "heap_up (length ts) (ts @ [t])" unfolding heap_up_def
  proof (intro conjI allI impI; elim conjE)
    fix j assume j: "j < length (ts @ [t])" "0 < j" "j \<noteq> length ts"
    then have "j < length ts" "par j < length ts" using par_less [of j] by auto
    then show "expiry_time ((ts @ [t]) ! par j) \<le> expiry_time ((ts @ [t]) ! j)"
      using \<open>heap ts\<close> j(2) by (simp add: heap_def nth_append)
  next
    fix j assume "j < length (ts @ [t])" "0 < j" "par j = length ts"
    then show "expiry_time ((ts @ [t]) ! par (length ts)) \<le> expiry_time ((ts @ [t]) ! j)" using par_less [of j] by simp
  qed
  then show ?thesis using HeapifyUp_heap [of "length ts" "ts @ [t]"] by (simp add: Push_def)
qed

lemma HeapifyDown_Nil [simp]: "HeapifyDown i [] = []"
  by (simp add: HeapifyDown.simps smallest_index_def Let_def)

lemma heap_top: "heap ts \<Longrightarrow> j < length ts \<Longrightarrow> expiry_time (ts ! 0) \<le> expiry_time (ts ! j)"
proof (induction j rule: less_induct)
  case (less j)
  show ?case
  proof (cases "j = 0")
    case False
    then have "par j < j" by (simp add: par_less)
    with less False show ?thesis by (force simp: heap_def)
  qed simp
qed

lemma Erase_top:
  assumes "heap ts" and "ts \<noteq> []"
  shows "heap (Erase 0 ts) \<and> add_mset (ts ! 0) (mset (Erase 0 ts)) = mset ts"
proof -
  obtain us u where ts: "ts = us @ [u]" using assms(2) rev_exhaust by blast
  show ?thesis
  proof (cases us)
    case Nil
    then show ?thesis using ts by (simp add: Erase_def swap_def heap_def)
  next
    case (Cons v vs)
    let ?b = "u # vs"
    have b: "butlast (swap 0 (length ts - 1) ts) = ?b" using ts Cons by (simp add: swap_def nth_append)
    have n: "?b ! j = ts ! j" if "0 < j" "j < length ?b" for j
      using that ts Cons by (simp add: nth_append nth_Cons split: nat.split)
    have "heap_down 0 ?b" unfolding heap_down_def
    proof (intro conjI allI impI; elim conjE)
      fix j assume j: "j < length ?b" "0 < j" "par j \<noteq> 0"
      then have "?b ! par j = ts ! par j" "?b ! j = ts ! j" using n par_less [of j] by auto
      moreover have "expiry_time (ts ! par j) \<le> expiry_time (ts ! j)" proof -
        have "j < length ts" using j ts Cons by simp
        then show ?thesis using assms(1) j(2) unfolding heap_def by blast
      qed
      ultimately show "expiry_time (?b ! par j) \<le> expiry_time (?b ! j)" by presburger
    qed simp
    then show ?thesis using HeapifyDown_heap [of 0 ?b] b ts Cons by (simp add: Erase_def)
  qed
qed

section \<open>A queue ordered by expiry\<close>

text \<open>
  The elements that come out of a queue when its first element is read and then deleted, again and again. \<open>pop\<close> does the
  same two things in the other order (C33).
\<close>

primrec drain :: "('q \<Rightarrow> 'e) \<Rightarrow> ('q \<Rightarrow> 'q) \<Rightarrow> nat \<Rightarrow> 'q \<Rightarrow> 'e list" where
  "drain get del 0 q = []"
| "drain get del (Suc n) q = get q # drain get del n (del q)"

locale expiry_queue =
  fixes ins :: "'e \<Rightarrow> 'q \<Rightarrow> 'q" and get :: "'q \<Rightarrow> 'e" and del :: "'q \<Rightarrow> 'q"
    and ok :: "'q \<Rightarrow> bool" and contents :: "'q \<Rightarrow> 'e multiset" and key :: "'e \<Rightarrow> int"
  assumes ins_law: "ok q \<Longrightarrow> ok (ins e q) \<and> contents (ins e q) = add_mset e (contents q)"
    and get_law: "ok q \<Longrightarrow> contents q \<noteq> {#} \<Longrightarrow> get q \<in># contents q \<and> (\<forall>e \<in># contents q. key (get q) \<le> key e)"
    and del_law: "ok q \<Longrightarrow> contents q \<noteq> {#} \<Longrightarrow> ok (del q) \<and> contents (del q) = contents q - {#get q#}"
begin

lemma fold_ins: "ok q \<Longrightarrow> ok (fold ins es q) \<and> contents (fold ins es q) = mset es + contents q"
  by (induction es arbitrary: q) (auto simp: ins_law)

lemma drain_sorted:
  "ok q \<Longrightarrow> size (contents q) = n \<Longrightarrow> mset (drain get del n q) = contents q \<and> sorted (map key (drain get del n q))"
proof (induction n arbitrary: q)
  case (Suc n)
  then have ne: "contents q \<noteq> {#}" by auto
  have d: "ok (del q)" "contents (del q) = contents q - {#get q#}" "get q \<in># contents q" "\<forall>e \<in># contents q. key (get q) \<le> key e"
    using Suc.prems del_law [OF _ ne] get_law [OF _ ne] by auto
  then have "size (contents (del q)) = n" using Suc.prems by (simp add: size_Diff_singleton)
  from Suc.IH [OF d(1) this] have IH: "mset (drain get del n (del q)) = contents q - {#get q#}" "sorted (map key (drain get del n (del q)))"
    using d by auto
  have "\<forall>e \<in> set (drain get del n (del q)). key (get q) \<le> key e"
    using d(4) IH(1) by (metis in_diffD set_mset_mset)
  with IH d(3) show ?case by simp
qed simp

lemma ins_drain_sorted:
  assumes "ok q" and "contents q = {#}"
  shows "mset (drain get del (length es) (fold ins es q)) = mset es \<and> sorted (map key (drain get del (length es) (fold ins es q)))"
  using fold_ins [OF assms(1), of es] drain_sorted [of "fold ins es q" "length es"] assms(2) by simp

end

interpretation heapq: expiry_queue Push "\<lambda>ts. ts ! 0" "Erase 0" heap mset expiry_time
proof
  fix q :: "'t Timer list" and e
  show "heap q \<Longrightarrow> heap (Push e q) \<and> mset (Push e q) = add_mset e (mset q)" by (rule Push_heap)
  assume h: "heap q" "mset q \<noteq> {#}"
  then have ne: "q \<noteq> []" by auto
  show "q ! 0 \<in># mset q \<and> (\<forall>e \<in># mset q. expiry_time (q ! 0) \<le> expiry_time e)"
    using heap_top [OF h(1)] ne by (auto simp: in_set_conv_nth)
  show "heap (Erase 0 q) \<and> mset (Erase 0 q) = mset q - {#q ! 0#}"
    using Erase_top [OF h(1) ne] by (metis add_mset_remove_trivial)
qed

text \<open>
  C18. The timer heap sorts: timers pushed in any order and taken from the top, each read before it is removed with
  \<open>Erase(0)\<close>, come out by increasing expiry time, each exactly once.
\<close>

theorem timers_by_expiry:
  "mset (drain (\<lambda>ts. ts ! 0) (Erase 0) (length es) (fold Push es [])) = mset es
    \<and> sorted (map expiry_time (drain (\<lambda>ts. ts ! 0) (Erase 0) (length es) (fold Push es [])))"
  using heapq.ins_drain_sorted [of "[]" es] by (simp add: heap_def)

text \<open>
  Adding a timer and removing the first one keep the heap order and the identifiers unique:
  in a manager whose timers form a heap and have distinct identifiers below the next one, so do
  the timers after \<open>AddTimer\<close>, and after a round of \<open>Tick\<close> that returns.
\<close>

definition manager_ok :: "'t TimerManager \<Rightarrow> bool" where
  "manager_ok m \<longleftrightarrow> heap (timers m) \<and> distinct (map timer_id (timers m)) \<and> (\<forall>t \<in> set (timers m). timer_id t < next_timer_id m)"

lemma distinct_map_mset: "mset xs = mset ys \<Longrightarrow> distinct (map f xs) = distinct (map f ys)"
  by (rule mset_eq_imp_distinct_iff) simp

theorem timers_invariant:
  assumes "manager_ok m"
  shows "manager_ok (snd (AddTimer now ms cb m)) \<and> (\<forall>r m'. Tick dflt now m = Return (r, m') \<longrightarrow> manager_ok m')"
proof
  let ?t = "\<lparr>expiry_time = now + int ms, timer_id = next_timer_id m, task = cb\<rparr>"
  have p: "heap (Push ?t (timers m))" "mset (Push ?t (timers m)) = mset (?t # timers m)"
    using Push_heap [of "timers m" ?t] assms by (auto simp: manager_ok_def)
  have s: "set (Push ?t (timers m)) = insert ?t (set (timers m))" using p(2) by (metis list.simps(15) set_mset_mset)
  have d: "distinct (map timer_id (Push ?t (timers m)))"
    using assms distinct_map_mset [OF p(2), of timer_id] by (auto simp: manager_ok_def)
  show "manager_ok (snd (AddTimer now ms cb m))" using p(1) s d assms by (auto simp: AddTimer_def manager_ok_def)
next
  have "manager_ok (m\<lparr>timers := Erase 0 (timers m)\<rparr>)" if "timers m \<noteq> []"
  proof -
    have e: "heap (Erase 0 (timers m))" "mset (timers m ! 0 # Erase 0 (timers m)) = mset (timers m)"
      using Erase_top [of "timers m"] that assms by (auto simp: manager_ok_def)
    have "set (Erase 0 (timers m)) \<subseteq> set (timers m)" using e(2) by (metis list.set_intros(2) set_mset_mset subsetI)
    with e assms distinct_map_mset [OF e(2), of timer_id] show ?thesis by (auto simp: manager_ok_def)
  qed
  then show "\<forall>r m'. Tick dflt now m = Return (r, m') \<longrightarrow> manager_ok m'"
    using assms by (auto simp: Tick_def pop_def Let_def bind_outcome_def split: if_splits)
qed

definition ex_timers :: "nat TimerManager" where
  "ex_timers = snd (AddTimer 0 20 7 (snd (AddTimer 0 10 5 \<lparr>timers = [], next_timer_id = 0, stop = False\<rparr>)))"

lemma ex_timers_eq:
  "timers ex_timers = [\<lparr>expiry_time = 10, timer_id = 0, task = 5\<rparr>, \<lparr>expiry_time = 20, timer_id = 1, task = 7\<rparr>]" "next_timer_id ex_timers = 2" "\<not> stop ex_timers"
  by code_simp+

theorem timers_invariant_witness:
  "manager_ok ex_timers \<and> manager_ok (snd (AddTimer 3 4 9 ex_timers))"
proof -
  have "manager_ok ex_timers" by (auto simp: manager_ok_def ex_timers_eq heap_def par_def nth_Cons' less_Suc_eq)
  with timers_invariant [of ex_timers 3 4 9] show ?thesis by blast
qed

text \<open>
  C33. The wrong timer fires: when the first of several timers has expired, a round of \<open>Tick\<close>
  starts the task of the timer that comes after it, which need not have expired and stays in
  the heap; the expired timer is dropped without its task being started. When the expired
  timer is the only one, the slot that is read holds no timer.
\<close>

theorem wrong_timer_fires:
  assumes "heap (timers m)" and "\<not> stop m" and "timers m \<noteq> []" and "expiry_time (timers m ! 0) \<le> now"
  shows "if length (timers m) = 1 then Tick dflt now m = Fault OutOfBounds
    else Tick dflt now m = Return (Some (task (Erase 0 (timers m) ! 0)), m\<lparr>timers := Erase 0 (timers m)\<rparr>)
      \<and> add_mset (timers m ! 0) (mset (Erase 0 (timers m))) = mset (timers m)"
proof -
  have e: "add_mset (timers m ! 0) (mset (Erase 0 (timers m))) = mset (timers m)" using Erase_top assms(1,3) by blast
  then have "size (mset (timers m)) = Suc (size (mset (Erase 0 (timers m))))" by (metis size_add_mset)
  then have l: "length (timers m) = Suc (length (Erase 0 (timers m)))" by simp
  show ?thesis
  proof (cases "Erase 0 (timers m) = []")
    case True
    then show ?thesis using l assms by (simp add: Tick_def pop_def Let_def bind_outcome_def)
  next
    case False
    then show ?thesis using l assms e by (simp add: Tick_def pop_def Let_def bind_outcome_def)
  qed
qed

theorem wrong_timer_fires_witness:
  "Tick \<lparr>expiry_time = 0, timer_id = 0, task = 0\<rparr> 15 ex_timers
     = Return (Some 7, ex_timers\<lparr>timers := [\<lparr>expiry_time = 20, timer_id = 1, task = 7\<rparr>]\<rparr>)"
proof -
  have h: "heap (timers ex_timers)" by (auto simp: ex_timers_eq heap_def par_def nth_Cons' less_Suc_eq)
  have e: "Erase 0 (timers ex_timers) = [\<lparr>expiry_time = 20, timer_id = 1, task = 7\<rparr>]" unfolding ex_timers_eq by code_simp
  from wrong_timer_fires [OF h, of 15 "\<lparr>expiry_time = 0, timer_id = 0, task = 0\<rparr>"] show ?thesis by (simp add: e) (simp add: ex_timers_eq)
qed

end
