(* ===== verification/Json.thy ===== *)
theory Json
  imports Str_Utils Sorted_Map "HOL-Library.Char_ord" "HOL-Library.List_Lexorder"
begin

text \<open>
  \<^verbatim>\<open>common/json/\<close>: JSON values, their text and the parser. A parser is its text \<open>s\<close> and an
  index into it; reading the text at its length gives the NUL character, as \<open>std::string\<close>
  has it, and reading further is outside the string. A thrown exception is \<open>Uncaught\<close>.

  Double precision numbers belong to the C library: their type \<open>'d\<close>, \<open>strtof64\<close> and their
  output format are parameters. The parser need not end, so the functions that call each
  other and the loop over comments take fuel.
\<close>

section \<open>Values\<close>

datatype 'd JObject =
    T_NULL
  | T_BOOL bool
  | T_INT int
  | T_DOUBLE 'd
  | T_STR string
  | T_LIST "'d JObject list"
  | T_DICT "(string \<times> 'd JObject) list"

fun Value_str :: "'d JObject \<Rightarrow> string outcome" where
  "Value_str (T_STR s) = Return s"
| "Value_str _ = Fault Uncaught"

fun Value_int :: "'d JObject \<Rightarrow> int outcome" where
  "Value_int (T_INT i) = Return i"
| "Value_int _ = Fault Uncaught"

fun Value_bool :: "'d JObject \<Rightarrow> bool outcome" where
  "Value_bool (T_BOOL b) = Return b"
| "Value_bool _ = Fault Uncaught"

fun Value_double :: "'d JObject \<Rightarrow> 'd outcome" where
  "Value_double (T_DOUBLE d) = Return d"
| "Value_double _ = Fault Uncaught"

fun Value_list :: "'d JObject \<Rightarrow> 'd JObject list outcome" where
  "Value_list (T_LIST l) = Return l"
| "Value_list _ = Fault Uncaught"

fun Value_dict :: "'d JObject \<Rightarrow> (string \<times> 'd JObject) list outcome" where
  "Value_dict (T_DICT m) = Return m"
| "Value_dict _ = Fault Uncaught"

text \<open>\<open>operator[]\<close> gives a reference to the entry, which it enters as null when it is not there.\<close>

definition JObject_index :: "string \<Rightarrow> 'd JObject \<Rightarrow> ('d JObject \<times> 'd JObject) outcome" where
  "JObject_index key j = bind_outcome (Value_dict j) (\<lambda>m.
     case map_of m key of Some v \<Rightarrow> Return (v, j) | None \<Rightarrow> Return (T_NULL, T_DICT (smap_put key T_NULL m)))"

definition JObject_put :: "string \<Rightarrow> 'd JObject \<Rightarrow> 'd JObject \<Rightarrow> 'd JObject outcome" where
  "JObject_put key v j = bind_outcome (Value_dict j) (\<lambda>m. Return (T_DICT (smap_put key v m)))"

definition JObject_push_back :: "'d JObject \<Rightarrow> 'd JObject \<Rightarrow> 'd JObject outcome" where
  "JObject_push_back item j = bind_outcome (Value_list j) (\<lambda>l. Return (T_LIST (l @ [item])))"

definition JObject_pop_back :: "'d JObject \<Rightarrow> 'd JObject outcome" where
  "JObject_pop_back j = bind_outcome (Value_list j) (\<lambda>l. if l = [] then Fault OutOfBounds else Return (T_LIST (butlast l)))"

section \<open>Text of a value\<close>

fun commas :: "string list \<Rightarrow> string" where
  "commas [] = []"
| "commas [x] = x"
| "commas (x # xs) = x @ CHR '','' # commas xs"

fun ToString :: "('d \<Rightarrow> string) \<Rightarrow> 'd JObject \<Rightarrow> string" where
  "ToString sd T_NULL = ''null''"
| "ToString sd (T_BOOL b) = (if b then ''true'' else ''false'')"
| "ToString sd (T_INT i) = int_str i"
| "ToString sd (T_DOUBLE d) = sd d"
| "ToString sd (T_STR s) = CHR 0x22 # s @ [CHR 0x22]"
| "ToString sd (T_LIST l) = CHR ''['' # commas (map (ToString sd) l) @ '']''"
| "ToString sd (T_DICT m) =
     CHR ''{'' # commas (map (\<lambda>(k, v). CHR 0x22 # k @ CHR 0x22 # CHR '':'' # ToString sd v) m) @ ''}''"

section \<open>Reading characters\<close>

definition char_at :: "string \<Rightarrow> nat \<Rightarrow> char outcome" where
  "char_at s i = (if i < length s then Return (s ! i) else if i = length s then Return (CHR 0x00) else Fault OutOfBounds)"

text \<open>\<open>s.compare(i, length t, t) == 0\<close>\<close>

definition compare_at :: "string \<Rightarrow> nat \<Rightarrow> string \<Rightarrow> bool outcome" where
  "compare_at s i t = (if i > length s then Fault Uncaught else Return (take (length t) (drop i s) = t))"

text \<open>The loops that move the index over characters of a class.\<close>

definition skip_while :: "(char \<Rightarrow> bool) \<Rightarrow> string \<Rightarrow> nat \<Rightarrow> nat outcome" where
  "skip_while P s i = (if i > length s then Fault OutOfBounds else Return (i + length (takeWhile P (drop i s))))"

definition find_char :: "char \<Rightarrow> string \<Rightarrow> nat \<Rightarrow> nat option" where
  "find_char c s i = find_from s [c] i"

section \<open>Tokens\<close>

text \<open>When no line end follows, \<open>find\<close> gives \<open>npos\<close>, and \<open>npos + 1\<close> is 0.\<close>

fun skip_comment_lines :: "nat \<Rightarrow> string \<Rightarrow> nat \<Rightarrow> nat outcome" where
  "skip_comment_lines 0 s i = Fault Stuck"
| "skip_comment_lines (Suc n) s i =
     bind_outcome (skip_while isspace s (case find_char (CHR 0x0A) s i of None \<Rightarrow> 0 | Some next_pos \<Rightarrow> next_pos + 1)) (\<lambda>j.
     bind_outcome (compare_at s j ''//'') (\<lambda>b. if b then skip_comment_lines n s j else Return j))"

definition SkipComment :: "nat \<Rightarrow> string \<Rightarrow> nat \<Rightarrow> nat outcome" where
  "SkipComment n s i = bind_outcome (compare_at s i ''//'') (\<lambda>b. if b then skip_comment_lines n s i else Return i)"

definition GetNextToken :: "nat \<Rightarrow> string \<Rightarrow> nat \<Rightarrow> (char \<times> nat) outcome" where
  "GetNextToken n s idx =
     bind_outcome (skip_while isspace s idx) (\<lambda>i.
     if i \<ge> length s then Fault Uncaught
     else bind_outcome (SkipComment n s i) (\<lambda>j. bind_outcome (char_at s j) (\<lambda>c. Return (c, j))))"

section \<open>Scalars\<close>

definition ParseNull :: "string \<Rightarrow> nat \<Rightarrow> ('d JObject \<times> nat) outcome" where
  "ParseNull s idx = bind_outcome (compare_at s idx ''null'') (\<lambda>b. if b then Return (T_NULL, idx + 4) else Fault Uncaught)"

definition ParseBool :: "string \<Rightarrow> nat \<Rightarrow> ('d JObject \<times> nat) outcome" where
  "ParseBool s idx =
     bind_outcome (compare_at s idx ''true'') (\<lambda>b. if b then Return (T_BOOL True, idx + 4)
     else bind_outcome (compare_at s idx ''false'') (\<lambda>b. if b then Return (T_BOOL False, idx + 5) else Fault Uncaught))"

text \<open>\<open>strtol\<close> is bounded by the range of \<open>long\<close>, and the cast keeps the low 32 bits.\<close>

definition int_of_digits :: "string \<Rightarrow> int" where
  "int_of_digits ds = sint (word_of_int (min (int (dec_val ds)) (2 ^ 63 - 1)) :: 32 word)"

definition ParseNumber :: "(string \<Rightarrow> 'd) \<Rightarrow> string \<Rightarrow> nat \<Rightarrow> ('d JObject \<times> nat) outcome" where
  "ParseNumber rd s begin_pos =
     bind_outcome (char_at s begin_pos) (\<lambda>c.
     if \<not> isdigit c then Fault Uncaught
     else bind_outcome (skip_while isdigit s begin_pos) (\<lambda>idx.
     bind_outcome (char_at s idx) (\<lambda>c.
     if c \<noteq> CHR ''.'' then Return (T_INT (int_of_digits (takeWhile isdigit (drop begin_pos s))), idx)
     else bind_outcome (char_at s (idx + 1)) (\<lambda>c.
          if \<not> isdigit c then Fault Uncaught
          else bind_outcome (skip_while isdigit s (idx + 1)) (\<lambda>idx'. Return (T_DOUBLE (rd (drop begin_pos s)), idx'))))))"

text \<open>The number of backslashes that end at a position; whether they cancel out.\<close>

fun count_esc :: "string \<Rightarrow> nat \<Rightarrow> nat outcome" where
  "count_esc s 0 = (if s ! 0 = CHR 0x5C then Fault OutOfBounds else Return 0)"
| "count_esc s (Suc pos) =
     (if s ! Suc pos = CHR 0x5C then bind_outcome (count_esc s pos) (\<lambda>n. Return (Suc n)) else Return 0)"

definition IsEscConsume :: "string \<Rightarrow> nat \<Rightarrow> bool outcome" where
  "IsEscConsume s pos = bind_outcome (count_esc s pos) (\<lambda>cnt. Return (cnt mod 2 = 0))"

lemma find_char_bound: "find_char c s i = Some k \<Longrightarrow> i \<le> k \<and> k < length s"
  by (auto simp: find_char_def find_from_def split: if_splits dest!: find_sub_bound)

function string_end :: "string \<Rightarrow> nat \<Rightarrow> nat outcome" where
  "string_end s pos =
     (if pos = 0 \<or> s ! (pos - 1) \<noteq> CHR 0x5C then Return pos
      else bind_outcome (IsEscConsume s (pos - 1)) (\<lambda>b.
        if b then Return pos
        else case find_char (CHR 0x22) s (pos + 1) of None \<Rightarrow> Fault Uncaught | Some pos' \<Rightarrow> string_end s pos'))"
  by pat_completeness auto
termination
  by (relation "measure (\<lambda>(s, pos). length s - pos)") (auto dest!: find_char_bound)

declare string_end.simps [simp del]

definition ParseString :: "string \<Rightarrow> nat \<Rightarrow> ('d JObject \<times> nat) outcome" where
  "ParseString s idx =
     (case find_char (CHR 0x22) s (idx + 1) of None \<Rightarrow> Fault Uncaught
      | Some pos \<Rightarrow> bind_outcome (string_end s pos) (\<lambda>pos.
          Return (T_STR (take (pos - (idx + 1)) (drop (idx + 1) s)), pos + 1)))"

section \<open>Lists, dictionaries, values\<close>

text \<open>\<open>ParseList\<close> and \<open>ParseDict\<close> look for the closing bracket of an empty list or dictionary,
  which is in \<open>Parse\<close> here, and then enter their loops.\<close>

fun Parse :: "(string \<Rightarrow> 'd) \<Rightarrow> nat \<Rightarrow> string \<Rightarrow> nat \<Rightarrow> ('d JObject \<times> nat) outcome"
  and ParseList_loop :: "(string \<Rightarrow> 'd) \<Rightarrow> nat \<Rightarrow> string \<Rightarrow> 'd JObject list \<Rightarrow> nat \<Rightarrow> ('d JObject \<times> nat) outcome"
  and ParseDict_loop :: "(string \<Rightarrow> 'd) \<Rightarrow> nat \<Rightarrow> string \<Rightarrow> (string \<times> 'd JObject) list \<Rightarrow> nat \<Rightarrow> ('d JObject \<times> nat) outcome" where
  "Parse rd 0 s idx = Fault Stuck"
| "Parse rd (Suc n) s idx =
     bind_outcome (GetNextToken n s idx) (\<lambda>(token, idx).
     if token = CHR ''n'' then ParseNull s idx
     else if token = CHR ''t'' \<or> token = CHR ''f'' then ParseBool s idx
     else if token = CHR ''-'' \<or> isdigit token then ParseNumber rd s idx
     else if token = CHR 0x22 then ParseString s idx
     else if token = CHR ''['' then
       bind_outcome (GetNextToken n s (idx + 1)) (\<lambda>(ch, i).
         if ch = CHR '']'' then Return (T_LIST [], i + 1) else ParseList_loop rd n s [] i)
     else if token = CHR ''{'' then
       bind_outcome (GetNextToken n s (idx + 1)) (\<lambda>(ch, i).
         if ch = CHR ''}'' then Return (T_DICT [], i + 1) else ParseDict_loop rd n s [] i)
     else Fault Uncaught)"
| "ParseList_loop rd 0 s arr idx = Fault Stuck"
| "ParseList_loop rd (Suc n) s arr idx =
     bind_outcome (Parse rd n s idx) (\<lambda>(v, i).
     bind_outcome (GetNextToken n s i) (\<lambda>(ch, i).
       if ch = CHR '']'' then Return (T_LIST (arr @ [v]), i + 1)
       else if ch \<noteq> CHR '','' then Fault Uncaught
       else ParseList_loop rd n s (arr @ [v]) (i + 1)))"
| "ParseDict_loop rd 0 s dict idx = Fault Stuck"
| "ParseDict_loop rd (Suc n) s dict idx =
     bind_outcome (Parse rd n s idx) (\<lambda>(k, i).
     bind_outcome (Value_str k) (\<lambda>key.
     bind_outcome (GetNextToken n s i) (\<lambda>(ch, i).
       if ch \<noteq> CHR '':'' then Fault Uncaught
       else bind_outcome (Parse rd n s (i + 1)) (\<lambda>(v, i).
            bind_outcome (GetNextToken n s i) (\<lambda>(ch, i).
              if ch = CHR ''}'' then Return (T_DICT (smap_put key v dict), i + 1)
              else if ch \<noteq> CHR '','' then Fault Uncaught
              else ParseDict_loop rd n s (smap_put key v dict) (i + 1))))))"

definition TrimRight :: "string \<Rightarrow> string" where
  "TrimRight s = rev (dropWhile isspace (rev s))"

definition FromString :: "(string \<Rightarrow> 'd) \<Rightarrow> nat \<Rightarrow> string \<Rightarrow> 'd JObject outcome" where
  "FromString rd n content = bind_outcome (Parse rd n (TrimRight content) 0) (\<lambda>(v, _). Return v)"

text \<open>The conversions of a struct by the functions \<open>_to_json\<close> and \<open>_from_json\<close> it defines, which
  are parameters.\<close>

definition ToJSON :: "('d \<Rightarrow> string) \<Rightarrow> ('a \<Rightarrow> 'd JObject \<Rightarrow> 'd JObject outcome) \<Rightarrow> 'a \<Rightarrow> string outcome" where
  "ToJSON sd to_json src = bind_outcome (to_json src (T_DICT [])) (\<lambda>obj. Return (ToString sd obj))"

definition FromJson :: "(string \<Rightarrow> 'd) \<Rightarrow> nat \<Rightarrow> ('d JObject \<Rightarrow> 'a outcome) \<Rightarrow> string \<Rightarrow> 'a outcome" where
  "FromJson rd n from_json src =
     bind_outcome (FromString rd n src) (\<lambda>obj. case obj of T_DICT _ \<Rightarrow> from_json obj | _ \<Rightarrow> Fault Uncaught)"

end
