(* ===== verification/Json_Correct.thy ===== *)
theory Json_Correct
  imports Json
begin

text \<open>
  The parser of \<open>Json\<close> gives back the value whose text it is given, for values without
  doubles and negative numbers whose strings have no quotes and backslashes. Where it does
  not return.
\<close>

section \<open>Reading at a position\<close>

lemma char_at_here [simp]: "char_at (pre @ c # r) (length pre) = Return c"
  by (simp add: char_at_def)

lemma skip_while_here [simp]: "skip_while P (pre @ r) (length pre) = Return (length pre + length (takeWhile P r))"
  by (simp add: skip_while_def)

lemma compare_here [simp]: "compare_at (pre @ r) (length pre) t = Return (take (length t) r = t)"
  by (simp add: compare_at_def)

lemma token_here:
  assumes "\<not> isspace c" and "c \<noteq> CHR ''/''"
  shows "GetNextToken n (pre @ c # r) (length pre) = Return (c, length pre)"
  using assms by (simp add: GetNextToken_def SkipComment_def)

lemma shift: "pre @ x @ post = (pre @ x) @ post" "length pre + length x = length (pre @ x)"
  by simp_all

lemma find_sub_char: "c \<notin> set s \<Longrightarrow> find_sub (s @ c # r) [c] = Some (length s)"
  by (induction s) auto

lemma find_char_here: "c \<notin> set s \<Longrightarrow> find_char c (pre @ s @ c # r) (length pre) = Some (length pre + length s)"
  by (simp add: find_char_def find_from_def find_sub_char)

section \<open>Plain values\<close>

definition plain_str :: "string \<Rightarrow> bool" where
  "plain_str s \<longleftrightarrow> CHR 0x22 \<notin> set s \<and> CHR 0x5C \<notin> set s"

fun plain :: "'d JObject \<Rightarrow> bool" where
  "plain T_NULL = True"
| "plain (T_BOOL b) = True"
| "plain (T_INT i) = (0 \<le> i \<and> i < 2 ^ 31)"
| "plain (T_DOUBLE d) = False"
| "plain (T_STR s) = plain_str s"
| "plain (T_LIST l) = list_all plain l"
| "plain (T_DICT m) = (sorted_keys m \<and> list_all (\<lambda>(k, v). plain_str k \<and> plain v) m)"

text \<open>Fuel that is enough to parse the text of a value.\<close>

fun jfuel :: "'d JObject \<Rightarrow> nat" where
  "jfuel (T_LIST l) = 2 + sum_list (map (\<lambda>v. Suc (jfuel v)) l)"
| "jfuel (T_DICT m) = 2 + sum_list (map (\<lambda>(k, v). 2 + jfuel v) m)"
| "jfuel _ = 1"

definition follow :: "string \<Rightarrow> bool" where
  "follow post \<longleftrightarrow> post = [] \<or> hd post \<in> {CHR '','', CHR '']'', CHR ''}''}"

definition parses :: "(string \<Rightarrow> 'd) \<Rightarrow> ('d \<Rightarrow> string) \<Rightarrow> 'd JObject \<Rightarrow> bool" where
  "parses rd sd j \<longleftrightarrow> (\<forall>n pre post. jfuel j \<le> n \<longrightarrow> follow post \<longrightarrow>
     Parse rd n (pre @ ToString sd j @ post) (length pre) = Return (j, length pre + length (ToString sd j)))"

text \<open>The first character of the text of a plain value starts a token and closes nothing.\<close>

definition starts :: "char \<Rightarrow> bool" where
  "starts c \<longleftrightarrow> \<not> isspace c \<and> c \<notin> {CHR ''/'', CHR '']'', CHR ''}''}"

lemma digits_start: "ToString sd (T_INT i) = c # r \<Longrightarrow> 0 \<le> i \<Longrightarrow> isdigit c"
  using to_string_digits [of "nat i"] by (auto simp: int_str_def)

lemma plain_starts:
  assumes "plain j" shows "\<exists>c r. ToString sd j = c # r \<and> starts c"
proof (cases j)
  case (T_INT i)
  obtain c r where c: "ToString sd (T_INT i) = c # r"
    using to_string_nonempty [of "nat i"] by (cases "ToString sd (T_INT i :: 'a JObject)") (auto simp: int_str_def split: if_splits)
  then have "isdigit c" using digits_start [OF c] assms T_INT by simp
  then have "starts c" by (auto simp: starts_def isdigit_def isspace_def)
  with c T_INT show ?thesis by blast
qed (use assms in \<open>auto simp: starts_def isspace_def\<close>)

section \<open>Scalars\<close>

lemma follow_digits:
  assumes "list_all isdigit ds" and "follow post"
  shows "takeWhile isdigit (ds @ post) = ds"
proof -
  have "takeWhile isdigit post = []" using assms(2) by (cases post) (auto simp: follow_def isdigit_def)
  then show ?thesis using assms(1) by (simp add: takeWhile_append list_all_iff)
qed

lemma char_at_follow: "follow post \<Longrightarrow> \<exists>c. char_at (pre @ post) (length pre) = Return c \<and> c \<noteq> CHR ''.''"
  by (cases post) (auto simp: char_at_def follow_def)

lemma parses_int:
  assumes "0 \<le> i" and "i < 2 ^ 31" shows "parses rd sd (T_INT i)"
  unfolding parses_def
proof (intro allI impI)
  fix n pre post assume n: "jfuel (T_INT i :: 'a JObject) \<le> n" and f: "follow post"
  let ?d = "to_string (nat i)"
  have t: "ToString sd (T_INT i) = ?d" using assms(1) by (simp add: int_str_def)
  obtain m where m: "n = Suc m" using n by (cases n) auto
  obtain c r where c: "?d = c # r" using to_string_nonempty by (cases ?d) auto
  have dig: "isdigit c" "list_all isdigit ?d" using to_string_digits [of "nat i"] c by auto
  then have nt: "\<not> isspace c" "c \<noteq> CHR ''/''" "c \<noteq> CHR ''n''" "c \<noteq> CHR ''t''" "c \<noteq> CHR ''f''"
    by (auto simp: isdigit_def isspace_def)
  obtain e where e: "char_at (pre @ ?d @ post) (length pre + length ?d) = Return e" "e \<noteq> CHR ''.''"
    using char_at_follow [OF f, of "pre @ ?d"] by auto
  have tw: "takeWhile isdigit (?d @ post) = ?d" using follow_digits [OF dig(2) f] .
  have "sint (word_of_int i :: 32 word) = i" using assms by (simp add: signed_of_int signed_take_bit_int_eq_self)
  then have v: "int_of_digits ?d = i" using assms by (simp add: int_of_digits_def min_def)
  have "GetNextToken m (pre @ ?d @ post) (length pre) = Return (c, length pre)" using token_here nt c by simp
  moreover have "ParseNumber rd (pre @ ?d @ post) (length pre) = Return (T_INT i, length pre + length ?d)"
    using dig(1) tw e v char_at_here [of pre c "r @ post"] c by (simp add: ParseNumber_def)
  ultimately show "Parse rd n (pre @ ToString sd (T_INT i) @ post) (length pre) = Return (T_INT i, length pre + length (ToString sd (T_INT i)))"
    using m t dig(1) nt by simp
qed

lemma string_text:
  assumes "plain_str s" and "1 \<le> n"
  shows "Parse rd n (pre @ CHR 0x22 # s @ CHR 0x22 # post) (length pre) = Return (T_STR s, length (pre @ CHR 0x22 # s @ [CHR 0x22]))"
proof -
  obtain m where m: "n = Suc m" using assms(2) by (cases n) auto
  let ?t = "pre @ CHR 0x22 # s @ CHR 0x22 # post"
  have f: "find_char (CHR 0x22) ?t (length pre + 1) = Some (length pre + 1 + length s)"
    using find_char_here [of "CHR 0x22" s "pre @ [CHR 0x22]" post] assms by (simp add: plain_str_def)
  have "?t ! (length pre + length s) \<noteq> CHR 0x5C"
  proof (cases s rule: rev_cases)
    case (snoc s' c)
    then have "c \<noteq> CHR 0x5C" using assms by (auto simp: plain_str_def)
    with snoc show ?thesis by (simp add: nth_append)
  qed simp
  then have "string_end ?t (length pre + 1 + length s) = Return (length pre + 1 + length s)" by (simp add: string_end.simps)
  then have "ParseString ?t (length pre) = Return (T_STR s, length pre + length s + 2)" using f by (simp add: ParseString_def)
  moreover have "GetNextToken m ?t (length pre) = Return (CHR 0x22, length pre)" by (rule token_here) (simp_all add: isspace_def)
  ultimately show ?thesis using m by (simp add: isdigit_def)
qed

lemma parses_str: "plain_str s \<Longrightarrow> parses rd sd (T_STR s)"
  using string_text [of s _ rd] by (simp add: parses_def)

lemma parses_word:
  assumes "j = T_NULL \<or> j = T_BOOL b" shows "parses rd sd j"
  unfolding parses_def
proof (intro allI impI)
  fix n pre post assume n: "jfuel j \<le> n"
  obtain m where m: "n = Suc m" using n assms by (cases n) auto
  have c: "GetNextToken m (pre @ c # r) (length pre) = Return (c, length pre)" if "c \<in> {CHR ''n'', CHR ''t'', CHR ''f''}" for c r
    using that by (intro token_here) (auto simp: isspace_def)
  have k: "compare_at (pre @ r) (length pre) t = Return (take (length t) r = t)" for r t by simp
  show "Parse rd n (pre @ ToString sd j @ post) (length pre) = Return (j, length pre + length (ToString sd j))"
    using assms m
    by (cases b) (auto simp: c k ParseNull_def ParseBool_def simp del: compare_here)
qed

section \<open>Lists and dictionaries\<close>

lemma commas_Cons: "commas (x # xs) = x @ (if xs = [] then [] else CHR '','' # commas xs)"
  by (cases xs) simp_all

lemma closing_token: "c \<in> {CHR '','', CHR '']'', CHR ''}'', CHR '':''} \<Longrightarrow> GetNextToken n (pre @ c # r) (length pre) = Return (c, length pre)"
  by (rule token_here) (auto simp: isspace_def)

lemma parsesD:
  "parses rd sd j \<Longrightarrow> jfuel j \<le> n \<Longrightarrow> follow post \<Longrightarrow>
   Parse rd n (pre @ ToString sd j @ post) (length pre) = Return (j, length (pre @ ToString sd j))"
  by (simp add: parses_def)

lemma list_loop:
  assumes "\<forall>v \<in> set l. parses rd sd v" and "l \<noteq> []" and "sum_list (map (\<lambda>v. Suc (jfuel v)) l) \<le> n"
  shows "ParseList_loop rd n (pre @ commas (map (ToString sd) l) @ CHR '']'' # post) arr (length pre)
    = Return (T_LIST (arr @ l), length pre + length (commas (map (ToString sd) l)) + 1)"
  using assms
proof (induction l arbitrary: n pre arr)
  case (Cons v l)
  then obtain m where m: "n = Suc m" by (cases n) auto
  let ?v = "ToString sd v"
  show ?case
  proof (cases "l = []")
    case True
    have "Parse rd m (pre @ ?v @ CHR '']'' # post) (length pre) = Return (v, length (pre @ ?v))"
      using Cons.prems m by (intro parsesD) (auto simp: follow_def)
    moreover have "GetNextToken m ((pre @ ?v) @ CHR '']'' # post) (length (pre @ ?v)) = Return (CHR '']'', length (pre @ ?v))"
      by (rule closing_token) simp
    ultimately show ?thesis using True m by simp
  next
    case False
    let ?r = "commas (map (ToString sd) l) @ CHR '']'' # post"
    have "Parse rd m (pre @ ?v @ CHR '','' # ?r) (length pre) = Return (v, length (pre @ ?v))"
      using Cons.prems m by (intro parsesD) (auto simp: follow_def)
    moreover have "GetNextToken m ((pre @ ?v) @ CHR '','' # ?r) (length (pre @ ?v)) = Return (CHR '','', length (pre @ ?v))"
      by (rule closing_token) simp
    moreover have "ParseList_loop rd m ((pre @ ?v @ '','') @ ?r) (arr @ [v]) (length (pre @ ?v @ '',''))
        = Return (T_LIST ((arr @ [v]) @ l), length (pre @ ?v @ '','') + length (commas (map (ToString sd) l)) + 1)"
      using Cons.prems False m by (intro Cons.IH) auto
    ultimately show ?thesis using False m by (simp add: commas_Cons)
  qed
qed simp

abbreviation entry_str :: "('d \<Rightarrow> string) \<Rightarrow> string \<times> 'd JObject \<Rightarrow> string" where
  "entry_str sd \<equiv> \<lambda>(k, v). CHR 0x22 # k @ CHR 0x22 # CHR '':'' # ToString sd v"

lemma smap_put_last: "(\<And>k'. k' \<in> fst ` set m \<Longrightarrow> k' < k) \<Longrightarrow> smap_put k v m = m @ [(k, v)]"
proof (induction m)
  case (Cons e m)
  then have "\<not> k < fst e" "k \<noteq> fst e" using order.asym by fastforce+
  with Cons show ?case by (cases e) simp
qed simp

text \<open>One entry of a dictionary, up to the value.\<close>

lemma entry_step:
  assumes "plain_str k" and "parses rd sd v" and "jfuel v \<le> m" and "1 \<le> m" and "follow post"
  shows "ParseDict_loop rd (Suc m) (pre @ entry_str sd (k, v) @ post) dict (length pre)
    = bind_outcome (GetNextToken m (pre @ entry_str sd (k, v) @ post) (length (pre @ entry_str sd (k, v)))) (\<lambda>(ch, i).
        if ch = CHR ''}'' then Return (T_DICT (smap_put k v dict), i + 1)
        else if ch \<noteq> CHR '','' then Fault Uncaught
        else ParseDict_loop rd m (pre @ entry_str sd (k, v) @ post) (smap_put k v dict) (i + 1))"
proof -
  let ?s = "pre @ entry_str sd (k, v) @ post" and ?q = "pre @ CHR 0x22 # k @ [CHR 0x22]"
  have 1: "Parse rd m ?s (length pre) = Return (T_STR k, length ?q)"
    using string_text [OF assms(1,4), of rd pre "CHR '':'' # ToString sd v @ post"] by simp
  have 2: "GetNextToken m ?s (length ?q) = Return (CHR '':'', length ?q)"
    using closing_token [of "CHR '':''" m ?q "ToString sd v @ post"] by simp
  have 3: "Parse rd m ?s (length ?q + 1) = Return (v, length (pre @ entry_str sd (k, v)))"
    using parsesD [OF assms(2,3,5), of "?q @ '':''"] by simp
  show ?thesis unfolding ParseDict_loop.simps 1 using 2 3 by simp
qed

lemma dict_loop:
  assumes "\<forall>(k, v) \<in> set l. plain_str k \<and> parses rd sd v" and "l \<noteq> []" and "sum_list (map (\<lambda>(k, v). 2 + jfuel v) l) \<le> n"
    and "sorted_keys (dict @ l)"
  shows "ParseDict_loop rd n (pre @ commas (map (entry_str sd) l) @ CHR ''}'' # post) dict (length pre)
    = Return (T_DICT (dict @ l), length pre + length (commas (map (entry_str sd) l)) + 1)"
  using assms
proof (induction l arbitrary: n pre dict)
  case (Cons e l)
  obtain k v where e: "e = (k, v)" by (cases e)
  obtain m where m: "n = Suc m" "jfuel v \<le> m" "1 \<le> m" using Cons.prems(3) e by (cases n) auto
  have kv: "plain_str k" "parses rd sd v" using Cons.prems(1) e by auto
  have put: "smap_put k v dict = dict @ [(k, v)]"
    using Cons.prems(4) e by (intro smap_put_last) (auto simp: sorted_keys_def sorted_wrt_append)
  let ?e = "entry_str sd (k, v)"
  show ?case
  proof (cases "l = []")
    case True
    have "GetNextToken m ((pre @ ?e) @ CHR ''}'' # post) (length (pre @ ?e)) = Return (CHR ''}'', length (pre @ ?e))"
      by (rule closing_token) simp
    then show ?thesis using entry_step [OF kv m(2,3), of "CHR ''}'' # post" pre dict] put True e m(1) by (simp add: follow_def)
  next
    case False
    let ?r = "commas (map (entry_str sd) l) @ CHR ''}'' # post"
    have "GetNextToken m ((pre @ ?e) @ CHR '','' # ?r) (length (pre @ ?e)) = Return (CHR '','', length (pre @ ?e))"
      by (rule closing_token) simp
    moreover have "ParseDict_loop rd m ((pre @ ?e @ '','') @ ?r) (dict @ [(k, v)]) (length (pre @ ?e @ '',''))
        = Return (T_DICT ((dict @ [(k, v)]) @ l), length (pre @ ?e @ '','') + length (commas (map (entry_str sd) l)) + 1)"
      using Cons.prems False m e by (intro Cons.IH) auto
    ultimately show ?thesis using entry_step [OF kv m(2,3), of "CHR '','' # ?r" pre dict] put False e m(1)
      by (simp add: follow_def commas_Cons)
  qed
qed simp

lemma starts_token: "starts c \<Longrightarrow> GetNextToken n (pre @ c # r) (length pre) = Return (c, length pre)"
  by (rule token_here) (auto simp: starts_def)

lemma parses_list:
  assumes "\<forall>v \<in> set l. plain v \<and> parses rd sd v" shows "parses rd sd (T_LIST l)"
  unfolding parses_def
proof (intro allI impI)
  fix n pre post assume n: "jfuel (T_LIST l) \<le> n"
  then obtain m where m: "n = Suc m" "sum_list (map (\<lambda>v. Suc (jfuel v)) l) \<le> m" by (cases n) auto
  let ?c = "commas (map (ToString sd) l)" and ?q = "pre @ ''[''"
  have o: "GetNextToken m (pre @ CHR ''['' # r) (length pre) = Return (CHR ''['', length pre)" for r
    by (rule starts_token) (simp add: starts_def isspace_def)
  show "Parse rd n (pre @ ToString sd (T_LIST l) @ post) (length pre) = Return (T_LIST l, length pre + length (ToString sd (T_LIST l)))"
  proof (cases l)
    case Nil
    then show ?thesis using m o closing_token [of "CHR '']''" m ?q post] by (simp add: isdigit_def)
  next
    case (Cons v l')
    obtain c r where "ToString sd v = c # r" "starts c" using plain_starts assms Cons by (metis list.set_intros(1))
    then obtain r' where c: "?c = c # r'" "starts c" using Cons by (simp add: commas_Cons)
    have "GetNextToken m (?q @ c # r' @ CHR '']'' # post) (length ?q) = Return (c, length ?q)" by (rule starts_token [OF c(2)])
    moreover have "ParseList_loop rd m (?q @ ?c @ CHR '']'' # post) [] (length ?q) = Return (T_LIST ([] @ l), length ?q + length ?c + 1)"
      using assms Cons m(2) by (intro list_loop) auto
    ultimately show ?thesis using m(1) o c by (simp add: isdigit_def starts_def)
  qed
qed

lemma parses_dict:
  assumes "\<forall>(k, v) \<in> set l. plain_str k \<and> parses rd sd v" and "sorted_keys l" shows "parses rd sd (T_DICT l)"
  unfolding parses_def
proof (intro allI impI)
  fix n pre post assume n: "jfuel (T_DICT l) \<le> n"
  then obtain m where m: "n = Suc m" "sum_list (map (\<lambda>(k, v). 2 + jfuel v) l) \<le> m" by (cases n) auto
  let ?c = "commas (map (entry_str sd) l)" and ?q = "pre @ ''{''"
  have o: "GetNextToken m (pre @ CHR ''{'' # r) (length pre) = Return (CHR ''{'', length pre)" for r
    by (rule starts_token) (simp add: starts_def isspace_def)
  show "Parse rd n (pre @ ToString sd (T_DICT l) @ post) (length pre) = Return (T_DICT l, length pre + length (ToString sd (T_DICT l)))"
  proof (cases l)
    case Nil
    then show ?thesis using m o closing_token [of "CHR ''}''" m ?q post] by (simp add: isdigit_def)
  next
    case (Cons e l')
    obtain r' where c: "?c = CHR 0x22 # r'" using Cons by (cases e) (simp add: commas_Cons)
    have "GetNextToken m (?q @ CHR 0x22 # r' @ CHR ''}'' # post) (length ?q) = Return (CHR 0x22, length ?q)"
      by (rule starts_token) (simp add: starts_def isspace_def)
    moreover have "ParseDict_loop rd m (?q @ ?c @ CHR ''}'' # post) [] (length ?q) = Return (T_DICT ([] @ l), length ?q + length ?c + 1)"
      using assms Cons m(2) by (intro dict_loop) auto
    ultimately show ?thesis using m(1) o c by (simp add: isdigit_def)
  qed
qed

lemma plain_parses: "plain j \<Longrightarrow> parses rd sd j"
proof (induction j)
  case (T_LIST l)
  then show ?case by (intro parses_list) (auto simp: list_all_iff)
next
  case (T_DICT l)
  then show ?case by (intro parses_dict) (fastforce simp: list_all_iff)+
qed (simp_all add: parses_word parses_int parses_str)

lemma plain_no_trim:
  assumes "plain j" shows "TrimRight (ToString sd j) = ToString sd j"
proof -
  have "ToString sd j \<noteq> [] \<and> \<not> isspace (last (ToString sd j))"
  proof (cases j)
    case (T_INT i)
    then show ?thesis using assms to_string_digits [of "nat i"] to_string_nonempty [of "nat i"] digit_not_space
      by (auto simp: int_str_def list_all_iff last_in_set)
  qed (use assms in \<open>auto simp: isspace_def\<close>)
  then show ?thesis by (cases "ToString sd j" rule: rev_cases) (simp_all add: TrimRight_def)
qed

text \<open>
  C14. Parsing the text of a JSON value gives the value back, with fuel that grows with the
  value: for null, booleans, numbers from 0 to \<open>2 ^ 31 - 1\<close>, strings without quotes and
  backslashes, and lists and dictionaries of such values.
\<close>

theorem json_roundtrip:
  assumes "plain j" and "jfuel j \<le> n"
  shows "FromString rd n (ToString sd j) = Return j"
  using plain_parses [OF assms(1), of rd sd] assms plain_no_trim [OF assms(1), of sd]
    parsesD [of rd sd j n "[]" "[]"] by (simp add: FromString_def follow_def)

definition ex_json :: "nat JObject" where
  "ex_json = T_DICT [(''a'', T_LIST [T_INT 12, T_NULL, T_STR ''x // y'']), (''b'', T_DICT []), (''c'', T_BOOL True)]"

theorem json_roundtrip_witness:
  "FromString (\<lambda>_. 0) 20 ''{\"a\":[12,null,\"x // y\"],\"b\":{},\"c\":true}'' = Return ex_json"
proof -
  have "ToString (\<lambda>_. []) ex_json = ''{\"a\":[12,null,\"x // y\"],\"b\":{},\"c\":true}''" by code_simp
  moreover have "plain ex_json" "jfuel ex_json \<le> 20" by code_simp+
  ultimately show ?thesis using json_roundtrip [of ex_json 20 "\<lambda>_. 0" "\<lambda>_. []"] by metis
qed

section \<open>A comment that ends the text\<close>

lemma find_char_absent: "c \<notin> set (drop i s) \<Longrightarrow> find_char c s i = None"
proof -
  have "find_sub t [c] = None" if "c \<notin> set t" for t using that by (induction t) auto
  then show "c \<notin> set (drop i s) \<Longrightarrow> ?thesis" by (simp add: find_char_def find_from_def)
qed

text \<open>
  Where a token is expected and a comment without a line end follows, the token is the first one of the text: the
  position \<open>npos + 1\<close> is 0.
\<close>

lemma comment_restart:
  assumes "list_all isspace ws" and "CHR 0x0A \<notin> set cs" and "b # p @ ws @ ''//'' @ cs = s" and "\<not> isspace b" and "b \<noteq> CHR ''/''"
  shows "GetNextToken (Suc n) s (Suc (length p)) = Return (b, 0)"
proof -
  have "takeWhile isspace (ws @ ''//'' @ cs) = ws" using assms(1) by (simp add: takeWhile_append2 list_all_iff isspace_def)
  then have w: "skip_while isspace s (Suc (length p)) = Return (Suc (length (p @ ws)))" using assms(3) by (auto simp: skip_while_def)
  have d: "drop (Suc (length (p @ ws))) s = ''//'' @ cs" "Suc (length (p @ ws)) < length s" using assms(3) by auto
  then have "find_char (CHR 0x0A) s (Suc (length (p @ ws))) = None" using assms(2) by (intro find_char_absent) simp
  moreover have "skip_while isspace s 0 = Return 0" "compare_at s 0 ''//'' = Return False" "char_at s 0 = Return b"
    using assms(3-5) by (auto simp: skip_while_def compare_at_def char_at_def)
  moreover have "compare_at s (Suc (length (p @ ws))) ''//'' = Return True" using d by (simp add: compare_at_def)
  ultimately show ?thesis using w d(2) by (simp add: GetNextToken_def SkipComment_def)
qed

lemma token_at_front:
  assumes "s = b # t" and "\<not> isspace b" and "b \<noteq> CHR ''/''"
  shows "GetNextToken n s 0 = Return (b, 0)"
  using assms by (simp add: GetNextToken_def SkipComment_def skip_while_def compare_at_def char_at_def)

lemma comment_no_fuel:
  assumes "list_all isspace ws" and "s = b # ws @ ''//'' @ cs"
  shows "GetNextToken 0 s 1 = Fault Stuck"
proof -
  have "takeWhile isspace (ws @ ''//'' @ cs) = ws" using assms(1) by (simp add: takeWhile_append2 list_all_iff isspace_def)
  then show ?thesis using assms(2) by (simp add: GetNextToken_def SkipComment_def skip_while_def compare_at_def)
qed

lemma open_comment_stuck:
  assumes "list_all isspace ws" and "CHR 0x0A \<notin> set cs" and s: "s = b # ws @ ''//'' @ cs" and b: "b = CHR ''['' \<or> b = CHR ''{''"
  shows "Parse rd n s 0 = Fault Stuck \<and> ParseList_loop rd n s [] 0 = Fault Stuck \<and> ParseDict_loop rd n s [] 0 = Fault Stuck"
proof (induction n rule: less_induct)
  case (less n)
  have front: "GetNextToken m s 0 = Return (b, 0)" for m using token_at_front [OF s] b by (auto simp: isspace_def)
  have next1: "GetNextToken m s (Suc 0) = (if m = 0 then Fault Stuck else Return (b, 0))" for m
    using comment_no_fuel [OF assms(1) s] comment_restart [OF assms(1,2), of b "[]" s "m - 1"] s b by (auto simp: isspace_def)
  show ?case
  proof (cases n)
    case (Suc m)
    show ?thesis using less [of m] Suc front [of m] next1 [of m] b by (auto simp: isdigit_def)
  qed simp
qed

lemma TrimRight_comment: "\<exists>cs'. TrimRight (p @ ''//'' @ cs) = p @ ''//'' @ cs' \<and> set cs' \<subseteq> set cs"
proof -
  have "TrimRight (p @ ''//'' @ cs) = p @ ''//'' @ rev (dropWhile isspace (rev cs))"
    by (simp add: TrimRight_def dropWhile_append isspace_def dropWhile_eq_Nil_conv)
  then show ?thesis by (auto dest: set_dropWhileD)
qed

text \<open>
  C36. A list or a dictionary that opens with a comment which ends the text is not an error: the parser takes the
  comment for the start of the text, opens the list or the dictionary again, and so on, and never returns, whatever the fuel.
\<close>

theorem comment_loops:
  assumes "b = CHR ''['' \<or> b = CHR ''{''" and "list_all isspace ws" and "CHR 0x0A \<notin> set cs"
  shows "FromString rd n (b # ws @ ''//'' @ cs) = Fault Stuck"
proof -
  obtain cs' where cs': "TrimRight ((b # ws) @ ''//'' @ cs) = (b # ws) @ ''//'' @ cs'" "set cs' \<subseteq> set cs" using TrimRight_comment by blast
  then have "CHR 0x0A \<notin> set cs'" using assms(3) by blast
  from open_comment_stuck [OF assms(2) this refl assms(1), of rd n] show ?thesis using cs'(1) by (simp add: FromString_def)
qed

theorem comment_loops_witness: "FromString (\<lambda>_. 0 :: nat) 1000 ''[ // nothing yet '' = Fault Stuck"
  using comment_loops [of "CHR ''[''" "'' ''" "'' nothing yet ''" "\<lambda>_. 0 :: nat" 1000] by (simp add: isspace_def)

end
