(* ===== verification/Http.thy ===== *)
theory Http
  imports Packets Timers Str_Utils "HOL-Library.AList"
begin

text \<open>
  \<^verbatim>\<open>net/http/\<close>: requests and their parser, responses, the context and the router, and the
  server's loop over a connection. Strings of characters are converted to the bytes of a
  connection by \<open>str\<close> and back by \<open>unstr\<close>.

  The order in which an \<open>unordered_map\<close> is iterated is the parameter \<open>ord\<close>, the handlers
  of the router are functions on contexts, and the state of a file that is sent is an argument.
  Messages to the logger are left out; \<open>LOG_FATAL\<close> ends the process.
\<close>

section \<open>Requests\<close>

definition MAX_REQUEST_SIZE :: nat where
  "MAX_REQUEST_SIZE = 1024 * 64"

record HttpRequest =
  rq_method :: string
  rq_url :: string
  rq_uri :: string
  rq_version :: string
  rq_body :: string
  rq_headers :: "string \<rightharpoonup> string"
  rq_url_params :: "string \<rightharpoonup> string"
  rq_body_params :: "string \<rightharpoonup> string"

definition HttpRequest_init :: HttpRequest where
  "HttpRequest_init = \<lparr>rq_method = [], rq_url = [], rq_uri = [], rq_version = [], rq_body = [],
     rq_headers = Map.empty, rq_url_params = Map.empty, rq_body_params = Map.empty\<rparr>"

definition CRLF :: string where
  "CRLF = [CHR 0x0D, CHR 0x0A]"

text \<open>\<open>Split\<close> at a literal that is not empty.\<close>

definition split_at :: "string \<Rightarrow> string \<Rightarrow> bool \<Rightarrow> string list" where
  "split_at s delim keep_empty = (case Split s delim keep_empty of Return ps \<Rightarrow> ps | Fault _ \<Rightarrow> [])"

text \<open>The views that \<open>Trim\<close> returns are not used, so keys and values keep their blanks.\<close>

definition header_step :: "(string \<rightharpoonup> string) \<Rightarrow> string \<Rightarrow> (string \<rightharpoonup> string)" where
  "header_step hs line =
     (if line \<noteq> [] \<and> Contains line '':''
      then case split_at line '':'' False of [key, value] \<Rightarrow> hs(key \<mapsto> value) | _ \<Rightarrow> hs
      else hs)"

definition ParseHeaders :: "string list \<Rightarrow> HttpRequest \<Rightarrow> HttpRequest" where
  "ParseHeaders headers rq = rq\<lparr>rq_headers := foldl header_step (rq_headers rq) (drop 1 headers)\<rparr>"

definition param_step :: "(string \<rightharpoonup> string) \<Rightarrow> string \<Rightarrow> (string \<rightharpoonup> string)" where
  "param_step ps param = (case split_at param ''='' True of [key, value] \<Rightarrow> ps(key \<mapsto> value) | _ \<Rightarrow> ps)"

definition ParseURLParams :: "string \<Rightarrow> HttpRequest \<Rightarrow> HttpRequest" where
  "ParseURLParams url rq = rq\<lparr>rq_url_params := foldl param_step (rq_url_params rq) (split_at url ''&'' True)\<rparr>"

definition ParseBody :: "string \<Rightarrow> HttpRequest \<Rightarrow> HttpRequest" where
  "ParseBody body rq = rq\<lparr>rq_body_params := foldl param_step (rq_body_params rq) (split_at body ''&'' True)\<rparr>"

definition ParseLine :: "string \<Rightarrow> HttpRequest \<Rightarrow> HttpRequest outcome" where
  "ParseLine line rq =
     (case split_at line '' '' True of
        m # u # v # _ \<Rightarrow>
          let rq = rq\<lparr>rq_method := m, rq_url := u, rq_version := v\<rparr>
          in Return (case split_at u ''&'' True of
               [uri, params] \<Rightarrow> ParseURLParams params (rq\<lparr>rq_uri := uri\<rparr>)
             | _ \<Rightarrow> rq\<lparr>rq_uri := u\<rparr>)
      | _ \<Rightarrow> Fault OutOfBounds)"

definition HttpRequest_Parse :: "string \<Rightarrow> HttpRequest \<Rightarrow> HttpRequest outcome" where
  "HttpRequest_Parse data rq =
     (case split_at data (CRLF @ CRLF) True of
        head # body # _ \<Rightarrow>
          let rq = (if body \<noteq> [] then rq\<lparr>rq_body := body\<rparr> else rq)
          in (case split_at head CRLF False of
                [] \<Rightarrow> Fault OutOfBounds
              | line # headers \<Rightarrow> bind_outcome (ParseLine line rq) (\<lambda>rq.
                  Return (ParseBody body (ParseHeaders (line # headers) rq))))
      | _ \<Rightarrow> Fault OutOfBounds)"

section \<open>Responses\<close>

type_synonym header_order = "(string \<times> string) list \<Rightarrow> (string \<times> string) list"

record HttpResponse =
  rs_buffer :: string
  rs_status :: int
  rs_version :: string
  rs_headers :: "(string \<times> string) list"

text \<open>The status code has no initial value.\<close>

definition HttpResponse_init :: "int \<Rightarrow> HttpResponse" where
  "HttpResponse_init indeterminate = \<lparr>rs_buffer = [], rs_status = indeterminate, rs_version = [], rs_headers = []\<rparr>"

definition GetCodeDescript :: "int \<Rightarrow> string" where
  "GetCodeDescript status_code = (case map_of
    [(100, ''Continue''), (101, ''Switching Protocols''), (200, ''OK''), (201, ''Created''), (202, ''Accepted''),
     (203, ''Non-Authoritative Information''), (204, ''No Content''), (205, ''Reset Content''), (206, ''Partial Content''),
     (300, ''Multiple Choices''), (301, ''Moved Permanently''), (302, ''Found''), (303, ''See Other''), (304, ''Not Modified''),
     (305, ''Use Proxy''), (306, ''Unused''), (307, ''Temporary Redirect''), (400, ''Bad Request''), (401, ''Unauthorized''),
     (403, ''Forbidden''), (404, ''Not Found''), (405, ''Method Not Allowed''), (500, ''Internal Server Error''),
     (501, ''Not Implemented''), (502, ''Bad Gateway''), (503, ''Service Unavailable''), (504, ''Gateway Time-out''),
     (505, ''HTTP Version not supported'')] status_code of
      Some result \<Rightarrow> result | None \<Rightarrow> ''Unknow Code or Unsupported now'')"

definition SetStatusCode :: "int \<Rightarrow> HttpResponse \<Rightarrow> HttpResponse" where
  "SetStatusCode status_code rs = rs\<lparr>rs_status := status_code\<rparr>"

definition SetHeader :: "string \<Rightarrow> string \<Rightarrow> HttpResponse \<Rightarrow> HttpResponse" where
  "SetHeader key value rs = rs\<lparr>rs_headers := AList.update key value (rs_headers rs)\<rparr>"

definition SetHTTPVersion :: "string \<Rightarrow> HttpResponse \<Rightarrow> HttpResponse" where
  "SetHTTPVersion http_version rs = rs\<lparr>rs_version := http_version\<rparr>"

definition SetBody :: "header_order \<Rightarrow> string \<Rightarrow> HttpResponse \<Rightarrow> HttpResponse" where
  "SetBody ord body rs = rs\<lparr>rs_buffer :=
     rs_version rs @ '' '' @ int_str (rs_status rs) @ '' '' @ GetCodeDescript (rs_status rs) @ CRLF
     @ concat (map (\<lambda>(k, v). k @ '':'' @ v @ CRLF) (ord (rs_headers rs))) @ CRLF @ body @ CRLF\<rparr>"

definition Response_Clear :: "HttpResponse \<Rightarrow> HttpResponse" where
  "Response_Clear rs = rs\<lparr>rs_buffer := []\<rparr>"

definition GetFileType :: "string \<Rightarrow> string" where
  "GetFileType file_name =
     (case split_at file_name ''.'' True of
        [_, ext] \<Rightarrow> (case map_of
          [(''html'', ''text/html; charset=utf-8''), (''jpg'', ''image/jpeg''), (''gif'', ''image/gif''), (''png'', ''image/png''),
           (''css'', ''text/css''), (''au'', ''audio/basic''), (''wav'', ''audio/wav''), (''avi'', ''video/x-msvideo''),
           (''mov'', ''video/quicktime''), (''mpeg'', ''video/mpeg''), (''vrml'', ''model/vrml''), (''midi'', ''audio/midi''),
           (''mp3'', ''audio/mpeg''), (''ogg'', ''application/ogg''), (''pac'', ''application/x-ns-proxy-autoconfig'')] ext of
            Some t \<Rightarrow> t | None \<Rightarrow> [])
      | _ \<Rightarrow> ''text/plain;charset=utf-8'')"

section \<open>Contexts\<close>

record HttpContext =
  cx_req :: HttpRequest
  cx_res :: HttpResponse
  cx_path :: string
  cx_method :: string
  cx_status :: int

definition HttpContext_init :: "HttpRequest \<Rightarrow> HttpResponse \<Rightarrow> HttpContext" where
  "HttpContext_init req res =
     \<lparr>cx_req = req, cx_res = res, cx_path = rq_url req, cx_method = rq_method req, cx_status = 500\<rparr>"

definition QueryURL :: "string \<Rightarrow> HttpContext \<Rightarrow> string" where
  "QueryURL key ctx = (case rq_url_params (cx_req ctx) key of Some v \<Rightarrow> v | None \<Rightarrow> [])"

definition QueryBody :: "string \<Rightarrow> HttpContext \<Rightarrow> string" where
  "QueryBody key ctx = (case rq_body_params (cx_req ctx) key of Some v \<Rightarrow> v | None \<Rightarrow> [])"

definition Ctx_SetHeader :: "string \<Rightarrow> string \<Rightarrow> HttpContext \<Rightarrow> HttpContext" where
  "Ctx_SetHeader key value ctx = ctx\<lparr>cx_res := SetHeader key value (cx_res ctx)\<rparr>"

definition Ctx_Status :: "int \<Rightarrow> HttpContext \<Rightarrow> HttpContext" where
  "Ctx_Status code ctx = ctx\<lparr>cx_status := code, cx_res := SetStatusCode code (cx_res ctx)\<rparr>"

definition Ctx_SetBody :: "header_order \<Rightarrow> string \<Rightarrow> HttpContext \<Rightarrow> HttpContext" where
  "Ctx_SetBody ord body ctx = ctx\<lparr>cx_res := SetBody ord body (cx_res ctx)\<rparr>"

definition Ctx_String :: "header_order \<Rightarrow> int \<Rightarrow> string \<Rightarrow> string list \<Rightarrow> HttpContext \<Rightarrow> HttpContext" where
  "Ctx_String ord code fmt args ctx =
     Ctx_SetBody ord (Format fmt args) (Ctx_Status code (Ctx_SetHeader ''Content-Type'' ''text/plain'' ctx))"

text \<open>No body is set for JSON: the response stays empty.\<close>

definition Ctx_JSON :: "int \<Rightarrow> HttpContext \<Rightarrow> HttpContext" where
  "Ctx_JSON code ctx = Ctx_Status code (Ctx_SetHeader ''Content-Type'' ''application/json'' ctx)"

definition Ctx_HTML :: "header_order \<Rightarrow> int \<Rightarrow> string \<Rightarrow> HttpContext \<Rightarrow> HttpContext" where
  "Ctx_HTML ord code html ctx =
     Ctx_SetBody ord html (Ctx_Status code (Ctx_SetHeader ''Content-Type'' ''text/html'' ctx))"

section \<open>The router\<close>

type_synonym HandleFunc = "HttpContext \<Rightarrow> HttpContext outcome"

type_synonym Router = "string \<rightharpoonup> HandleFunc"

definition AddRouter :: "string \<Rightarrow> string \<Rightarrow> HandleFunc \<Rightarrow> Router \<Rightarrow> Router" where
  "AddRouter method url handler router =
     (if method = ''DELETE'' then router
      else if \<not> EndsWith url ''/'' then router
      else router(Join [method, url] ''-'' \<mapsto> handler))"

definition not_found_text :: "string \<Rightarrow> string \<Rightarrow> string" where
  "not_found_text method path = Format (''404 Not Found: {} not at {}'' @ [CHR 0x0A]) [method, path]"

definition Router_Handle :: "header_order \<Rightarrow> Router \<Rightarrow> HttpContext \<Rightarrow> HttpContext outcome" where
  "Router_Handle ord router ctx =
     (case router (Join [cx_method ctx, cx_path ctx] ''-'') of
        Some handler \<Rightarrow> handler ctx
      | None \<Rightarrow> Return (Ctx_HTML ord 404 (not_found_text (cx_method ctx) (cx_path ctx)) ctx))"

section \<open>The server\<close>

record HttpServer =
  hs_router :: Router
  hs_static_path :: string

definition Http_GET :: "string \<Rightarrow> HandleFunc \<Rightarrow> HttpServer \<Rightarrow> HttpServer" where
  "Http_GET url handler srv = srv\<lparr>hs_router := AddRouter ''GET'' url handler (hs_router srv)\<rparr>"

definition Http_POST :: "string \<Rightarrow> HandleFunc \<Rightarrow> HttpServer \<Rightarrow> HttpServer" where
  "Http_POST url handler srv = srv\<lparr>hs_router := AddRouter ''POST'' url handler (hs_router srv)\<rparr>"

definition Http_PUT :: "string \<Rightarrow> HandleFunc \<Rightarrow> HttpServer \<Rightarrow> HttpServer" where
  "Http_PUT url handler srv = srv\<lparr>hs_router := AddRouter ''PUT'' url handler (hs_router srv)\<rparr>"

definition Http_DELETE :: "string \<Rightarrow> HandleFunc \<Rightarrow> HttpServer \<Rightarrow> HttpServer" where
  "Http_DELETE url handler srv = srv\<lparr>hs_router := AddRouter ''DELETE'' url handler (hs_router srv)\<rparr>"

definition SetStaticPath :: "string \<Rightarrow> HttpServer \<Rightarrow> HttpServer outcome" where
  "SetStaticPath path srv =
     (case path of [] \<Rightarrow> Fault OutOfBounds
      | c # _ \<Rightarrow> if c \<noteq> CHR ''/'' then Fault ExitCall else Return (srv\<lparr>hs_static_path := path\<rparr>))"

text \<open>A response that is not sent whole is only logged.\<close>

definition SendResponse :: "HttpResponse \<Rightarrow> TcpConnection \<Rightarrow> HttpResponse \<times> TcpConnection" where
  "SendResponse response conn =
     (case AsyncWrite (str (rs_buffer response)) conn of (_, conn') \<Rightarrow> (Response_Clear response, conn'))"

definition ServerHTTP ::
    "header_order \<Rightarrow> HttpServer \<Rightarrow> HttpRequest \<Rightarrow> HttpResponse \<Rightarrow> TcpConnection \<Rightarrow> (HttpResponse \<times> TcpConnection) outcome" where
  "ServerHTTP ord srv http_request http_response conn =
     bind_outcome (Router_Handle ord (hs_router srv) (HttpContext_init http_request http_response)) (\<lambda>ctx.
       Return (SendResponse (cx_res ctx) conn))"

text \<open>The file of that path, if there is one: \<open>stat\<close> of a missing file leaves the size 0.\<close>

definition FileSize :: "bytes option \<Rightarrow> nat" where
  "FileSize file = (case file of None \<Rightarrow> 0 | Some b \<Rightarrow> length b)"

text \<open>The first \<open>read\<close> delivers the whole file, the second one its end.\<close>

definition SendFile :: "header_order \<Rightarrow> string \<Rightarrow> bytes option \<Rightarrow> HttpResponse \<Rightarrow> TcpConnection \<Rightarrow> HttpResponse \<times> TcpConnection" where
  "SendFile ord path file response conn =
     (let response = SetBody ord CRLF (SetHeader ''Content-Length:'' (to_string (FileSize file))
                       (SetHeader ''Content-Type:'' (GetFileType path) response));
          (response, conn) = SendResponse response conn
      in (response, case file of None \<Rightarrow> conn | Some b \<Rightarrow> if b = [] then conn else snd (AsyncWrite b conn)))"

text \<open>
  One read of the request loop, with the bytes as the C string they are used as. \<open>AsyncRead\<close> resizes the
  buffer to the bytes received, so the terminating zero is always written behind the end of the vector, which
  the language leaves undefined. The storage of the vector keeps its \<open>MAX_REQUEST_SIZE\<close> bytes: the model takes
  the write as it happens inside this storage, and as a fault where it leaves it.
\<close>

definition read_text :: "TcpConnection \<Rightarrow> (nat \<times> string \<times> TcpConnection) outcome" where
  "read_text conn =
     (case AsyncRead MAX_REQUEST_SIZE conn of (bs, conn') \<Rightarrow>
        if length bs < MAX_REQUEST_SIZE then Return (length bs, unstr (cstr bs), conn') else Fault OutOfBounds)"

text \<open>The loop that waits for the rest of the body. A read of no bytes does not end it.\<close>

fun read_rest :: "nat \<Rightarrow> u64 \<Rightarrow> string \<Rightarrow> TcpConnection \<Rightarrow> (string \<times> TcpConnection) outcome" where
  "read_rest 0 content_len body conn = Fault Stuck"
| "read_rest (Suc fuel) content_len body conn =
     (if of_nat (length body) = content_len then Return (body, conn)
      else bind_outcome (read_text conn) (\<lambda>(_, text, conn'). read_rest fuel content_len (body @ text) conn'))"

text \<open>
  One round of the loop of \<open>OnRequest\<close>: whether the loop goes on, the timers and the connection. The number
  of bytes is unsigned, so the test for a failed read is never true.
\<close>

definition request_round ::
    "header_order \<Rightarrow> int \<Rightarrow> int \<Rightarrow> HttpServer \<Rightarrow> nat \<Rightarrow> unit TimerManager \<times> TcpConnection
     \<Rightarrow> (bool \<times> unit TimerManager \<times> TcpConnection) outcome" where
  "request_round ord indeterminate now srv fuel = (\<lambda>(tm, conn).
     let (timer_id, tm) = AddTimer now 1000 () tm
     in bind_outcome (read_text conn) (\<lambda>(recv_len, text, conn).
        if recv_len = 0 then Return (True, tm, conn)
        else bind_outcome (HttpRequest_Parse text HttpRequest_init) (\<lambda>rq.
             bind_outcome
               (case rq_headers rq ''Content-Length'' of None \<Rightarrow> Return (rq_body rq, conn)
                | Some v \<Rightarrow> bind_outcome (stoi v) (\<lambda>content_len. read_rest fuel (word_of_int content_len) (rq_body rq) conn))
               (\<lambda>(body, conn).
             let rq = rq\<lparr>rq_body := body\<rparr>; tm = RemoveTimer timer_id tm;
                 rs = SetHTTPVersion (rq_version rq) (HttpResponse_init indeterminate)
             in bind_outcome (ServerHTTP ord srv rq rs conn) (\<lambda>(rs, conn).
                Return (rq_headers rq ''Connection'' \<noteq> Some ''close'', tm, conn))))))"

fun Http_OnRequest ::
    "header_order \<Rightarrow> int \<Rightarrow> int \<Rightarrow> HttpServer \<Rightarrow> nat \<Rightarrow> unit TimerManager \<times> TcpConnection
     \<Rightarrow> (unit TimerManager \<times> TcpConnection) outcome" where
  "Http_OnRequest ord indeterminate now srv 0 st = Fault Stuck"
| "Http_OnRequest ord indeterminate now srv (Suc fuel) st =
     bind_outcome (request_round ord indeterminate now srv fuel st) (\<lambda>(go_on, st').
       if go_on then Http_OnRequest ord indeterminate now srv fuel st' else Return st')"

end
