(* ===== verification/Http_Correct.thy ===== *)
theory Http_Correct
  imports Http
begin

text \<open>
  The parser of \<open>Http\<close> reads back the parts of a request, a request that is
  routed is answered by the text its handler prepares, and where the loop over the requests of a
  connection does not end.
\<close>

section \<open>Splitting at a delimiter\<close>

lemma find_sub_first: "d \<notin> set p \<Longrightarrow> find_sub (p @ d # ds @ r) (d # ds) = Some (length p)"
  by (induction p) auto

lemma find_sub_absent: "d \<notin> set s \<Longrightarrow> find_sub s (d # ds) = None"
  by (induction s) auto

lemma Split_loop_absent: "find_sub s (d # ds) = None \<Longrightarrow> Split_loop s d ds k = [s]"
  by (simp add: Split_loop.simps [of s])

lemma Split_loop_at:
  assumes "find_sub (p @ d # ds @ r) (d # ds) = Some (length p)" and "p \<noteq> [] \<or> k"
  shows "Split_loop (p @ d # ds @ r) d ds k = p # (if r = [] then if k then [[]] else [] else Split_loop r d ds k)"
  using assms by (subst Split_loop.simps) auto

lemma split_at_Cons: "split_at s (d # ds) k = (if s = [] then [] else Split_loop s d ds k)"
  by (simp add: split_at_def Split_def)

lemma split_at_first:
  assumes "d \<notin> set p" and "p \<noteq> []" and "r \<noteq> []"
  shows "split_at (p @ d # ds @ r) (d # ds) k = p # split_at r (d # ds) k"
  using assms Split_loop_at [OF find_sub_first [OF assms(1)]] by (simp add: split_at_Cons)

lemma split_at_absent: "find_sub s (d # ds) = None \<Longrightarrow> s \<noteq> [] \<Longrightarrow> split_at s (d # ds) k = [s]"
  by (simp add: split_at_Cons Split_loop_absent)

section \<open>The text of a request\<close>

definition token :: "string \<Rightarrow> bool" where
  "token s \<longleftrightarrow> s \<noteq> [] \<and> CHR '' '' \<notin> set s \<and> CHR 0x0D \<notin> set s"

definition header_ok :: "string \<times> string \<Rightarrow> bool" where
  "header_ok = (\<lambda>(k, v). k \<noteq> [] \<and> v \<noteq> [] \<and> CHR '':'' \<notin> set k \<union> set v \<and> CHR 0x0D \<notin> set k \<union> set v)"

fun lines_text :: "string list \<Rightarrow> string" where
  "lines_text [] = []"
| "lines_text [l] = l"
| "lines_text (l # ls) = l @ CRLF @ lines_text ls"

definition head_lines :: "string \<Rightarrow> string \<Rightarrow> string \<Rightarrow> (string \<times> string) list \<Rightarrow> string list" where
  "head_lines m u v hs = (m @ '' '' @ u @ '' '' @ v) # map (\<lambda>(k, x). k @ '':'' @ x) hs"

definition request_text :: "string \<Rightarrow> string \<Rightarrow> string \<Rightarrow> (string \<times> string) list \<Rightarrow> string \<Rightarrow> string" where
  "request_text m u v hs body = lines_text (head_lines m u v hs) @ CRLF @ CRLF @ body"

definition line_ok :: "string \<Rightarrow> bool" where
  "line_ok l \<longleftrightarrow> l \<noteq> [] \<and> CHR 0x0D \<notin> set l"

lemma head_lines_ok:
  assumes "token m" "token u" "token v" "list_all header_ok hs"
  shows "list_all line_ok (head_lines m u v hs)"
  using assms by (auto simp: head_lines_def line_ok_def token_def header_ok_def list_all_iff)

lemma lines_text_Cons: "lines_text (l # ls) = l @ (if ls = [] then [] else CRLF @ lines_text ls)"
  by (cases ls) simp_all

lemma split_lines:
  "list_all line_ok ls \<Longrightarrow> split_at (lines_text ls) CRLF k = ls"
proof (induction ls)
  case (Cons l ls)
  have l: "l \<noteq> []" "CHR 0x0D \<notin> set l" using Cons.prems by (simp_all add: line_ok_def)
  show ?case
  proof (cases "ls = []")
    case True
    then show ?thesis using l find_sub_absent [OF l(2)] by (simp add: CRLF_def split_at_absent)
  next
    case False
    then have "lines_text ls \<noteq> []" using Cons.prems by (cases ls) (auto simp: lines_text_Cons line_ok_def)
    then show ?thesis
      using split_at_first [OF l(2,1), of "lines_text ls" "[CHR 0x0A]" k] Cons False
      by (simp add: lines_text_Cons CRLF_def)
  qed
qed (simp add: split_at_def Split_def)

text \<open>The first empty line of a request ends its head.\<close>

lemma find_sub_skip:
  assumes "CHR 0x0D \<notin> set l" and "t \<noteq> [] \<longrightarrow> hd t \<noteq> CHR 0x0D"
  shows "find_sub (l @ CRLF @ t) (CRLF @ CRLF) = map_option ((+) (length l + 2)) (find_sub t (CRLF @ CRLF))"
  using assms(1)
proof (induction l)
  case Nil
  have "take 2 t \<noteq> [CHR 0x0D, CHR 0x0A]" using assms(2) by (cases t) auto
  then show ?case by (auto simp: CRLF_def option.map_comp comp_def numeral_2_eq_2)
next
  case (Cons c l)
  then show ?case by (auto simp: CRLF_def option.map_comp comp_def)
qed

lemma find_head_end:
  "list_all line_ok ls \<Longrightarrow> ls \<noteq> [] \<Longrightarrow>
   find_sub (lines_text ls @ CRLF @ CRLF @ r) (CRLF @ CRLF) = Some (length (lines_text ls))"
proof (induction ls)
  case (Cons l ls)
  have l: "l \<noteq> []" "CHR 0x0D \<notin> set l" using Cons.prems by (simp_all add: line_ok_def)
  show ?case
  proof (cases "ls = []")
    case True
    then show ?thesis using find_sub_first [OF l(2), of "[CHR 0x0A, CHR 0x0D, CHR 0x0A]" r] by (simp add: CRLF_def)
  next
    case False
    let ?t = "lines_text ls @ CRLF @ CRLF @ r"
    have "hd (hd ls) \<noteq> CHR 0x0D" "hd ls \<noteq> []" using False Cons.prems by (auto simp: line_ok_def neq_Nil_conv)
    then have "hd ?t \<noteq> CHR 0x0D" using False by (cases ls) (simp_all add: lines_text_Cons)
    then have "find_sub (l @ CRLF @ ?t) (CRLF @ CRLF) = map_option ((+) (length l + 2)) (find_sub ?t (CRLF @ CRLF))"
      by (intro find_sub_skip l) simp
    then show ?thesis using Cons.IH Cons.prems False by (simp add: lines_text_Cons CRLF_def)
  qed
qed simp

lemma split_request:
  assumes "list_all line_ok ls" "ls \<noteq> []" and "find_sub body (CRLF @ CRLF) = None"
  shows "split_at (lines_text ls @ CRLF @ CRLF @ body) (CRLF @ CRLF) True = [lines_text ls, body]"
proof -
  let ?ds = "[CHR 0x0A, CHR 0x0D, CHR 0x0A]"
  have d: "CRLF @ CRLF = CHR 0x0D # ?ds" by (simp add: CRLF_def)
  have "find_sub (lines_text ls @ CHR 0x0D # ?ds @ body) (CHR 0x0D # ?ds) = Some (length (lines_text ls))"
    using find_head_end [OF assms(1,2), of body] by (simp add: CRLF_def)
  from Split_loop_at [OF this, of True] show ?thesis
    using assms(3) Split_loop_absent [of body "CHR 0x0D" ?ds True] by (simp add: d split_at_Cons CRLF_def)
qed

section \<open>Parsing\<close>

lemma split_pair:
  assumes "c \<notin> set k" "c \<notin> set x" "k \<noteq> []" "x \<noteq> []"
  shows "split_at (k @ c # x) [c] b = [k, x]"
  using split_at_first [OF assms(1,3,4), of "[]" b] split_at_absent [OF find_sub_absent [OF assms(2)] assms(4)] by simp

lemma header_step_ok:
  assumes "header_ok (k, x)" shows "header_step hs (k @ '':'' @ x) = hs(k \<mapsto> x)"
proof -
  have "find_sub (k @ '':'' @ x) '':'' = Some (length k)"
    using assms find_sub_first [of "CHR '':''" k "[]" x] by (simp add: header_ok_def)
  then show ?thesis using assms split_pair [of "CHR '':''" k x False] by (auto simp: header_step_def header_ok_def Contains_def)
qed

definition header_map :: "(string \<times> string) list \<Rightarrow> string \<rightharpoonup> string" where
  "header_map hs = map_of (rev hs)"

lemma foldl_headers:
  "list_all header_ok hs \<Longrightarrow> foldl header_step m (map (\<lambda>(k, x). k @ '':'' @ x) hs) = m ++ header_map hs"
proof (induction hs arbitrary: m)
  case (Cons h hs)
  obtain k x where h: "h = (k, x)" by (cases h)
  with Cons show ?case by (simp add: header_step_ok header_map_def map_add_upd_left map_add_assoc [symmetric] del: append_Cons)
qed (simp add: header_map_def)

lemma split_line:
  assumes "token m" "token u" "token v" shows "split_at (m @ '' '' @ u @ '' '' @ v) '' '' True = [m, u, v]"
  using assms split_at_first [of "CHR '' ''" m "u @ '' '' @ v" "[]" True] split_pair [of "CHR '' ''" u v True]
  by (simp add: token_def)

text \<open>What \<open>Parse\<close> makes of a request without parameters in its URL.\<close>

definition parsed :: "string \<Rightarrow> string \<Rightarrow> string \<Rightarrow> (string \<times> string) list \<Rightarrow> string \<Rightarrow> HttpRequest" where
  "parsed m u v hs body = \<lparr>rq_method = m, rq_url = u, rq_uri = u, rq_version = v, rq_body = body, rq_headers = header_map hs,
     rq_url_params = Map.empty, rq_body_params = foldl param_step Map.empty (split_at body ''&'' True)\<rparr>"

definition request_ok :: "string \<Rightarrow> string \<Rightarrow> string \<Rightarrow> (string \<times> string) list \<Rightarrow> string \<Rightarrow> bool" where
  "request_ok m u v hs body \<longleftrightarrow> token m \<and> token u \<and> token v \<and> CHR ''&'' \<notin> set u \<and> list_all header_ok hs
     \<and> find_sub body (CRLF @ CRLF) = None"

lemma parse_request:
  assumes "request_ok m u v hs body"
  shows "HttpRequest_Parse (request_text m u v hs body) HttpRequest_init = Return (parsed m u v hs body)"
proof -
  have ok: "list_all line_ok (head_lines m u v hs)" and ne: "head_lines m u v hs \<noteq> []"
    using assms head_lines_ok by (auto simp: request_ok_def head_lines_def)
  have s: "split_at (request_text m u v hs body) (CRLF @ CRLF) True = [lines_text (head_lines m u v hs), body]"
    unfolding request_text_def using split_request ok ne assms by (simp add: request_ok_def)
  have l: "split_at (lines_text (head_lines m u v hs)) CRLF False = (m @ '' '' @ u @ '' '' @ v) # map (\<lambda>(k, x). k @ '':'' @ x) hs"
    using split_lines [OF ok] by (simp add: head_lines_def)
  have "u \<noteq> []" "split_at u ''&'' True = [u]"
    using assms find_sub_absent [of "CHR ''&''" u "[]"] by (auto simp: request_ok_def token_def split_at_absent)
  then have p: "ParseLine (m @ '' '' @ u @ '' '' @ v) rq = Return (rq\<lparr>rq_method := m, rq_url := u, rq_version := v, rq_uri := u\<rparr>)" for rq
    using split_line [of m u v] assms by (simp add: ParseLine_def request_ok_def)
  show ?thesis
    using assms foldl_headers [of hs Map.empty]
    by (simp add: HttpRequest_Parse_def s l p [simplified] parsed_def HttpRequest_init_def ParseHeaders_def ParseBody_def request_ok_def)
qed

text \<open>
  C37. The parser of requests reads back the method, the URL, the version, the headers and the
  body of every request whose parts do not contain the characters that separate them; only the body may be empty.
\<close>

theorem http_request_roundtrip:
  assumes "request_ok m u v hs body"
  shows "\<exists>rq. HttpRequest_Parse (request_text m u v hs body) HttpRequest_init = Return rq
    \<and> rq_method rq = m \<and> rq_url rq = u \<and> rq_version rq = v \<and> rq_headers rq = map_of (rev hs) \<and> rq_body rq = body"
  using parse_request [OF assms] by (simp add: parsed_def header_map_def)

theorem http_request_roundtrip_witness:
  "\<exists>rq. HttpRequest_Parse (request_text ''GET'' ''/a/'' ''HTTP/1.1'' [(''Host'', '' me''), (''X'', ''1'')] ''k=v'') HttpRequest_init = Return rq
    \<and> rq_url rq = ''/a/'' \<and> rq_headers rq ''X'' = Some ''1'' \<and> rq_body rq = ''k=v''"
proof -
  have "request_ok ''GET'' ''/a/'' ''HTTP/1.1'' [(''Host'', '' me''), (''X'', ''1'')] ''k=v''"
    by (simp add: request_ok_def token_def header_ok_def CRLF_def)
  from http_request_roundtrip [OF this] show ?thesis by auto
qed

section \<open>A round of the server\<close>

lemma AsyncWrite_live:
  "conn_up c \<Longrightarrow> \<exists>c'. AsyncWrite bs c = (length bs, c') \<and> conn_up c' \<and> conn_out c' = conn_out c @ bs \<and> conn_in c' = conn_in c"
proof (induction bs c rule: AsyncWrite.induct)
  case (1 bs c)
  show ?case
  proof (cases "bs = []")
    case True
    then show ?thesis using 1(3) by (simp add: AsyncWrite.simps)
  next
    case False
    obtain r c1 where w: "WriteInnerAwaiter bs c = (r, c1)" by fastforce
    from write_awaiter_live [OF 1(3) False w]
    consider "r = Retry" "conn_up c1" "conn_out c1 = conn_out c" "conn_in c1 = conn_in c"
      | n where "0 < n" "n \<le> length bs" "r = Got n" "conn_up c1" "conn_out c1 = conn_out c @ take n bs" "conn_in c1 = conn_in c" by auto
    then show ?thesis
    proof cases
      case a: 1
      from "1.IH"(2) [OF False w [symmetric] a(1) a(2)] show ?thesis
        using False w a by (simp add: AsyncWrite.simps [of bs c])
    next
      case (2 n)
      then have "n \<noteq> 0" by simp
      from "1.IH"(1) [OF False w [symmetric] 2(3) this 2(4)] show ?thesis
        using False w 2 by (auto simp: AsyncWrite.simps [of bs c])
    qed
  qed
qed

lemma AsyncRead_at_once:
  assumes "\<not> is_closed c" and "rd_events c = []"
  shows "AsyncRead len c = (take len (conn_in c), c\<lparr>conn_in := drop len (conn_in c)\<rparr>)"
  using assms by (simp add: AsyncRead.simps [of len c] ReadInnerAwaiter_def sys_read_def take_in_def)

lemma cstr_str: "CHR 0x00 \<notin> set s \<Longrightarrow> cstr (str s) = str s"
proof (induction s)
  case (Cons c s)
  have "char_of (0 :: nat) = CHR 0x00" by (simp add: char_of_def)
  then have "(of_char c :: nat) \<noteq> 0" using Cons.prems by (metis char_of_char list.set_intros(1))
  moreover have "(of_char c :: nat) < 256" using nat_of_char_less_256 [of c] by simp
  ultimately have "(word_of_nat (of_char c) :: byte) \<noteq> 0" by (simp add: word_of_nat_eq_0_iff nat_dvd_not_less)
  then show ?case using Cons by (simp add: str_def)
qed (simp add: str_def)

text \<open>A connection on which the text has arrived in one piece, and the state when it is read.\<close>

definition arrived :: "string \<Rightarrow> TcpConnection \<Rightarrow> bool" where
  "arrived t c \<longleftrightarrow> conn_up c \<and> rd_events c = [] \<and> conn_in c = str t \<and> length t < MAX_REQUEST_SIZE \<and> CHR 0x00 \<notin> set t"

lemma read_arrived:
  assumes "arrived t c" shows "read_text c = Return (length t, t, c\<lparr>conn_in := []\<rparr>)"
  using assms by (simp add: read_text_def arrived_def conn_up_def AsyncRead_at_once cstr_str)

text \<open>The request states no length of its body, or the right one; the loop that waits for the rest then ends at its first test.\<close>

definition length_ok :: "(string \<times> string) list \<Rightarrow> string \<Rightarrow> nat \<Rightarrow> bool" where
  "length_ok hs body fuel \<longleftrightarrow> (case map_of (rev hs) ''Content-Length'' of None \<Rightarrow> True
     | Some x \<Rightarrow> stoi x = Return (int (length body)) \<and> 0 < fuel)"

lemma rest_of_body:
  assumes "length_ok hs body fuel"
  shows "(case header_map hs ''Content-Length'' of None \<Rightarrow> Return (body, c)
    | Some v \<Rightarrow> bind_outcome (stoi v) (\<lambda>content_len. read_rest fuel (word_of_int content_len) body c)) = Return (body, c)"
  using assms by (cases fuel) (auto simp: length_ok_def header_map_def split: option.splits)

text \<open>One request that has arrived whole, up to the response.\<close>

lemma round_request:
  assumes "request_ok m u v hs body" and "arrived (request_text m u v hs body) c"
    and "length_ok hs body fuel"
    and "Router_Handle ord (hs_router srv) (HttpContext_init (parsed m u v hs body) (SetHTTPVersion v (HttpResponse_init i))) = Return ctx"
  shows "\<exists>tm' c'. request_round ord i now srv fuel (tm, c) = Return (header_map hs ''Connection'' \<noteq> Some ''close'', tm', c')
    \<and> conn_up c' \<and> conn_in c' = [] \<and> conn_out c' = conn_out c @ str (rs_buffer (cx_res ctx))"
proof -
  let ?c = "c\<lparr>conn_in := []\<rparr>"
  have "conn_up ?c" using assms(2) by (simp add: arrived_def conn_up_def)
  from AsyncWrite_live [OF this, of "str (rs_buffer (cx_res ctx))"]
  obtain c' where c': "AsyncWrite (str (rs_buffer (cx_res ctx))) ?c = (length (rs_buffer (cx_res ctx)), c')" "conn_up c'"
    "conn_out c' = conn_out c @ str (rs_buffer (cx_res ctx))" "conn_in c' = []" by auto
  have "length (request_text m u v hs body) \<noteq> 0" by (simp add: request_text_def CRLF_def)
  then show ?thesis
    using c' assms(4) parse_request [OF assms(1)] read_arrived [OF assms(2)] rest_of_body [OF assms(3), of ?c]
    by (cases "header_map hs ''Content-Length''") (simp_all add: request_round_def parsed_def ServerHTTP_def SendResponse_def split_beta Let_def)
qed

text \<open>The page for a path and a method without a handler.\<close>

definition not_found_response :: "header_order \<Rightarrow> string \<Rightarrow> string \<Rightarrow> string \<Rightarrow> string" where
  "not_found_response ord v m u = v @ '' 404 Not Found'' @ CRLF
     @ concat (map (\<lambda>(k, x). k @ '':'' @ x @ CRLF) (ord [(''Content-Type'', ''text/html'')])) @ CRLF @ not_found_text m u @ CRLF"

lemma handle_missing:
  assumes "router (Join [m, u] ''-'') = None"
  shows "Router_Handle ord router (HttpContext_init (parsed m u v hs body) res)
    = Return (Ctx_HTML ord 404 (not_found_text m u) (HttpContext_init (parsed m u v hs body) res))"
  using assms by (simp add: Router_Handle_def HttpContext_init_def parsed_def)

lemma not_found_page:
  "rs_buffer (cx_res (Ctx_HTML ord 404 (not_found_text m u) (HttpContext_init rq (SetHTTPVersion v (HttpResponse_init i)))))
   = not_found_response ord v m u"
proof -
  have "int_str 404 = ''404''" "GetCodeDescript 404 = ''Not Found''" by code_simp+
  then show ?thesis
    by (simp add: not_found_response_def HttpContext_init_def Ctx_HTML_def Ctx_SetBody_def Ctx_Status_def
        Ctx_SetHeader_def SetBody_def SetStatusCode_def SetHeader_def SetHTTPVersion_def HttpResponse_init_def)
qed

text \<open>
  C11. A request for a path and a method with a handler is answered by the text that this handler prepares, and
  by the page for status 404 if there is none. This is for a request that arrives whole in one read of less than
  64 KiB, without a zero byte, with parts that are not empty and hold no separators, an URL without \<open>&\<close>, a body
  without an empty line, and no \<open>Content-Length\<close> or one that is the length of the body; a handler is registered for
  paths that end with \<open>/\<close> and not for \<open>DELETE\<close>.
\<close>

theorem http_answers:
  assumes "request_ok m u v hs body" and "arrived (request_text m u v hs body) c"
    and "length_ok hs body fuel" and "m \<noteq> ''DELETE''" and "EndsWith u ''/''"
    and "h (HttpContext_init (parsed m u v hs body) (SetHTTPVersion v (HttpResponse_init i))) = Return ctx"
    and "hs_router srv (Join [m, u] ''-'') = None"
  shows "(\<exists>g tm' c'. request_round ord i now (srv\<lparr>hs_router := AddRouter m u h (hs_router srv)\<rparr>) fuel (tm, c) = Return (g, tm', c')
      \<and> conn_out c' = conn_out c @ str (rs_buffer (cx_res ctx)))
    \<and> (\<exists>g tm' c'. request_round ord i now srv fuel (tm, c) = Return (g, tm', c')
      \<and> conn_out c' = conn_out c @ str (not_found_response ord v m u))"
proof
  show "\<exists>g tm' c'. request_round ord i now (srv\<lparr>hs_router := AddRouter m u h (hs_router srv)\<rparr>) fuel (tm, c) = Return (g, tm', c')
      \<and> conn_out c' = conn_out c @ str (rs_buffer (cx_res ctx))"
    using round_request [OF assms(1-3), where srv = "srv\<lparr>hs_router := AddRouter m u h (hs_router srv)\<rparr>" and ctx = ctx and i = i and ord = ord] assms(4-6)
    by (fastforce simp: Router_Handle_def AddRouter_def HttpContext_init_def parsed_def)
next
  show "\<exists>g tm' c'. request_round ord i now srv fuel (tm, c) = Return (g, tm', c')
      \<and> conn_out c' = conn_out c @ str (not_found_response ord v m u)"
    using round_request [OF assms(1-3) handle_missing, where i = i] assms(7) not_found_page by metis
qed

definition ex_conn :: "string \<Rightarrow> TcpConnection" where
  "ex_conn t = \<lparr>is_closed = False, conn_in = str t, conn_out = [], rd_events = [], wr_events = [Again, Chunk 3]\<rparr>"

lemma ex_arrived: "length t < MAX_REQUEST_SIZE \<Longrightarrow> CHR 0x00 \<notin> set t \<Longrightarrow> arrived t (ex_conn t)"
  by (simp add: arrived_def ex_conn_def conn_up_def)

definition ex_request :: string where
  "ex_request = request_text ''GET'' ''/a/'' ''HTTP/1.1'' [(''Connection'', '' close'')] []"

definition ex_post :: string where
  "ex_post = request_text ''POST'' ''/a/'' ''HTTP/1.1'' [(''Content-Length'', '' 3'')] ''k=v''"

lemma ex_request_ok:
  "request_ok ''GET'' ''/a/'' ''HTTP/1.1'' [(''Connection'', '' close'')] []" "arrived ex_request (ex_conn ex_request)"
  by (simp_all add: request_ok_def token_def header_ok_def CRLF_def ex_request_def request_text_def head_lines_def
      ex_arrived MAX_REQUEST_SIZE_def)

definition ex_handler :: HandleFunc where
  "ex_handler ctx = Return (Ctx_String id 200 ''hello {}'' [cx_path ctx] ctx)"

lemma ex_post_ok:
  "request_ok ''POST'' ''/a/'' ''HTTP/1.1'' [(''Content-Length'', '' 3'')] ''k=v''" "arrived ex_post (ex_conn ex_post)"
  "length_ok [(''Content-Length'', '' 3'')] ''k=v'' 5"
proof -
  have "stoi '' 3'' = Return 3" by code_simp
  then show "length_ok [(''Content-Length'', '' 3'')] ''k=v'' 5" by (simp add: length_ok_def)
qed (simp_all add: request_ok_def token_def header_ok_def CRLF_def ex_post_def request_text_def head_lines_def ex_arrived MAX_REQUEST_SIZE_def)

theorem http_answers_witness:
  "\<exists>g tm' c'. request_round id 0 0 (Http_POST ''/a/'' ex_handler \<lparr>hs_router = Map.empty, hs_static_path = []\<rparr>) 5
        (\<lparr>timers = [], next_timer_id = 0, stop = False\<rparr>, ex_conn ex_post) = Return (g, tm', c')
      \<and> conn_out c' = str (''HTTP/1.1 200 OK'' @ CRLF @ ''Content-Type:text/plain'' @ CRLF @ CRLF @ ''hello /a/'' @ CRLF)"
proof -
  let ?s = "\<lparr>hs_router = Map.empty, hs_static_path = []\<rparr>" and ?t = "\<lparr>timers = [], next_timer_id = 0, stop = False\<rparr>"
  let ?x = "HttpContext_init (parsed ''POST'' ''/a/'' ''HTTP/1.1'' [(''Content-Length'', '' 3'')] ''k=v'') (SetHTTPVersion ''HTTP/1.1'' (HttpResponse_init 0))"
  obtain ctx where ctx: "ex_handler ?x = Return ctx" by (simp add: ex_handler_def)
  have "int_str 200 = ''200''" "GetCodeDescript 200 = ''OK''" "Format ''hello {}'' [''/a/''] = ''hello /a/''" by code_simp+
  then have "rs_buffer (cx_res ctx) = ''HTTP/1.1 200 OK'' @ CRLF @ ''Content-Type:text/plain'' @ CRLF @ CRLF @ ''hello /a/'' @ CRLF"
    using ctx by (auto simp: ex_handler_def HttpContext_init_def parsed_def Ctx_String_def Ctx_SetBody_def Ctx_Status_def
        Ctx_SetHeader_def SetBody_def SetStatusCode_def SetHeader_def SetHTTPVersion_def HttpResponse_init_def)
  moreover have "EndsWith ''/a/'' ''/''" by code_simp
  ultimately show ?thesis
    using http_answers [OF ex_post_ok(1) ex_post_ok(2) [unfolded ex_post_def] ex_post_ok(3), where h = ex_handler and i = 0 and ctx = ctx and srv = ?s and ord = id
        and now = 0 and tm = ?t] ctx
    by (auto simp: Http_POST_def ex_conn_def ex_post_def)
qed

text \<open>A length that is no number ends the process: nothing catches what \<open>stoi\<close> throws.\<close>

lemma bad_length_faults:
  assumes "request_ok m u v hs body" and "arrived (request_text m u v hs body) c"
    and "map_of (rev hs) ''Content-Length'' = Some x" and "stoi x = Fault f"
  shows "request_round ord i now srv fuel (tm, c) = Fault f"
proof -
  have "length (request_text m u v hs body) \<noteq> 0" by (simp add: request_text_def CRLF_def)
  then show ?thesis using assms(3,4) parse_request [OF assms(1)] read_arrived [OF assms(2)]
    by (simp add: request_round_def parsed_def header_map_def split_beta Let_def)
qed

text \<open>
  A client that asks for the connection to be closed, with a blank after the colon as usual,
  is answered and the loop goes on: the value of the header keeps its blank.
\<close>

theorem close_header_ignored:
  assumes "request_ok m u v (hs @ [(''Connection'', '' close'')]) body" and "arrived (request_text m u v (hs @ [(''Connection'', '' close'')]) body) c"
    and "length_ok (hs @ [(''Connection'', '' close'')]) body fuel" and "hs_router srv (Join [m, u] ''-'') = None"
  shows "\<exists>tm' c'. request_round ord i now srv fuel (tm, c) = Return (True, tm', c')"
  using round_request [OF assms(1-3) handle_missing [of "hs_router srv", OF assms(4)], where i = i and now = now and tm = tm]
  by (fastforce simp: header_map_def)

theorem close_header_ignored_witness:
  "\<exists>tm' c'. request_round id 0 0 \<lparr>hs_router = Map.empty, hs_static_path = []\<rparr> 5
        (\<lparr>timers = [], next_timer_id = 0, stop = False\<rparr>, ex_conn ex_request) = Return (True, tm', c')"
  using close_header_ignored [of "''GET''" "''/a/''" "''HTTP/1.1''" "[]" "[]" "ex_conn ex_request" 5
      "\<lparr>hs_router = Map.empty, hs_static_path = []\<rparr>"] ex_request_ok
  by (simp add: ex_request_def length_ok_def)

lemma length_HeapifyUp: "length (HeapifyUp i ts) = length ts"
  by (induction i ts rule: HeapifyUp.induct) (subst HeapifyUp.simps, simp add: Let_def)

lemma idle_round:
  assumes "is_closed c \<or> rd_events c = [] \<and> conn_in c = []"
  shows "request_round ord i now srv fuel (tm, c) = Return (True, snd (AddTimer now 1000 () tm), c)"
proof -
  have "AsyncRead MAX_REQUEST_SIZE c = ([], c)"
    using assms by (subst AsyncRead.simps) (auto simp: ReadInnerAwaiter_def sys_read_def take_in_def)
  then show ?thesis by (simp add: request_round_def read_text_def unstr_def MAX_REQUEST_SIZE_def split_beta Let_def)
qed

text \<open>
  When the client has closed its end, or the timer has closed the connection, the loop over the
  requests never ends: each round reads no bytes, adds another timer, and starts over.
\<close>

theorem closed_connection_spins:
  assumes "is_closed c \<or> rd_events c = [] \<and> conn_in c = []"
  shows "Http_OnRequest ord i now srv fuel (tm, c) = Fault Stuck
    \<and> (\<exists>tm'. request_round ord i now srv fuel (tm, c) = Return (True, tm', c) \<and> length (timers tm') = Suc (length (timers tm)))"
proof
  show "Http_OnRequest ord i now srv fuel (tm, c) = Fault Stuck"
    using idle_round [OF assms] by (induction fuel arbitrary: tm) simp_all
  show "\<exists>tm'. request_round ord i now srv fuel (tm, c) = Return (True, tm', c) \<and> length (timers tm') = Suc (length (timers tm))"
    using idle_round [OF assms] by (simp add: AddTimer_def Push_def length_HeapifyUp)
qed

theorem closed_connection_spins_witness:
  "Http_OnRequest id 0 0 \<lparr>hs_router = Map.empty, hs_static_path = []\<rparr> 1000
     (\<lparr>timers = [], next_timer_id = 0, stop = False\<rparr>, Conn_Close (ex_conn [])) = Fault Stuck"
  using closed_connection_spins [of "Conn_Close (ex_conn [])"] by (simp add: Conn_Close_def)

end
