(* ===== verification/Queues.thy ===== *)
theory Queues
  imports Prelude
begin

text \<open>
  \<^verbatim>\<open>common/blocking_queue.h\<close>, \<^verbatim>\<open>common/spin_lock.h\<close> and the ring buffer of \<^verbatim>\<open>common/buffer.h\<close>. The
  operations of the queue hold its mutex, so each of them is one step; whether \<open>try_to_lock\<close> gets the mutex
  is an argument. A \<open>pop\<close> that has to wait is \<open>None\<close>.
\<close>

section \<open>\<open>BlockingQueue\<close>\<close>

record 'a BlockingQueue =
  bq_items :: "'a list"
  bq_stop :: bool

definition BlockingQueue_init :: "'a BlockingQueue" where
  "BlockingQueue_init = \<lparr>bq_items = [], bq_stop = False\<rparr>"

definition bq_push :: "'a \<Rightarrow> 'a BlockingQueue \<Rightarrow> 'a BlockingQueue" where
  "bq_push value q = q\<lparr>bq_items := bq_items q @ [value]\<rparr>"

definition bq_try_push :: "bool \<Rightarrow> 'a \<Rightarrow> 'a BlockingQueue \<Rightarrow> bool \<times> 'a BlockingQueue" where
  "bq_try_push lock value q = (if \<not> lock then (False, q) else (True, q\<lparr>bq_items := bq_items q @ [value]\<rparr>))"

definition bq_pop :: "'a BlockingQueue \<Rightarrow> ('a option \<times> 'a BlockingQueue) option" where
  "bq_pop q =
     (if \<not> (bq_items q \<noteq> [] \<or> bq_stop q) then None
      else Some (case bq_items q of [] \<Rightarrow> (None, q) | x # xs \<Rightarrow> (Some x, q\<lparr>bq_items := xs\<rparr>)))"

definition bq_try_pop_if :: "bool \<Rightarrow> ('a \<Rightarrow> bool) option \<Rightarrow> 'a BlockingQueue \<Rightarrow> 'a option \<times> 'a BlockingQueue" where
  "bq_try_pop_if lock predict q =
     (if \<not> lock then (None, q)
      else case bq_items q of [] \<Rightarrow> (None, q)
        | x # xs \<Rightarrow> if (case predict of None \<Rightarrow> False | Some p \<Rightarrow> \<not> p x) then (None, q) else (Some x, q\<lparr>bq_items := xs\<rparr>))"

definition bq_size :: "'a BlockingQueue \<Rightarrow> nat" where
  "bq_size q = length (bq_items q)"

definition bq_empty :: "'a BlockingQueue \<Rightarrow> bool" where
  "bq_empty q \<longleftrightarrow> bq_items q = []"

definition bq_shut :: "'a BlockingQueue \<Rightarrow> 'a BlockingQueue" where
  "bq_shut q = q\<lparr>bq_stop := True\<rparr>"

section \<open>What a consumer relies on\<close>

text \<open>A consumer takes items until it has to wait or is told that the queue is closed and empty.\<close>

fun consume :: "('q \<Rightarrow> ('a option \<times> 'q) option) \<Rightarrow> nat \<Rightarrow> 'q \<Rightarrow> 'a list \<times> 'q" where
  "consume pop 0 q = ([], q)"
| "consume pop (Suc n) q =
     (case pop q of None \<Rightarrow> ([], q)
      | Some (None, q') \<Rightarrow> ([], q')
      | Some (Some x, q') \<Rightarrow> (case consume pop n q' of (xs, q'') \<Rightarrow> (x # xs, q'')))"

locale queue =
  fixes push :: "'a \<Rightarrow> 'q \<Rightarrow> 'q" and pop :: "'q \<Rightarrow> ('a option \<times> 'q) option" and shut :: "'q \<Rightarrow> 'q"
    and items :: "'q \<Rightarrow> 'a list" and closed :: "'q \<Rightarrow> bool"
  assumes push_items: "items (push x q) = items q @ [x]" and push_closed: "closed (push x q) = closed q"
    and shut_items: "items (shut q) = items q" and shut_closed: "closed (shut q)"
    and pop_waits: "pop q = None \<longleftrightarrow> items q = [] \<and> \<not> closed q"
    and pop_first: "items q = x # xs \<Longrightarrow> \<exists>q'. pop q = Some (Some x, q') \<and> items q' = xs \<and> closed q' = closed q"
    and pop_closed: "items q = [] \<Longrightarrow> closed q \<Longrightarrow> pop q = Some (None, q)"
begin

lemma consume_all:
  assumes "length (items q) \<le> n"
  shows "\<exists>q'. consume pop n q = (items q, q') \<and> items q' = [] \<and> closed q' = closed q"
  using assms
proof (induction n arbitrary: q)
  case 0
  then show ?case by simp
next
  case (Suc n)
  show ?case
  proof (cases "items q")
    case Nil
    then show ?thesis using pop_waits [of q] pop_closed [of q] by (cases "closed q") auto
  next
    case (Cons x xs)
    obtain q1 where "pop q = Some (Some x, q1)" "items q1 = xs" "closed q1 = closed q" using pop_first [OF Cons] by blast
    with Suc.IH [of q1] Suc.prems Cons show ?thesis by auto
  qed
qed

lemma fold_push_items: "items (fold push xs q) = items q @ xs" "closed (fold push xs q) = closed q"
  by (induction xs arbitrary: q) (simp_all add: push_items push_closed)

text \<open>What was put in before the queue is closed comes out, in order, and the consumer is then told to end.\<close>

lemma produced_consumed:
  assumes "length (items q) + length xs \<le> n"
  shows "\<exists>q'. consume pop n (shut (fold push xs q)) = (items q @ xs, q') \<and> pop q' = Some (None, q')"
proof -
  obtain q' where "consume pop n (shut (fold push xs q)) = (items q @ xs, q')" "items q' = []" "closed q'"
    using consume_all [of "shut (fold push xs q)" n] assms by (auto simp: shut_items shut_closed fold_push_items)
  with pop_closed show ?thesis by blast
qed

end

interpretation bq: queue bq_push bq_pop bq_shut bq_items bq_stop
  by unfold_locales (auto simp: bq_push_def bq_pop_def bq_shut_def)

section \<open>\<open>SpinLock\<close>\<close>

text \<open>Threads that construct a lock on one flag, are inside its scope, and destroy it.\<close>

datatype spin_pc = Outside | Spinning | Inside

record spin_state =
  spin_flag :: bool
  spin_pcs :: "nat \<Rightarrow> spin_pc"

definition test_and_set :: "spin_state \<Rightarrow> bool \<times> spin_state" where
  "test_and_set s = (spin_flag s, s\<lparr>spin_flag := True\<rparr>)"

definition SpinLock_try :: "nat \<Rightarrow> spin_state \<Rightarrow> spin_state" where
  "SpinLock_try t s = (case test_and_set s of (old, s') \<Rightarrow>
     if old then s' else s'\<lparr>spin_pcs := (spin_pcs s')(t := Inside)\<rparr>)"

definition SpinLock_release :: "nat \<Rightarrow> spin_state \<Rightarrow> spin_state" where
  "SpinLock_release t s = s\<lparr>spin_flag := False, spin_pcs := (spin_pcs s)(t := Outside)\<rparr>"

inductive spin_reachable :: "spin_state \<Rightarrow> bool" where
  start: "spin_reachable \<lparr>spin_flag = False, spin_pcs = \<lambda>_. Outside\<rparr>"
| enter: "spin_reachable s \<Longrightarrow> spin_pcs s t = Outside \<Longrightarrow> spin_reachable (s\<lparr>spin_pcs := (spin_pcs s)(t := Spinning)\<rparr>)"
| attempt: "spin_reachable s \<Longrightarrow> spin_pcs s t = Spinning \<Longrightarrow> spin_reachable (SpinLock_try t s)"
| leave: "spin_reachable s \<Longrightarrow> spin_pcs s t = Inside \<Longrightarrow> spin_reachable (SpinLock_release t s)"

lemma spin_invariant:
  "spin_reachable s \<Longrightarrow> (spin_flag s \<longleftrightarrow> (\<exists>t. spin_pcs s t = Inside)) \<and> (\<forall>t u. spin_pcs s t = Inside \<longrightarrow> spin_pcs s u = Inside \<longrightarrow> t = u)"
proof (induction rule: spin_reachable.induct)
  case (enter s t)
  then show ?case by (auto split: if_splits) (metis spin_pc.distinct(3))
next
  case (attempt s t)
  then show ?case by (auto simp: SpinLock_try_def test_and_set_def split: if_splits)
next
  case (leave s t)
  then show ?case by (auto simp: SpinLock_release_def split: if_splits)
qed simp

text \<open>
  The spin lock excludes: in every interleaving of threads that lock and unlock one flag, at most one
  thread is inside, and a free flag means that none is.
\<close>

theorem spin_lock_excludes:
  assumes "spin_reachable s" and "spin_pcs s t = Inside"
  shows "spin_flag s \<and> (\<forall>u. u \<noteq> t \<longrightarrow> spin_pcs s u \<noteq> Inside \<and> SpinLock_try u s = s)"
  using spin_invariant [OF assms(1)] assms(2) by (auto simp: SpinLock_try_def test_and_set_def)

theorem spin_lock_excludes_witness:
  "spin_flag (SpinLock_try 1 \<lparr>spin_flag = False, spin_pcs = (\<lambda>_. Outside)(1 := Spinning)\<rparr>)"
proof -
  have "spin_reachable (SpinLock_try 1 \<lparr>spin_flag = False, spin_pcs = (\<lambda>_. Outside)(1 := Spinning)\<rparr>)"
    using spin_reachable.attempt [OF spin_reachable.enter [OF spin_reachable.start, of 1], of 1] by simp
  from spin_lock_excludes [OF this, of 1] show ?thesis by (simp add: SpinLock_try_def test_and_set_def)
qed

section \<open>\<open>RingBuffer\<close>\<close>

record 'a ring_item =
  ri_written :: bool
  ri_value :: 'a

record 'a RingBuffer =
  rb_size :: u64
  rb_items :: "'a ring_item list"
  rb_write :: u32
  rb_read :: u32

definition RingBuffer_init :: "'a \<Rightarrow> u64 \<Rightarrow> 'a RingBuffer" where
  "RingBuffer_init dflt sz = \<lparr>rb_size = sz, rb_items = replicate (unat sz) \<lparr>ri_written = False, ri_value = dflt\<rparr>, rb_write = 0, rb_read = 0\<rparr>"

text \<open>A division by a size of 0 is a fault. \<open>TryPop\<close> takes \<open>read_index_ & size_\<close> for the slot.\<close>

definition rb_Push :: "'a \<Rightarrow> 'a RingBuffer \<Rightarrow> 'a RingBuffer outcome" where
  "rb_Push value rb =
     (if rb_size rb = 0 then Fault Uncaught
      else let write_index = unat (ucast (rb_write rb) mod rb_size rb)
           in Return (rb\<lparr>rb_write := rb_write rb + 1,
                rb_items := (rb_items rb)[write_index := \<lparr>ri_written = True, ri_value = value\<rparr>]\<rparr>))"

definition rb_TryPop :: "'a RingBuffer \<Rightarrow> ('a option \<times> 'a RingBuffer) outcome" where
  "rb_TryPop rb =
     (let i = unat (and (ucast (rb_read rb)) (rb_size rb))
      in if i \<ge> length (rb_items rb) then Fault OutOfBounds
         else let item = rb_items rb ! i
              in if ri_written item
                 then Return (Some (ri_value item), rb\<lparr>rb_items := (rb_items rb)[i := item\<lparr>ri_written := False\<rparr>], rb_read := rb_read rb + 1\<rparr>)
                 else Return (None, rb))"

text \<open>With an even size the second item is not found: the second read looks at the first slot again.\<close>

lemma ring_buffer_stalls:
  assumes "even sz" and "2 \<le> sz"
  shows "\<exists>rb rb'. bind_outcome (rb_Push x (RingBuffer_init d sz)) (rb_Push y) = Return rb
    \<and> rb_TryPop rb = Return (Some x, rb') \<and> rb_TryPop rb' = Return (None, rb')"
proof -
  have n: "2 \<le> unat sz" using assms(2) by (simp add: word_le_nat_alt)
  then have z: "sz \<noteq> 0" by auto
  have m: "unat ((1 :: u64) mod sz) = 1" using n unat_mod_distrib [of 1 sz] by simp
  have a: "and 1 sz = 0" using assms(1) by (simp add: one_and_eq even_iff_mod_2_eq_zero)
  have l: "unat sz \<noteq> 0" "0 < unat sz" "Suc 0 < unat sz" using n by auto
  show ?thesis using z m a l
    by (simp add: rb_Push_def rb_TryPop_def RingBuffer_init_def Let_def nth_list_update)
qed

end
