(* ===== verification/Pools.thy ===== *)
theory Pools
  imports Queues "HOL-Library.Multiset"
begin

text \<open>
  \<^verbatim>\<open>common/thread_pool.h\<close>: workers that share one queue, a condition variable for the workers and
  one for the caller of \<open>Shutdown\<close>.

  The pool is a transition system: a step is what a thread does while it holds the mutex, a
  notification, or a task that returns. A thread in \<open>wait\<close> sleeps until it is
  notified; it may also wake up by itself.
\<close>

section \<open>\<open>ThreadPool\<close> of \<^verbatim>\<open>thread_pool.h\<close>\<close>

datatype 't worker = Checking | Waiting | Running 't | Exited

datatype shutdown_pc = NotCalled | ShutChecking | ShutWaiting | Stopping | Joining

record 't ThreadPool =
  workers :: "'t worker list"
  tasks :: "'t list"
  tp_stop :: bool
  notifies :: nat
  shutdown_at :: shutdown_pc
  accepted :: "'t list"
  started :: "'t list"
  finished :: "'t list"

definition ThreadPool_init :: "nat \<Rightarrow> 't ThreadPool" where
  "ThreadPool_init thread_num = \<lparr>workers = replicate thread_num Checking, tasks = [], tp_stop = False, notifies = 0,
     shutdown_at = NotCalled, accepted = [], started = [], finished = []\<rparr>"

text \<open>\<open>Commit\<close>, up to the end of the scope of the lock; its notification is still to come.\<close>

definition Commit_enqueue :: "'t \<Rightarrow> 't ThreadPool \<Rightarrow> 't ThreadPool" where
  "Commit_enqueue t p =
     (if \<not> tp_stop p then p\<lparr>tasks := tasks p @ [t], accepted := accepted p @ [t], notifies := notifies p + 1\<rparr>
      else p\<lparr>notifies := notifies p + 1\<rparr>)"

text \<open>\<open>notify_one\<close>: the scheduler picks one of the threads that wait, if there are any.\<close>

definition notify_one :: "nat \<Rightarrow> 't ThreadPool \<Rightarrow> 't ThreadPool" where
  "notify_one i p = (if i < length (workers p) \<and> workers p ! i = Waiting then p\<lparr>workers := (workers p)[i := Checking]\<rparr> else p)"

definition Commit_notify :: "nat \<Rightarrow> 't ThreadPool \<Rightarrow> 't ThreadPool" where
  "Commit_notify i p = (notify_one i p)\<lparr>notifies := notifies p - 1\<rparr>"

text \<open>The loop of worker \<open>i\<close> from the lock to the end of its scope.\<close>

definition worker_locked :: "nat \<Rightarrow> 't ThreadPool \<Rightarrow> 't ThreadPool" where
  "worker_locked i p =
     (if \<not> (tp_stop p \<or> tasks p \<noteq> []) then p\<lparr>workers := (workers p)[i := Waiting]\<rparr>
      else if tp_stop p then p\<lparr>workers := (workers p)[i := Exited]\<rparr>
      else case tasks p of [] \<Rightarrow> p
        | task # rest \<Rightarrow> p\<lparr>tasks := rest, started := started p @ [task], workers := (workers p)[i := Running task],
            shutdown_at := (if rest = [] \<and> shutdown_at p = ShutWaiting then ShutChecking else shutdown_at p)\<rparr>)"

definition worker_done :: "nat \<Rightarrow> 't ThreadPool \<Rightarrow> 't ThreadPool" where
  "worker_done i p =
     (case workers p ! i of Running t \<Rightarrow> p\<lparr>workers := (workers p)[i := Checking], finished := finished p @ [t]\<rparr> | _ \<Rightarrow> p)"

text \<open>The parts of \<open>Shutdown\<close>.\<close>

definition Shutdown_locked :: "'t ThreadPool \<Rightarrow> 't ThreadPool" where
  "Shutdown_locked p =
     (if tasks p = [] then p\<lparr>tp_stop := True, shutdown_at := Stopping\<rparr> else p\<lparr>shutdown_at := ShutWaiting\<rparr>)"

definition Shutdown_notify_all :: "'t ThreadPool \<Rightarrow> 't ThreadPool" where
  "Shutdown_notify_all p = p\<lparr>workers := map (\<lambda>w. case w of Waiting \<Rightarrow> Checking | _ \<Rightarrow> w) (workers p), shutdown_at := Joining\<rparr>"

definition all_joined :: "'t ThreadPool \<Rightarrow> bool" where
  "all_joined p \<longleftrightarrow> list_all (\<lambda>w. w = Exited) (workers p)"

text \<open>The steps of the pool itself, and those that its users add.\<close>

inductive pool_step :: "'t ThreadPool \<Rightarrow> 't ThreadPool \<Rightarrow> bool" where
  locked: "i < length (workers p) \<Longrightarrow> workers p ! i = Checking \<Longrightarrow> pool_step p (worker_locked i p)"
| task_returns: "i < length (workers p) \<Longrightarrow> workers p ! i = Running t \<Longrightarrow> pool_step p (worker_done i p)"
| notify: "0 < notifies p \<Longrightarrow> (i < length (workers p) \<and> workers p ! i = Waiting) \<or> Waiting \<notin> set (workers p) \<Longrightarrow> pool_step p (Commit_notify i p)"
| shut_locked: "shutdown_at p = ShutChecking \<Longrightarrow> pool_step p (Shutdown_locked p)"
| shut_notify: "shutdown_at p = Stopping \<Longrightarrow> pool_step p (Shutdown_notify_all p)"

inductive pool_reachable :: "nat \<Rightarrow> 't ThreadPool \<Rightarrow> bool" for n where
  init: "pool_reachable n (ThreadPool_init n)"
| inner: "pool_reachable n p \<Longrightarrow> pool_step p p' \<Longrightarrow> pool_reachable n p'"
| commit: "pool_reachable n p \<Longrightarrow> pool_reachable n (Commit_enqueue t p)"
| shutdown: "pool_reachable n p \<Longrightarrow> shutdown_at p = NotCalled \<Longrightarrow> pool_reachable n (p\<lparr>shutdown_at := ShutChecking\<rparr>)"
| spurious: "pool_reachable n p \<Longrightarrow> i < length (workers p) \<Longrightarrow> workers p ! i = Waiting \<Longrightarrow> pool_reachable n (notify_one i p)"
| spurious_shut: "pool_reachable n p \<Longrightarrow> shutdown_at p = ShutWaiting \<Longrightarrow> pool_reachable n (p\<lparr>shutdown_at := ShutChecking\<rparr>)"

section \<open>The invariant\<close>

definition running :: "'t worker list \<Rightarrow> 't multiset" where
  "running ws = sum_list (map (\<lambda>w. case w of Running t \<Rightarrow> {#t#} | _ \<Rightarrow> {#}) ws)"

definition pool_inv :: "nat \<Rightarrow> 't ThreadPool \<Rightarrow> bool" where
  "pool_inv n p \<longleftrightarrow> length (workers p) = n \<and> accepted p = started p @ tasks p
     \<and> mset (started p) = mset (finished p) + running (workers p)
     \<and> (tp_stop p \<longleftrightarrow> shutdown_at p \<in> {Stopping, Joining}) \<and> (tp_stop p \<longrightarrow> tasks p = [])
     \<and> (Exited \<in> set (workers p) \<longrightarrow> tp_stop p)
     \<and> (shutdown_at p = ShutWaiting \<longrightarrow> tasks p \<noteq> []) \<and> (shutdown_at p = Joining \<longrightarrow> Waiting \<notin> set (workers p))
     \<and> (tasks p \<noteq> [] \<longrightarrow> n \<noteq> 0 \<longrightarrow> notifies p > 0 \<or> (\<exists>w \<in> set (workers p). w \<noteq> Waiting))"

lemma running_update:
  assumes "i < length ws"
  shows "running (ws[i := w]) + (case ws ! i of Running t \<Rightarrow> {#t#} | _ \<Rightarrow> {#}) = running ws + (case w of Running t \<Rightarrow> {#t#} | _ \<Rightarrow> {#})"
  using assms unfolding running_def
  by (induction ws arbitrary: i) (auto simp: nth_Cons' less_Suc_eq_0_disj add.assoc add.commute split: nat.splits)

lemma in_update: "x \<in> set (ws[i := w]) \<Longrightarrow> x = w \<or> x \<in> set ws"
  using set_update_subset_insert [of ws i w] by auto

lemma awake_update: "i < length ws \<Longrightarrow> w \<noteq> Waiting \<Longrightarrow> \<exists>x \<in> set (ws[i := w]). x \<noteq> Waiting"
  using set_update_memI [of i ws w] by blast

lemma inv_locked:
  assumes "pool_inv n p" and "i < length (workers p)" and "workers p ! i = Checking"
  shows "pool_inv n (worker_locked i p)"
proof -
  note u = running_update [OF assms(2)]
  consider "\<not> tp_stop p" "tasks p = []" | "tp_stop p" | t r where "\<not> tp_stop p" "tasks p = t # r" by (cases "tasks p") auto
  then show ?thesis
  proof cases
    case 1
    then show ?thesis using assms u [of Waiting] by (auto simp: worker_locked_def pool_inv_def dest: in_update)
  next
    case 2
    then show ?thesis using assms u [of Exited] by (auto simp: worker_locked_def pool_inv_def dest: in_update)
  next
    case 3
    then show ?thesis using assms u [of "Running t"] awake_update [OF assms(2), of "Running t"]
      by (auto simp: worker_locked_def pool_inv_def dest: in_update)
  qed
qed

lemma inv_done:
  assumes "pool_inv n p" and "i < length (workers p)" and "workers p ! i = Running t"
  shows "pool_inv n (worker_done i p)"
  using assms running_update [OF assms(2), of Checking] awake_update [OF assms(2), of Checking]
  by (auto simp: worker_done_def pool_inv_def dest: in_update)

lemma inv_wake:
  assumes "pool_inv n p"
  shows "pool_inv n (notify_one i p)"
proof (cases "i < length (workers p) \<and> workers p ! i = Waiting")
  case True
  then show ?thesis using assms running_update [of i "workers p" Checking] awake_update [of i "workers p" Checking]
    by (auto simp: notify_one_def pool_inv_def dest: in_update)
next
  case False
  then have "notify_one i p = p" by (auto simp: notify_one_def)
  with assms show ?thesis by simp
qed

lemma inv_notify:
  assumes "pool_inv n p" and "(i < length (workers p) \<and> workers p ! i = Waiting) \<or> Waiting \<notin> set (workers p)"
  shows "pool_inv n (Commit_notify i p)"
proof -
  have w: "workers p \<noteq> [] \<longrightarrow> (\<exists>w \<in> set (workers (notify_one i p)). w \<noteq> Waiting)"
    using assms(2) awake_update [of i "workers p" Checking]
    by (cases "workers p") (auto simp: notify_one_def)
  have "length (workers (notify_one i p)) = n \<and> tasks (notify_one i p) = tasks p"
    using assms(1) by (simp add: notify_one_def pool_inv_def)
  with w have "tasks (notify_one i p) \<noteq> [] \<longrightarrow> n \<noteq> 0 \<longrightarrow> (\<exists>w \<in> set (workers (notify_one i p)). w \<noteq> Waiting)"
    using assms(1) by (auto simp: pool_inv_def)
  with inv_wake [OF assms(1), of i] show ?thesis unfolding Commit_notify_def pool_inv_def by auto
qed

lemma inv_commit: "pool_inv n p \<Longrightarrow> pool_inv n (Commit_enqueue t p)"
  by (auto simp: Commit_enqueue_def pool_inv_def)

lemma inv_shut_locked: "pool_inv n p \<Longrightarrow> shutdown_at p = ShutChecking \<Longrightarrow> pool_inv n (Shutdown_locked p)"
  by (auto simp: Shutdown_locked_def pool_inv_def)

lemma running_wake: "running (map (\<lambda>w. case w of Waiting \<Rightarrow> Checking | _ \<Rightarrow> w) ws) = running ws"
  unfolding running_def by (induction ws) (auto split: worker.splits)

lemma inv_shut_notify: "pool_inv n p \<Longrightarrow> shutdown_at p = Stopping \<Longrightarrow> pool_inv n (Shutdown_notify_all p)"
  by (auto simp: Shutdown_notify_all_def pool_inv_def running_wake split: worker.splits)

lemma pool_reachable_inv: "pool_reachable n p \<Longrightarrow> pool_inv n p"
proof (induction rule: pool_reachable.induct)
  case init
  then show ?case by (induction n) (simp_all add: ThreadPool_init_def pool_inv_def running_def)
next
  case (inner p p')
  from inner(2,3) show ?case
    by cases (simp_all add: inv_locked inv_done inv_notify inv_shut_locked inv_shut_notify)
next
  case (shutdown p)
  then show ?case by (auto simp: pool_inv_def)
next
  case (spurious_shut p)
  then show ?case by (auto simp: pool_inv_def)
qed (simp_all add: inv_commit inv_wake)

lemma running_exited: "list_all (\<lambda>w. w = Exited) ws \<Longrightarrow> running ws = {#}"
  unfolding running_def by (induction ws) simp_all

text \<open>
  C12. No task is lost or run twice: in every interleaving, the tasks are started in the order in which
  they were committed, and when \<open>Shutdown\<close> has joined all workers, every task that was accepted has
  returned exactly once.
\<close>

theorem pool_runs_each_once:
  assumes "pool_reachable n p"
  shows "accepted p = started p @ tasks p \<and> (all_joined p \<and> n \<noteq> 0 \<longrightarrow> started p = accepted p \<and> mset (finished p) = mset (accepted p))"
proof -
  have inv: "pool_inv n p" by (rule pool_reachable_inv [OF assms])
  have "running (workers p) = {#}" if "all_joined p"
    using that running_exited by (simp add: all_joined_def)
  moreover have "Exited \<in> set (workers p)" if "all_joined p" "n \<noteq> 0"
    using that inv by (cases "workers p") (auto simp: all_joined_def pool_inv_def)
  ultimately show ?thesis using inv by (auto simp: pool_inv_def)
qed

definition ex_served :: "nat ThreadPool" where
  "ex_served = worker_done 0 (worker_locked 0 (Commit_enqueue 7 (ThreadPool_init 1)))"

definition ex_pool :: "nat ThreadPool" where
  "ex_pool = worker_locked 0 (Shutdown_notify_all (Shutdown_locked (ex_served\<lparr>shutdown_at := ShutChecking\<rparr>)))"

lemmas pool_defs = ThreadPool_init_def Commit_enqueue_def worker_locked_def worker_done_def Shutdown_locked_def
  Shutdown_notify_all_def ex_served_def

lemma ex_served_reachable: "pool_reachable 1 ex_served"
proof -
  have "pool_reachable 1 (Commit_enqueue 7 (ThreadPool_init 1) :: nat ThreadPool)"
    by (intro pool_reachable.commit pool_reachable.init)
  then have "pool_reachable 1 (worker_locked 0 (Commit_enqueue 7 (ThreadPool_init 1)) :: nat ThreadPool)"
    by (rule pool_reachable.inner) (rule pool_step.locked, simp_all add: pool_defs)
  then show ?thesis unfolding ex_served_def
    by (rule pool_reachable.inner) (rule pool_step.task_returns [where t = 7], simp_all add: pool_defs)
qed

lemma ex_served_eq: "ex_served = \<lparr>workers = [Checking], tasks = [], tp_stop = False, notifies = 1, shutdown_at = NotCalled,
    accepted = [7], started = [7], finished = [7]\<rparr>"
  by (simp add: pool_defs)

lemma ex_pool_eq: "ex_pool = \<lparr>workers = [Exited], tasks = [], tp_stop = True, notifies = 1, shutdown_at = Joining,
    accepted = [7], started = [7], finished = [7]\<rparr>"
  by (simp add: ex_pool_def ex_served_eq Shutdown_locked_def Shutdown_notify_all_def worker_locked_def)

lemma ex_pool_reachable: "pool_reachable 1 ex_pool"
proof -
  let ?c = "ex_served\<lparr>shutdown_at := ShutChecking\<rparr>"
  have 1: "pool_reachable 1 ?c" by (rule pool_reachable.shutdown [OF ex_served_reachable]) (simp add: ex_served_eq)
  have 2: "pool_reachable 1 (Shutdown_locked ?c)"
    by (rule pool_reachable.inner [OF 1 pool_step.shut_locked]) simp
  have 3: "pool_reachable 1 (Shutdown_notify_all (Shutdown_locked ?c))"
    by (rule pool_reachable.inner [OF 2 pool_step.shut_notify]) (simp add: ex_served_eq Shutdown_locked_def)
  show ?thesis unfolding ex_pool_def
    by (rule pool_reachable.inner [OF 3 pool_step.locked]) (simp_all add: ex_served_eq Shutdown_locked_def Shutdown_notify_all_def)
qed

theorem pool_runs_each_once_witness: "finished ex_pool = [7] \<and> mset (finished ex_pool) = mset (accepted ex_pool)"
proof -
  have "all_joined ex_pool" "finished ex_pool = [7]"
    by (simp_all add: all_joined_def ex_pool_eq)
  moreover have "(1 :: nat) \<noteq> 0" by simp
  ultimately show ?thesis using pool_runs_each_once [OF ex_pool_reachable] by blast
qed

lemma locked_moves:
  assumes "i < length (workers p)" "workers p ! i = Checking" shows "worker_locked i p \<noteq> p"
proof -
  have "workers (worker_locked i p) ! i \<noteq> Checking" using assms by (auto simp: worker_locked_def split: list.splits)
  with assms show ?thesis by metis
qed

text \<open>
  C13. The pool does not get stuck: while a task waits in the queue, or \<open>Shutdown\<close> was called and not all
  workers are joined, some thread of the pool can make a step that changes its state, whatever notifications were delivered so far.
\<close>

theorem pool_not_stuck:
  assumes "pool_reachable n p" and "n \<noteq> 0"
    and "tasks p \<noteq> [] \<or> shutdown_at p \<noteq> NotCalled \<and> \<not> all_joined p"
  shows "\<exists>p'. pool_step p p' \<and> p' \<noteq> p"
proof -
  have inv: "pool_inv n p" by (rule pool_reachable_inv [OF assms(1)])
  consider i where "i < length (workers p)" "workers p ! i = Checking"
    | i t where "i < length (workers p)" "workers p ! i = Running t"
    | "set (workers p) \<subseteq> {Waiting, Exited}"
    by (metis in_set_conv_nth insertCI subsetI worker.exhaust)
  then show ?thesis
  proof cases
    case (1 i)
    then show ?thesis using pool_step.locked [OF 1] locked_moves [OF 1] by blast
  next
    case (2 i t)
    then have "workers (worker_done i p) ! i \<noteq> workers p ! i" by (simp add: worker_done_def)
    then show ?thesis using pool_step.task_returns [OF 2] by metis
  next
    case 3
    show ?thesis
    proof (cases "tasks p = []")
      case True
      then consider "shutdown_at p = ShutChecking" | "shutdown_at p = Stopping" | "shutdown_at p = Joining" "\<not> all_joined p"
        using assms(3) inv by (cases "shutdown_at p") (auto simp: pool_inv_def)
      then show ?thesis
      proof cases
        case 1
        then show ?thesis using pool_step.shut_locked [OF 1] True by (intro exI [of _ "Shutdown_locked p"]) (auto simp: Shutdown_locked_def dest: arg_cong [of _ _ shutdown_at])
      next
        case 2
        then show ?thesis using pool_step.shut_notify [OF 2] by (intro exI [of _ "Shutdown_notify_all p"]) (auto simp: Shutdown_notify_all_def dest: arg_cong [of _ _ shutdown_at])
      next
        case a: 3
        then show ?thesis using 3 inv by (auto simp: pool_inv_def all_joined_def list_all_iff)
      qed
    next
      case False
      then have w: "set (workers p) \<subseteq> {Waiting}" "0 < length (workers p)" using 3 inv assms(2) by (auto simp: pool_inv_def)
      then have 0: "workers p ! 0 = Waiting" using nth_mem by blast
      have "0 < notifies p" using inv False w assms(2) by (auto simp: pool_inv_def)
      then have "pool_step p (Commit_notify 0 p)" using 0 w by (intro pool_step.notify) auto
      moreover have "notifies (Commit_notify 0 p) < notifies p" using \<open>0 < notifies p\<close> by (simp add: Commit_notify_def)
      ultimately show ?thesis by (metis less_irrefl)
    qed
  qed
qed

theorem pool_not_stuck_witness: "\<exists>p'. pool_step (Commit_enqueue (7 :: nat) (ThreadPool_init 2)) p' \<and> p' \<noteq> Commit_enqueue 7 (ThreadPool_init 2)"
proof -
  have "pool_reachable 2 (Commit_enqueue (7 :: nat) (ThreadPool_init 2))"
    by (intro pool_reachable.commit pool_reachable.init)
  from pool_not_stuck [OF this] show ?thesis by (simp add: Commit_enqueue_def ThreadPool_init_def)
qed

end
