(* ===== verification/Queue_Pools.thy ===== *)
theory Queue_Pools
  imports Queues "HOL-Library.Multiset"
begin

text \<open>
  The pools built on \<open>BlockingQueue\<close>: \<^verbatim>\<open>common/blocking_queue_thread_pool.h\<close>, with a queue for each worker, and the pool of
  coroutines of \<^verbatim>\<open>co/co_thread_pool.cpp\<close>, whose workers also take from the queues of other workers, with
  the scheduler of \<^verbatim>\<open>co/scheduler.cpp\<close>. The values of \<open>rand()\<close> and whether the mutexes are
  free are arguments.
\<close>

section \<open>A queue for each worker\<close>

record 't QueuePool =
  qp_queues :: "'t BlockingQueue list"
  qp_stop :: bool

definition QueuePool_init :: "nat \<Rightarrow> 't QueuePool" where
  "QueuePool_init thread_num = \<lparr>qp_queues = replicate thread_num BlockingQueue_init, qp_stop = False\<rparr>"

definition qp_push :: "nat \<Rightarrow> 't \<Rightarrow> 't QueuePool \<Rightarrow> 't QueuePool" where
  "qp_push n t p = p\<lparr>qp_queues := (qp_queues p)[n := bq_push t (qp_queues p ! n)]\<rparr>"

definition QueuePool_Commit :: "nat \<Rightarrow> 't \<Rightarrow> 't QueuePool \<Rightarrow> 't QueuePool outcome" where
  "QueuePool_Commit rnd f p =
     (if qp_queues p = [] then Fault Uncaught else Return (qp_push (rnd mod length (qp_queues p)) f p))"

text \<open>The identifier is unsigned, so the test for a negative one is never true.\<close>

definition CommitById :: "'t option \<Rightarrow> u64 \<Rightarrow> 't QueuePool \<Rightarrow> (bool \<times> 't QueuePool) outcome" where
  "CommitById func idx p =
     (case func of None \<Rightarrow> Return (False, p)
      | Some f \<Rightarrow> if qp_stop p then Return (False, p)
          else if unat idx < length (qp_queues p) then Return (True, qp_push (unat idx) f p) else Fault AssertFail)"

definition TaskNum :: "'t QueuePool \<Rightarrow> nat" where
  "TaskNum p = sum_list (map bq_size (qp_queues p))"

definition QueuePool_Shutdown :: "'t QueuePool \<Rightarrow> 't QueuePool" where
  "QueuePool_Shutdown p = p\<lparr>qp_stop := True, qp_queues := map bq_shut (qp_queues p)\<rparr>"

text \<open>The rounds of a worker: the tasks it runs, and whether it returns.\<close>

fun queue_worker :: "nat \<Rightarrow> nat \<Rightarrow> 't QueuePool \<Rightarrow> 't list \<times> bool" where
  "queue_worker 0 n p = ([], False)"
| "queue_worker (Suc fuel) n p =
     (case bq_pop (qp_queues p ! n) of
        None \<Rightarrow> ([], False)
      | Some (None, q) \<Rightarrow> if qp_stop p then ([], True) else queue_worker fuel n (p\<lparr>qp_queues := (qp_queues p)[n := q]\<rparr>)
      | Some (Some task, q) \<Rightarrow> (case queue_worker fuel n (p\<lparr>qp_queues := (qp_queues p)[n := q]\<rparr>) of (ts, b) \<Rightarrow> (task # ts, b)))"

text \<open>After \<open>Shutdown\<close> each worker runs what is in its queue, in order, and returns.\<close>

lemma queue_worker_drains:
  assumes "qp_stop p" and "n < length (qp_queues p)" and "bq_stop (qp_queues p ! n)" and "length (bq_items (qp_queues p ! n)) < fuel"
  shows "queue_worker fuel n p = (bq_items (qp_queues p ! n), True)"
  using assms
proof (induction fuel arbitrary: p)
  case (Suc fuel)
  show ?case
  proof (cases "bq_items (qp_queues p ! n)")
    case Nil
    then show ?thesis using bq.pop_closed [OF Nil] Suc.prems by simp
  next
    case (Cons x xs)
    obtain q where "bq_pop (qp_queues p ! n) = Some (Some x, q)" "bq_items q = xs" "bq_stop q"
      using bq.pop_first [OF Cons] Suc.prems(3) by blast
    with Suc.IH [of "p\<lparr>qp_queues := (qp_queues p)[n := q]\<rparr>"] Suc.prems Cons show ?thesis by simp
  qed
qed simp

lemma queue_pool_drains:
  assumes "n < length (qp_queues p)" and "length (bq_items (qp_queues p ! n)) < fuel"
  shows "queue_worker fuel n (QueuePool_Shutdown p) = (bq_items (qp_queues p ! n), True)"
  using assms queue_worker_drains [of "QueuePool_Shutdown p" n fuel] by (simp add: QueuePool_Shutdown_def bq_shut_def)

lemma default_id_asserts:
  assumes "\<not> qp_stop p" and "length (qp_queues p) < 2 ^ 64"
  shows "CommitById (Some f) (- 1) p = Fault AssertFail"
proof -
  have "unat (- 1 :: u64) = 2 ^ 64 - 1" by (simp add: unsigned_minus_1_eq_mask mask_eq_exp_minus_1)
  then show ?thesis using assms by (simp add: CommitById_def)
qed

section \<open>The pool of coroutines\<close>

record 'h TaskItem =
  ti_handle :: 'h
  can_steal :: bool

record 'h CoPool =
  cp_queues :: "'h TaskItem BlockingQueue list"
  cp_threads :: nat
  cp_stopped :: bool
  cp_steal :: bool

definition CoPool_init :: "nat \<Rightarrow> nat \<Rightarrow> bool \<Rightarrow> 'h CoPool" where
  "CoPool_init hardware_concurrency thread_num enable_work_steal =
     \<lparr>cp_queues = replicate thread_num BlockingQueue_init,
      cp_threads = (if thread_num \<noteq> 0 then thread_num else hardware_concurrency),
      cp_stopped = False, cp_steal = enable_work_steal\<rparr>"

definition cp_set :: "nat \<Rightarrow> 'h TaskItem BlockingQueue \<Rightarrow> 'h CoPool \<Rightarrow> 'h CoPool" where
  "cp_set n q p = p\<lparr>cp_queues := (cp_queues p)[n := q]\<rparr>"

text \<open>The attempts to push without waiting for a mutex; \<open>lock i\<close> is the result of attempt \<open>i\<close>, and \<open>k\<close> attempts are left.\<close>

fun schedule_try :: "(nat \<Rightarrow> bool) \<Rightarrow> 'h TaskItem \<Rightarrow> nat \<Rightarrow> nat \<Rightarrow> 'h CoPool \<Rightarrow> (bool \<times> 'h CoPool) outcome" where
  "schedule_try lock item i 0 p = Return (False, p)"
| "schedule_try lock item i (Suc k) p =
     (let n = i mod cp_threads p
      in if n \<ge> length (cp_queues p) then Fault Uncaught
         else case bq_try_push (lock i) item (cp_queues p ! n) of
             (True, q) \<Rightarrow> Return (True, cp_set n q p)
           | (False, _) \<Rightarrow> schedule_try lock item (Suc i) k p)"

definition cp_push :: "nat \<Rightarrow> 'h TaskItem \<Rightarrow> 'h CoPool \<Rightarrow> 'h CoPool outcome" where
  "cp_push n item p =
     (if n < length (cp_queues p) then Return (cp_set n (bq_push item (cp_queues p ! n)) p) else Fault OutOfBounds)"

definition ScheduleById :: "(nat \<Rightarrow> bool) \<Rightarrow> nat \<Rightarrow> 'h option \<Rightarrow> int \<Rightarrow> 'h CoPool \<Rightarrow> 'h CoPool outcome" where
  "ScheduleById lock rnd coro idx p =
     (case coro of None \<Rightarrow> Return p
      | Some h \<Rightarrow>
          if cp_stopped p then Return p
          else if idx = - 1 then
            bind_outcome (if cp_steal p then schedule_try lock \<lparr>ti_handle = h, can_steal = True\<rparr> 0 (cp_threads p * 2) p else Return (False, p))
              (\<lambda>(pushed, p). if pushed then Return p
                 else if cp_threads p = 0 then Fault Uncaught
                 else cp_push (rnd mod cp_threads p) \<lparr>ti_handle = h, can_steal = cp_steal p\<rparr> p)
          else if idx < 0 \<or> nat idx \<ge> cp_threads p then Fault AssertFail
          else cp_push (nat idx) \<lparr>ti_handle = h, can_steal = False\<rparr> p)"

definition CoPool_stop :: "'h CoPool \<Rightarrow> 'h CoPool" where
  "CoPool_stop p = p\<lparr>cp_stopped := True, cp_queues := map bq_shut (cp_queues p)\<rparr>"

fun GetItemCount_from :: "nat \<Rightarrow> nat \<Rightarrow> 'h CoPool \<Rightarrow> nat outcome" where
  "GetItemCount_from i 0 p = Return 0"
| "GetItemCount_from i (Suc k) p =
     (if i < length (cp_queues p) then bind_outcome (GetItemCount_from (Suc i) k p) (\<lambda>n. Return (bq_size (cp_queues p ! i) + n))
      else Fault Uncaught)"

definition GetItemCount :: "'h CoPool \<Rightarrow> nat outcome" where
  "GetItemCount p = GetItemCount_from 0 (cp_threads p) p"

text \<open>The attempts of worker \<open>w\<close> to take an item that may be stolen, and its round: an item it resumes, a wait, or its end.\<close>

fun steal_try :: "(nat \<Rightarrow> bool) \<Rightarrow> nat \<Rightarrow> nat \<Rightarrow> nat \<Rightarrow> 'h CoPool \<Rightarrow> ('h TaskItem option \<times> 'h CoPool) outcome" where
  "steal_try lock w i 0 p = Return (None, p)"
| "steal_try lock w i (Suc k) p =
     (let n = (w + i) mod cp_threads p
      in if n \<ge> length (cp_queues p) then Fault OutOfBounds
         else case bq_try_pop_if (lock i) (Some can_steal) (cp_queues p ! n) of
             (Some item, q) \<Rightarrow> Return (Some item, cp_set n q p)
           | (None, _) \<Rightarrow> steal_try lock w (Suc i) k p)"

datatype 'h round = Resume 'h | Wait | Again_round | Return_round

definition co_worker :: "(nat \<Rightarrow> bool) \<Rightarrow> nat \<Rightarrow> 'h CoPool \<Rightarrow> ('h round \<times> 'h CoPool) outcome" where
  "co_worker lock w p =
     bind_outcome (if cp_steal p then steal_try lock w 0 (cp_threads p) p else Return (None, p)) (\<lambda>(item, p).
       case item of Some it \<Rightarrow> Return (Resume (ti_handle it), p)
       | None \<Rightarrow> if w \<ge> length (cp_queues p) then Fault OutOfBounds
           else case bq_pop (cp_queues p ! w) of
               None \<Rightarrow> Return (Wait, p)
             | Some (None, q) \<Rightarrow> Return (if cp_stopped p then Return_round else Again_round, p)
             | Some (Some it, q) \<Rightarrow> Return (Resume (ti_handle it), cp_set w q p))"

definition co_handles :: "'h CoPool \<Rightarrow> 'h multiset" where
  "co_handles p = sum_list (map (\<lambda>q. mset (map ti_handle (bq_items q))) (cp_queues p))"

text \<open>The scheduler puts coroutines that are spawned into any queue.\<close>

record 'h Promise =
  pr_handle :: 'h
  thrd_id :: int
  is_detached :: bool

definition co_spawn_task :: "int \<Rightarrow> (nat \<Rightarrow> bool) \<Rightarrow> nat \<Rightarrow> 'h Promise \<Rightarrow> 'h CoPool \<Rightarrow> ('h Promise \<times> 'h CoPool) outcome" where
  "co_spawn_task this_thread lock rnd task p =
     (let task = (if thrd_id task = - 1 then task\<lparr>thrd_id := this_thread\<rparr> else task)
      in if cp_threads p = 0 then Fault Uncaught
         else let task = task\<lparr>is_detached := True\<rparr>
              in bind_outcome (ScheduleById lock rnd (Some (pr_handle task)) (- 1) p) (\<lambda>p. Return (task, p)))"

section \<open>No coroutine is lost\<close>

lemma sum_list_update_mset:
  "i < length xs \<Longrightarrow> sum_list (map f (xs[i := x])) + f (xs ! i) = sum_list (map f xs) + (f x :: 'b multiset)"
  by (induction xs arbitrary: i) (auto simp: nth_Cons' less_Suc_eq_0_disj add.assoc add.commute split: nat.splits)

lemma co_handles_push:
  assumes "n < length (cp_queues p)" and "bq_items q = bq_items (cp_queues p ! n) @ [item]"
  shows "co_handles (cp_set n q p) = add_mset (ti_handle item) (co_handles p)"
  using sum_list_update_mset [OF assms(1), of "\<lambda>q. mset (map ti_handle (bq_items q))" q] assms(2)
  by (simp add: co_handles_def cp_set_def)

lemma co_handles_take:
  assumes "n < length (cp_queues p)" and "bq_items (cp_queues p ! n) = item # bq_items q"
  shows "co_handles p = add_mset (ti_handle item) (co_handles (cp_set n q p))"
  using sum_list_update_mset [OF assms(1), of "\<lambda>q. mset (map ti_handle (bq_items q))" q] assms(2)
  by (simp add: co_handles_def cp_set_def)

lemma schedule_try_adds:
  "schedule_try lock item i k p = Return (True, p') \<Longrightarrow> co_handles p' = add_mset (ti_handle item) (co_handles p)"
proof (induction lock item i k p rule: schedule_try.induct)
  case (2 lock item i k p)
  then show ?case by (auto simp: Let_def bq_try_push_def co_handles_push split: if_splits)
qed simp

lemma schedule_try_fails: "schedule_try lock item i k p = Return (False, p') \<Longrightarrow> p' = p"
  by (induction lock item i k p rule: schedule_try.induct) (auto simp: Let_def bq_try_push_def split: if_splits)

lemma steal_try_takes:
  "steal_try lock w i k p = Return (Some it, p') \<Longrightarrow> co_handles p = add_mset (ti_handle it) (co_handles p')"
proof (induction lock w i k p rule: steal_try.induct)
  case (2 lock w i k p)
  then show ?case by (auto simp: Let_def bq_try_pop_if_def co_handles_take split: if_splits list.splits)
qed simp

lemma steal_try_none: "steal_try lock w i k p = Return (None, p') \<Longrightarrow> p' = p"
  by (induction lock w i k p rule: steal_try.induct) (auto simp: Let_def bq_try_pop_if_def split: if_splits list.splits)

lemma schedule_adds:
  assumes "ScheduleById lock rnd (Some h) idx p = Return p'" and "\<not> cp_stopped p"
  shows "co_handles p' = add_mset h (co_handles p)"
proof -
  have push: "cp_push n it p = Return p' \<Longrightarrow> co_handles p' = add_mset (ti_handle it) (co_handles p)" for n it
    by (auto simp: cp_push_def co_handles_push bq_push_def split: if_splits)
  show ?thesis
    using assms push schedule_try_adds [of lock "\<lparr>ti_handle = h, can_steal = True\<rparr>" 0 "cp_threads p * 2" p] schedule_try_fails
    by (auto simp: ScheduleById_def bind_outcome_Return_iff split: if_splits) (use schedule_try_fails push in fastforce)
qed

lemma worker_takes:
  assumes "co_worker lock w p = Return (r, p')"
  shows "co_handles p = (case r of Resume h \<Rightarrow> add_mset h (co_handles p') | _ \<Rightarrow> co_handles p')"
proof -
  obtain item p1 where s: "(if cp_steal p then steal_try lock w 0 (cp_threads p) p else Return (None, p)) = Return (item, p1)"
    using assms by (auto simp: co_worker_def bind_outcome_Return_iff)
  show ?thesis
  proof (cases item)
    case None
    then have "p1 = p" using s steal_try_none by (auto split: if_splits)
    then show ?thesis using assms s None
      by (auto simp: co_worker_def bq_pop_def co_handles_take split: if_splits list.splits)
  next
    case (Some it)
    then show ?thesis using assms s steal_try_takes by (auto simp: co_worker_def split: if_splits)
  qed
qed

text \<open>
  The pool of coroutines neither loses nor repeats a coroutine: scheduling adds exactly the given one to the
  queues, whichever mutexes are taken, and a round of a worker removes exactly the one it resumes.
\<close>

theorem coroutines_conserved:
  assumes "ScheduleById lock rnd (Some h) idx p = Return p1" and "\<not> cp_stopped p" and "co_worker lock' w p1 = Return (r, p2)"
  shows "add_mset h (co_handles p) = (case r of Resume h' \<Rightarrow> add_mset h' (co_handles p2) | _ \<Rightarrow> co_handles p2)"
  using schedule_adds [OF assms(1,2)] worker_takes [OF assms(3)] by simp

theorem coroutines_conserved_witness:
  "\<exists>p1 p2. ScheduleById (\<lambda>_. True) 0 (Some 5) (- 1) (CoPool_init 4 2 True) = Return p1
     \<and> co_worker (\<lambda>_. True) 1 p1 = Return (Resume (5 :: nat), p2) \<and> co_handles p2 = co_handles (CoPool_init 4 2 True)"
proof -
  let ?p = "CoPool_init 4 2 True :: nat CoPool"
  let ?q = "cp_set 0 \<lparr>bq_items = [\<lparr>ti_handle = 5, can_steal = True\<rparr>], bq_stop = False\<rparr> ?p"
  have 1: "ScheduleById (\<lambda>_. True) 0 (Some 5) (- 1) ?p = Return ?q"
    by (simp add: ScheduleById_def CoPool_init_def bq_try_push_def BlockingQueue_init_def cp_set_def numeral_2_eq_2 Let_def)
  have 2: "co_worker (\<lambda>_. True) 1 ?q = Return (Resume 5, ?p)"
    by (simp add: co_worker_def CoPool_init_def bq_try_pop_if_def BlockingQueue_init_def cp_set_def numeral_2_eq_2 Let_def)
  from coroutines_conserved [OF 1 _ 2] 1 2 show ?thesis by (auto simp: CoPool_init_def)
qed

text \<open>When the mutexes are free every coroutine goes to the first queue.\<close>

lemma schedule_first_queue:
  assumes "cp_steal p" "\<not> cp_stopped p" "0 < cp_threads p" "cp_queues p \<noteq> []" "lock 0"
  shows "ScheduleById lock rnd (Some h) (- 1) p = Return (cp_set 0 (bq_push \<lparr>ti_handle = h, can_steal = True\<rparr> (cp_queues p ! 0)) p)"
  using assms by (cases "cp_threads p") (auto simp: ScheduleById_def bq_try_push_def bq_push_def Let_def)

end
