(* ===== verification/Logger.thy ===== *)
theory Logger
  imports Queues Str_Utils
begin

text \<open>
  \<^verbatim>\<open>common/logger_impl.h\<close>: lines are filtered by their level, queued, and written by one thread to files
  that are replaced when they reach a size. The text of the time, the identifier of the thread and the results of
  \<open>open\<close> and \<open>write\<close> are arguments; arguments of a message are given by the text that is printed for them.
\<close>

section \<open>Levels\<close>

datatype LogLevel = TRACE | DEBUG | INFO | WARN | ERROR | FATAL | CTRI

fun level_num :: "LogLevel \<Rightarrow> nat" where
  "level_num TRACE = 0" | "level_num DEBUG = 1" | "level_num INFO = 2" | "level_num WARN = 3"
| "level_num ERROR = 4" | "level_num FATAL = 5" | "level_num CTRI = 6"

lemma level_num_inject: "level_num a = level_num b \<Longrightarrow> a = b"
  by (cases a; cases b) simp_all

instantiation LogLevel :: linorder
begin

definition less_eq_LogLevel :: "LogLevel \<Rightarrow> LogLevel \<Rightarrow> bool" where
  "less_eq_LogLevel a b \<longleftrightarrow> level_num a \<le> level_num b"

definition less_LogLevel :: "LogLevel \<Rightarrow> LogLevel \<Rightarrow> bool" where
  "less_LogLevel a b \<longleftrightarrow> level_num a < level_num b"

instance
  by standard (auto simp: less_eq_LogLevel_def less_LogLevel_def dest: level_num_inject)

end

fun LogLevelToString :: "LogLevel \<Rightarrow> string" where
  "LogLevelToString TRACE = ''TRACE''" | "LogLevelToString INFO = ''INFO''" | "LogLevelToString DEBUG = ''DEBUG''"
| "LogLevelToString WARN = ''WARN''" | "LogLevelToString ERROR = ''ERROR''" | "LogLevelToString FATAL = ''FATAL''"
| "LogLevelToString CTRI = ''CTRI''"

definition colored :: "string \<Rightarrow> string \<Rightarrow> string" where
  "colored code text = CHR 0x1B # ''['' @ code @ ''m'' @ text @ CHR 0x1B # ''[0m''"

fun LogLevelToColorFulString :: "LogLevel \<Rightarrow> string" where
  "LogLevelToColorFulString TRACE = colored ''37'' ''TRACE''" | "LogLevelToColorFulString INFO = colored ''32'' ''INFO''"
| "LogLevelToColorFulString DEBUG = colored ''36'' ''DEBUG''" | "LogLevelToColorFulString WARN = colored ''33'' ''WARN''"
| "LogLevelToColorFulString ERROR = colored ''31'' ''ERROR''" | "LogLevelToColorFulString FATAL = colored ''35'' ''FATAL''"
| "LogLevelToColorFulString CTRI = colored ''35'' ''CTRI''"

section \<open>Lines and files\<close>

record LogLine =
  ll_level :: LogLevel
  ll_timestamp :: u64
  ll_thread :: int
  ll_file :: string
  ll_func :: string
  ll_line :: int
  ll_content :: string

definition log_data :: "(LogLevel \<Rightarrow> string) \<Rightarrow> string \<Rightarrow> LogLine \<Rightarrow> string" where
  "log_data level_text now l = Format (''[{}] {} {} {}:{} ({}) : {}'' @ [CHR 0x0A])
     [level_text (ll_level l), now, int_str (ll_thread l), ll_file l, int_str (ll_line l), ll_func l, ll_content l]"

text \<open>The contents of the files by their names, and what was printed to the console.\<close>

record log_world =
  lw_files :: "string \<Rightarrow> string"
  lw_console :: string

record FileWriter =
  fw_num :: u32
  fw_written :: int
  fw_roll :: u32
  fw_name :: string
  fw_file :: "string option"
  fw_stdout :: bool

definition ConsoleWriter_Write :: "string \<Rightarrow> LogLine \<Rightarrow> log_world \<Rightarrow> log_world" where
  "ConsoleWriter_Write now l w = w\<lparr>lw_console := lw_console w @ log_data LogLevelToColorFulString now l\<rparr>"

definition log_file_name :: "string \<Rightarrow> u32 \<Rightarrow> string" where
  "log_file_name name n = name @ Format ''.{}.log'' [to_string (unat n)]"

definition RollFile :: "(string \<Rightarrow> bool) \<Rightarrow> FileWriter \<Rightarrow> FileWriter" where
  "RollFile opens fw =
     (let name = log_file_name (fw_name fw) (fw_num fw + 1)
      in fw\<lparr>fw_written := 0, fw_num := fw_num fw + 1, fw_file := (if opens name then Some name else None)\<rparr>)"

definition FileWriter_init :: "(string \<Rightarrow> bool) \<Rightarrow> string \<Rightarrow> u32 \<Rightarrow> bool \<Rightarrow> FileWriter" where
  "FileWriter_init opens name roll_size_mb log_to_stdout =
     RollFile opens \<lparr>fw_num = 0, fw_written = 0, fw_roll = roll_size_mb * 1024 * 1024, fw_name = name, fw_file = None, fw_stdout = log_to_stdout\<rparr>"

text \<open>\<open>res\<close> is the result of \<open>write\<close> for a number of bytes: an error, or the number of bytes written, which are never more.
  A writer without an open file writes to the descriptor \<open>-1\<close>, which is an error.\<close>

definition FileWriter_Write ::
    "(string \<Rightarrow> bool) \<Rightarrow> (nat \<Rightarrow> nat option) \<Rightarrow> string \<Rightarrow> LogLine \<Rightarrow> FileWriter \<times> log_world \<Rightarrow> FileWriter \<times> log_world" where
  "FileWriter_Write opens res now l = (\<lambda>(fw, w).
     let data = log_data LogLevelToString now l
     in case fw_file fw of None \<Rightarrow> (fw, w)
        | Some f \<Rightarrow> (case res (length data) of None \<Rightarrow> (fw, w)
            | Some n \<Rightarrow>
                let written = take n data;
                    w = w\<lparr>lw_files := (lw_files w)(f := lw_files w f @ written)\<rparr>;
                    fw = fw\<lparr>fw_written := fw_written fw + int (length written)\<rparr>;
                    fw = (if fw_written fw \<ge> int (unat (fw_roll fw)) then RollFile opens fw else fw)
                in (fw, if fw_stdout fw then ConsoleWriter_Write now l w else w)))"

section \<open>The logger\<close>

datatype persist_pc = OuterLoop | InnerLoop | Ended

record Logger =
  lg_buffer :: "LogLine BlockingQueue"
  lg_stop :: bool
  lg_min_level :: LogLevel
  lg_thread :: persist_pc

definition Logger_init :: Logger where
  "Logger_init = \<lparr>lg_buffer = BlockingQueue_init, lg_stop = False, lg_min_level = INFO, lg_thread = OuterLoop\<rparr>"

definition SetLogLevel :: "LogLevel \<Rightarrow> Logger \<Rightarrow> Logger" where
  "SetLogLevel level lg = lg\<lparr>lg_min_level := level\<rparr>"

definition Log :: "u64 \<Rightarrow> int \<Rightarrow> LogLevel \<Rightarrow> string \<Rightarrow> string \<Rightarrow> int \<Rightarrow> string \<Rightarrow> string list \<Rightarrow> Logger \<Rightarrow> Logger" where
  "Log now thread level file func line fmt args lg =
     (if level < lg_min_level lg then lg
      else lg\<lparr>lg_buffer := bq_push \<lparr>ll_level = level, ll_timestamp = now, ll_thread = thread, ll_file = file, ll_func = func,
             ll_line = line, ll_content = Format fmt args\<rparr> (lg_buffer lg)\<rparr>)"

text \<open>A macro such as \<open>LOG_INFO\<close> logs; \<open>LOG_FATAL\<close> also ends the process.\<close>

definition LOG_FATAL :: "u64 \<Rightarrow> int \<Rightarrow> string \<Rightarrow> string \<Rightarrow> int \<Rightarrow> string \<Rightarrow> string list \<Rightarrow> Logger \<Rightarrow> Logger outcome" where
  "LOG_FATAL now thread file func line fmt args lg =
     (case Log now thread FATAL file func line fmt args lg of _ \<Rightarrow> Fault ExitCall)"

text \<open>A step of \<open>PersistThreadFunc\<close>, with the line that it hands to the writer.\<close>

definition persist_step :: "Logger \<Rightarrow> LogLine option \<times> Logger" where
  "persist_step lg =
     (case lg_thread lg of
        OuterLoop \<Rightarrow> (None, lg\<lparr>lg_thread := (if lg_stop lg then Ended else InnerLoop)\<rparr>)
      | InnerLoop \<Rightarrow> (case bq_pop (lg_buffer lg) of
            None \<Rightarrow> (None, lg)
          | Some (None, q) \<Rightarrow> (None, lg\<lparr>lg_buffer := q, lg_thread := OuterLoop\<rparr>)
          | Some (Some l, q) \<Rightarrow> (Some l, lg\<lparr>lg_buffer := q\<rparr>))
      | Ended \<Rightarrow> (None, lg))"

fun persist_run :: "nat \<Rightarrow> Logger \<Rightarrow> LogLine list \<times> Logger" where
  "persist_run 0 lg = ([], lg)"
| "persist_run (Suc n) lg =
     (case persist_step lg of (l, lg') \<Rightarrow> case persist_run n lg' of (ls, lg'') \<Rightarrow> ((case l of None \<Rightarrow> ls | Some x \<Rightarrow> x # ls), lg''))"

text \<open>The destructor, up to the join.\<close>

definition Logger_stop :: "Logger \<Rightarrow> Logger" where
  "Logger_stop lg = lg\<lparr>lg_stop := True, lg_buffer := bq_shut (lg_buffer lg)\<rparr>"

text \<open>
  What can happen to a logger, in any order: a thread logs or sets the level, the thread that persists makes a step, with
  the results of \<open>open\<close> and \<open>write\<close> and the text of the time where it writes a line, or the logger is destroyed.
\<close>

datatype log_event = Logged u64 int LogLevel string string int string "string list"
  | LevelSet LogLevel | Persisted "string \<Rightarrow> bool" "nat \<Rightarrow> nat option" string | Destroyed

type_synonym log_system = "Logger \<times> FileWriter \<times> log_world"

fun logger_step :: "log_event \<Rightarrow> log_system \<Rightarrow> log_system" where
  "logger_step (Logged now thread level f func line fmt args) (lg, fw, w) = (Log now thread level f func line fmt args lg, fw, w)"
| "logger_step (LevelSet level) (lg, fw, w) = (SetLogLevel level lg, fw, w)"
| "logger_step (Persisted opens res now) (lg, fw, w) =
     (case persist_step lg of (None, lg') \<Rightarrow> (lg', fw, w)
      | (Some l, lg') \<Rightarrow> (lg', FileWriter_Write opens res now l (fw, w)))"
| "logger_step Destroyed (lg, fw, w) = (Logger_stop lg, fw, w)"

definition logger_run :: "log_event list \<Rightarrow> log_system \<Rightarrow> log_system" where
  "logger_run = fold logger_step"

section \<open>Files in order\<close>

lemma log_file_name_eq: "log_file_name name n = name @ ''.'' @ to_string (unat n) @ ''.log''"
  by (simp add: log_file_name_def Format_def FormatHelper_def find_from_def)

lemma log_file_name_inject [simp]: "log_file_name name m = log_file_name name n \<longleftrightarrow> m = n"
  by (simp add: log_file_name_eq word_unat_eq_iff)

abbreviation all_opens :: "string \<Rightarrow> bool" where
  "all_opens \<equiv> \<lambda>_. True"

text \<open>The file with number \<open>i\<close>. What holds when lines with the texts \<open>t\<close> have been written and file \<open>n\<close> is the current one:
  the files behind it are not used, those before it are full.\<close>

definition log_file :: "string \<Rightarrow> log_world \<Rightarrow> nat \<Rightarrow> string" where
  "log_file name w i = lw_files w (log_file_name name (word_of_nat i))"

definition files_hold :: "nat \<Rightarrow> nat \<Rightarrow> string \<Rightarrow> (nat \<Rightarrow> string) \<Rightarrow> bool" where
  "files_hold roll n t g \<longleftrightarrow> 1 \<le> n \<and> n < 2 ^ 32 \<and> (\<forall>i. n < i \<and> i < 2 ^ 32 \<longrightarrow> g i = []) \<and> concat (map g [1..<Suc n]) = t
     \<and> length (g n) < roll \<and> (\<forall>i. 1 \<le> i \<and> i < n \<longrightarrow> roll \<le> length (g i))"

definition writer_inv :: "nat \<Rightarrow> string \<Rightarrow> FileWriter \<times> log_world \<Rightarrow> bool" where
  "writer_inv n t = (\<lambda>(fw, w). fw_num fw = word_of_nat n \<and> fw_file fw \<in> {None, Some (log_file_name (fw_name fw) (word_of_nat n))}
     \<and> fw_written fw = int (length (log_file (fw_name fw) w n)) \<and> files_hold (unat (fw_roll fw)) n t (log_file (fw_name fw) w))"

lemma concat_append_last:
  assumes "1 \<le> n" "n < 2 ^ 32" "g' n = g n @ d" "\<forall>i < 2 ^ 32. i \<noteq> n \<longrightarrow> g' i = g i"
  shows "concat (map g' [1..<Suc n]) = concat (map g [1..<Suc n]) @ d"
proof -
  have "concat (map g' [1..<n]) = concat (map g [1..<n])" using assms by (intro arg_cong [of _ _ concat] map_cong) auto
  moreover have "[1..<Suc n] = [1..<n] @ [n]" using assms(1) by simp
  ultimately show ?thesis using assms(3) by (simp del: upt_Suc One_nat_def)
qed

lemma files_hold_append:
  assumes "files_hold roll n t g" "g' n = g n @ d" "\<forall>i < 2 ^ 32. i \<noteq> n \<longrightarrow> g' i = g i" "length (g' n) < roll"
  shows "files_hold roll n (t @ d) g'"
  using assms concat_append_last [of n g' g d] by (auto simp: files_hold_def simp del: upt_Suc)

lemma files_hold_roll:
  assumes "files_hold roll n t g" "g' n = g n @ d" "\<forall>i < 2 ^ 32. i \<noteq> n \<longrightarrow> g' i = g i" "roll \<le> length (g' n)" "Suc n < 2 ^ 32" "0 < roll"
  shows "files_hold roll (Suc n) (t @ d) g'"
proof -
  have "g' (Suc n) = []" using assms by (simp add: files_hold_def)
  moreover have "concat (map g' [1..<Suc n]) = t @ d"
    using assms concat_append_last [of n g' g d] by (simp add: files_hold_def del: upt_Suc)
  moreover have "[1..<Suc (Suc n)] = [1..<Suc n] @ [Suc n]" by simp
  ultimately have "concat (map g' [1..<Suc (Suc n)]) = t @ d" by (simp del: upt_Suc One_nat_def)
  then show ?thesis using assms \<open>g' (Suc n) = []\<close> by (auto simp: files_hold_def less_Suc_eq simp del: upt_Suc)
qed

lemma log_file_write:
  assumes "n < 2 ^ 32"
  shows "log_file name (w\<lparr>lw_files := (lw_files w)(log_file_name name (word_of_nat n) := x)\<rparr>) n = x"
    and "\<forall>i < 2 ^ 32. i \<noteq> n \<longrightarrow> log_file name (w\<lparr>lw_files := (lw_files w)(log_file_name name (word_of_nat n) := x)\<rparr>) i = log_file name w i"
  using assms by (auto simp: log_file_def word_of_nat_eq_iff take_bit_nat_eq_self)

lemma log_file_console [simp]: "log_file name (ConsoleWriter_Write now l w) = log_file name w"
  by (simp add: log_file_def ConsoleWriter_Write_def fun_eq_iff)

lemma write_piece:
  assumes "writer_inv n t (fw, w)" and "Suc n < 2 ^ 32" and f: "fw_file fw = Some (log_file_name (fw_name fw) (word_of_nat n))"
    and k: "res (length (log_data LogLevelToString now l)) = Some k" and "FileWriter_Write opens res now l (fw, w) = (fw', w')"
  shows "(\<exists>m \<le> Suc n. writer_inv m (t @ take k (log_data LogLevelToString now l)) (fw', w')) \<and> fw_name fw' = fw_name fw \<and> fw_roll fw' = fw_roll fw
    \<and> (opens = all_opens \<longrightarrow> fw_file fw' \<noteq> None)"
proof -
  let ?d = "take k (log_data LogLevelToString now l)" and ?f = "log_file_name (fw_name fw) (word_of_nat n)"
  let ?w = "w\<lparr>lw_files := (lw_files w)(?f := lw_files w ?f @ ?d)\<rparr>" and ?fw = "fw\<lparr>fw_written := fw_written fw + int (length ?d)\<rparr>"
  have inv: "fw_num fw = word_of_nat n" "fw_written fw = int (length (log_file (fw_name fw) w n))"
    "files_hold (unat (fw_roll fw)) n t (log_file (fw_name fw) w)" using assms(1) by (simp_all add: writer_inv_def)
  have n: "n < 2 ^ 32" "0 < unat (fw_roll fw)" using inv(3) by (auto simp: files_hold_def)
  have g: "log_file (fw_name fw) ?w n = log_file (fw_name fw) w n @ ?d" "\<forall>i < 2 ^ 32. i \<noteq> n \<longrightarrow> log_file (fw_name fw) ?w i = log_file (fw_name fw) w i"
    using log_file_write [OF n(1), where w = w and name = "fw_name fw"] by (simp_all add: log_file_def)
  have lw: "log_file (fw_name fw) w' = log_file (fw_name fw) ?w"
    using assms(5) f k by (auto simp: FileWriter_Write_def Let_def split: if_splits)
  have wr: "fw_written ?fw = int (length (log_file (fw_name fw) ?w n))" using inv(2) g(1) by simp
  show ?thesis
  proof (cases "fw_written ?fw < int (unat (fw_roll fw))")
    case True
    then have fw: "fw' = ?fw" using assms(5) f k by (auto simp: FileWriter_Write_def Let_def split: if_splits)
    have "files_hold (unat (fw_roll fw)) n (t @ ?d) (log_file (fw_name fw) ?w)"
      using True by (intro files_hold_append [OF inv(3) g]) (simp only: wr of_nat_less_iff)
    then have "writer_inv n (t @ ?d) (fw', w')" using fw lw wr inv(1) f by (simp add: writer_inv_def)
    then show ?thesis using fw f by (intro conjI exI [of _ n]) simp_all
  next
    case False
    then have fw: "fw' = RollFile opens ?fw" using assms(5) f k by (auto simp: FileWriter_Write_def Let_def split: if_splits)
    have "files_hold (unat (fw_roll fw)) (Suc n) (t @ ?d) (log_file (fw_name fw) ?w)"
      using False by (intro files_hold_roll [OF inv(3) g _ assms(2) n(2)]) (simp only: wr of_nat_less_iff not_less)
    moreover from this have "log_file (fw_name fw) ?w (Suc n) = []" using inv(3) g(2) assms(2) by (simp add: files_hold_def)
    ultimately have "writer_inv (Suc n) (t @ ?d) (fw', w')" using fw lw inv(1) by (simp add: writer_inv_def RollFile_def Let_def)
    then show ?thesis using fw by (intro conjI exI [of _ "Suc n"]) (simp_all add: RollFile_def Let_def)
  qed
qed

lemma write_inv:
  assumes "writer_inv n t (fw, w)" and "Suc n < 2 ^ 32" and w: "FileWriter_Write opens res now l (fw, w) = (fw', w')"
  shows "\<exists>m k. m \<le> Suc n \<and> writer_inv m (t @ take k (log_data LogLevelToString now l)) (fw', w') \<and> fw_name fw' = fw_name fw \<and> fw_roll fw' = fw_roll fw
    \<and> (opens = all_opens \<and> res = Some \<and> fw_file fw \<noteq> None \<longrightarrow> length (log_data LogLevelToString now l) \<le> k \<and> fw_file fw' \<noteq> None)"
proof (cases "fw_file fw = None \<or> res (length (log_data LogLevelToString now l)) = None")
  case True
  then have "fw' = fw" "w' = w" using w by (auto simp: FileWriter_Write_def Let_def split: option.splits)
  with True assms(1) show ?thesis by (intro exI [of _ n] exI [of _ 0]) auto
next
  case False
  then obtain k where k: "res (length (log_data LogLevelToString now l)) = Some k" by auto
  have "fw_file fw = Some (log_file_name (fw_name fw) (word_of_nat n))" using False assms(1) by (auto simp: writer_inv_def)
  from write_piece [where res = res, OF assms(1,2) this k w] k show ?thesis by auto
qed

text \<open>The lines that pass the filter.\<close>

fun accepted :: "LogLevel \<Rightarrow> log_event list \<Rightarrow> LogLine list" where
  "accepted min_level [] = []"
| "accepted min_level (Logged now thread level f func line fmt args # es) =
     (if level < min_level then [] else [\<lparr>ll_level = level, ll_timestamp = now, ll_thread = thread, ll_file = f, ll_func = func,
        ll_line = line, ll_content = Format fmt args\<rparr>]) @ accepted min_level es"
| "accepted min_level (LevelSet level # es) = accepted level es"
| "accepted min_level (_ # es) = accepted min_level es"

definition io_succeeds :: "log_event list \<Rightarrow> bool" where
  "io_succeeds es \<longleftrightarrow> (\<forall>opens res now. Persisted opens res now \<in> set es \<longrightarrow> opens = all_opens \<and> res = Some)"

text \<open>What the writer has of the lines \<open>ls\<close>, each with the text of its time: a part of each text, possibly none of it.\<close>

definition parts_of :: "string list \<Rightarrow> (string \<times> LogLine) list \<Rightarrow> bool" where
  "parts_of ps ls \<longleftrightarrow> list_all2 (\<lambda>p (now, l). \<exists>k. p = take k (log_data LogLevelToString now l)) ps ls"

lemma persist_cases:
  assumes "persist_step lg = (r, lg')"
  shows "bq_items (lg_buffer lg) = (case r of None \<Rightarrow> [] | Some l \<Rightarrow> [l]) @ bq_items (lg_buffer lg') \<and> lg_min_level lg' = lg_min_level lg"
  using assms by (auto simp: persist_step_def bq_pop_def split: persist_pc.splits if_splits list.splits)

lemma run_inv:
  assumes "writer_inv n t (fw, w)" and "n + length es < 2 ^ 32"
  shows "\<exists>m lg' fw' w' ls ps. logger_run es (lg, fw, w) = (lg', fw', w') \<and> writer_inv m (t @ concat ps) (fw', w') \<and> fw_name fw' = fw_name fw \<and> fw_roll fw' = fw_roll fw
    \<and> bq_items (lg_buffer lg) @ accepted (lg_min_level lg) es = map snd ls @ bq_items (lg_buffer lg') \<and> parts_of ps ls
    \<and> (io_succeeds es \<and> fw_file fw \<noteq> None \<longrightarrow> ps = map (\<lambda>(now, l). log_data LogLevelToString now l) ls)"
  using assms
proof (induction es arbitrary: n t lg fw w)
  case Nil
  then show ?case by (intro exI [of _ n] exI [of _ lg] exI [of _ fw] exI [of _ w] exI [of _ "[]"]) (simp add: logger_run_def parts_of_def)
next
  case (Cons e es)
  note IH = Cons.IH [unfolded logger_run_def]
  show ?case
  proof (cases "\<exists>opens res now l lg'. e = Persisted opens res now \<and> persist_step lg = (Some l, lg')")
    case True
    then obtain opens res now l lg1 where e: "e = Persisted opens res now" and st: "persist_step lg = (Some l, lg1)" by blast
    obtain fw1 w1 where s: "FileWriter_Write opens res now l (fw, w) = (fw1, w1)" by fastforce
    let ?d = "log_data LogLevelToString now l"
    have "Suc n < 2 ^ 32" using Cons.prems(2) by simp
    from write_inv [OF Cons.prems(1) this s] obtain m k where m: "m \<le> Suc n" "writer_inv m (t @ take k ?d) (fw1, w1)" "fw_name fw1 = fw_name fw"
      "fw_roll fw1 = fw_roll fw" "opens = all_opens \<and> res = Some \<and> fw_file fw \<noteq> None \<longrightarrow> length ?d \<le> k \<and> fw_file fw1 \<noteq> None" by blast
    have "m + length es < 2 ^ 32" using m(1) Cons.prems(2) by simp
    from IH [OF m(2) this, of lg1] obtain m' lg' fw' w' ls ps where
      r: "fold logger_step es (lg1, fw1, w1) = (lg', fw', w')" "writer_inv m' (t @ take k ?d @ concat ps) (fw', w')" "fw_name fw' = fw_name fw1" "fw_roll fw' = fw_roll fw1"
        "bq_items (lg_buffer lg1) @ accepted (lg_min_level lg1) es = map snd ls @ bq_items (lg_buffer lg')" "parts_of ps ls"
        "io_succeeds es \<and> fw_file fw1 \<noteq> None \<longrightarrow> ps = map (\<lambda>(now, l). log_data LogLevelToString now l) ls" unfolding append_assoc by blast
    show ?thesis using r m e s st persist_cases [OF st]
      by (intro exI [of _ m'] exI [of _ lg'] exI [of _ fw'] exI [of _ w'] exI [of _ "(now, l) # ls"] exI [of _ "take k ?d # ps"])
        (auto simp: logger_run_def parts_of_def io_succeeds_def)
  next
    case False
    then obtain lg1 where lg1: "logger_step e (lg, fw, w) = (lg1, fw, w)"
      "bq_items (lg_buffer lg) @ accepted (lg_min_level lg) (e # es) = bq_items (lg_buffer lg1) @ accepted (lg_min_level lg1) es"
    proof (cases e)
      case (Persisted opens res now)
      obtain r lg1 where st: "persist_step lg = (r, lg1)" by fastforce
      then have "r = None" using False Persisted by (cases r) auto
      then show thesis using that [of lg1] st persist_cases [OF st] Persisted by simp
    qed (auto intro: that simp: Log_def SetLogLevel_def Logger_stop_def bq_push_def bq_shut_def)
    have "io_succeeds (e # es) \<Longrightarrow> io_succeeds es" by (auto simp: io_succeeds_def)
    then show ?thesis using IH [OF Cons.prems(1), of lg1] Cons.prems(2) lg1 by (simp add: logger_run_def) metis
  qed
qed

lemma fresh_writer:
  assumes "\<forall>f. lw_files w f = []" and "0 < unat (mb * 1024 * 1024)"
  shows "writer_inv 1 [] (FileWriter_init opens name mb out, w)"
  using assms by (simp add: writer_inv_def files_hold_def FileWriter_init_def RollFile_def log_file_def Let_def)

text \<open>
  C38. Whatever the order in which lines are logged, the thread that persists them runs and the logger is destroyed, and whatever
  the results of opening and writing the files: the lines that pass the filter are those taken for writing followed by those
  still in the queue, in the order in which they were logged; the files, which were empty at the start, hold by increasing number a part of the text of each line that was taken,
  and its whole text if every file could be opened and every write was complete; every file but the last has reached the size limit, and the last has not.
\<close>

theorem log_files_in_order:
  assumes "\<forall>f. lw_files w f = []" and "0 < unat (mb * 1024 * 1024)" and "length es + 1 < 2 ^ 32"
  shows "\<exists>lg fw w' ls ps n. logger_run es (Logger_init, FileWriter_init opens name mb out, w) = (lg, fw, w')
    \<and> accepted INFO es = map snd ls @ bq_items (lg_buffer lg)
    \<and> concat (map (log_file name w') [1..<Suc n]) = concat ps \<and> parts_of ps ls
    \<and> (opens = all_opens \<and> io_succeeds es \<longrightarrow> ps = map (\<lambda>(now, l). log_data LogLevelToString now l) ls)
    \<and> (\<forall>i. 1 \<le> i \<and> i < n \<longrightarrow> unat (mb * 1024 * 1024) \<le> length (log_file name w' i)) \<and> length (log_file name w' n) < unat (mb * 1024 * 1024)"
proof -
  let ?fw = "FileWriter_init opens name mb out"
  have f: "fw_name ?fw = name" "fw_roll ?fw = mb * 1024 * 1024" "opens = all_opens \<Longrightarrow> fw_file ?fw \<noteq> None"
    by (simp_all add: FileWriter_init_def RollFile_def Let_def)
  have init: "bq_items (lg_buffer Logger_init) = []" "lg_min_level Logger_init = INFO" by (simp_all add: Logger_init_def BlockingQueue_init_def)
  have "1 + length es < 2 ^ 32" using assms(3) by simp
  from run_inv [OF fresh_writer [OF assms(1,2)] this, where lg = Logger_init, of opens name out] obtain n lg fw' w' ls ps where
    w: "logger_run es (Logger_init, ?fw, w) = (lg, fw', w')" "fw_name fw' = name" "fw_roll fw' = mb * 1024 * 1024" "writer_inv n (concat ps) (fw', w')"
      "accepted INFO es = map snd ls @ bq_items (lg_buffer lg)" "parts_of ps ls"
      "opens = all_opens \<and> io_succeeds es \<longrightarrow> ps = map (\<lambda>(now, l). log_data LogLevelToString now l) ls"
    using f(3) unfolding f(1,2) init append_Nil by blast
  then have "files_hold (unat (mb * 1024 * 1024)) n (concat ps) (log_file name w')" by (simp add: writer_inv_def)
  with w(1,5-7) show ?thesis unfolding files_hold_def by blast
qed

definition ex_line :: LogLine where
  "ex_line = \<lparr>ll_level = WARN, ll_timestamp = 0, ll_thread = 9, ll_file = ''db.cpp'', ll_func = ''Put'', ll_line = 12, ll_content = ''full''\<rparr>"

definition ex_events :: "log_event list" where
  "ex_events = [Logged 0 9 DEBUG ''db.cpp'' ''Put'' 11 ''x'' [], Logged 0 9 WARN ''db.cpp'' ''Put'' 12 ''full'' [], Persisted all_opens Some ''now'',
     Logged 0 9 WARN ''db.cpp'' ''Put'' 12 ''full'' [], Destroyed, Persisted all_opens Some ''now'']"

theorem log_files_in_order_witness:
  "\<exists>lg fw w' n now. logger_run ex_events (Logger_init, FileWriter_init all_opens ''./log'' 32 True, \<lparr>lw_files = \<lambda>_. [], lw_console = []\<rparr>) = (lg, fw, w')
    \<and> bq_items (lg_buffer lg) = [ex_line] \<and> concat (map (log_file ''./log'' w') [1..<Suc n]) = log_data LogLevelToString now ex_line"
proof -
  have a: "accepted INFO ex_events = [ex_line, ex_line]" by (simp add: ex_events_def ex_line_def less_LogLevel_def Format_def)
  have io: "io_succeeds ex_events" "length ex_events + 1 < 2 ^ 32" by (simp_all add: ex_events_def io_succeeds_def)
  have pos: "0 < unat ((32 :: u32) * 1024 * 1024)" by simp
  let ?w = "\<lparr>lw_files = \<lambda>_. [], lw_console = []\<rparr> :: log_world"
  obtain lg fw w' ls ps n where r: "logger_run ex_events (Logger_init, FileWriter_init all_opens ''./log'' 32 True, ?w) = (lg, fw, w')"
    "[ex_line, ex_line] = map snd ls @ bq_items (lg_buffer lg)" "concat (map (log_file ''./log'' w') [1..<Suc n]) = concat ps"
    "ps = map (\<lambda>(now, l). log_data LogLevelToString now l) ls"
    using log_files_in_order [OF _ pos io(2), of ?w all_opens "''./log''" True] io(1) a by auto
  have "bq_items (lg_buffer (fst (logger_run ex_events (Logger_init, FileWriter_init all_opens ''./log'' 32 True, ?w)))) = [ex_line]"
    by (simp add: logger_run_def ex_events_def Log_def Logger_init_def BlockingQueue_init_def persist_step_def bq_push_def bq_pop_def
        Logger_stop_def bq_shut_def ex_line_def less_LogLevel_def Format_def split_beta)
  then have q: "bq_items (lg_buffer lg) = [ex_line]" using r(1) by simp
  then obtain now where "ls = [(now, ex_line)]" using r(2) by (cases ls) auto
  with r q show ?thesis by (intro exI [of _ lg] exI [of _ fw] exI [of _ w'] exI [of _ n] exI [of _ now]) simp
qed

section \<open>The end of the logger\<close>

lemma persist_ended: "lg_thread lg = Ended \<Longrightarrow> persist_run n lg = ([], lg)"
  by (induction n) (simp_all add: persist_step_def)

lemma persist_outer:
  "lg_stop lg \<Longrightarrow> lg_thread lg = OuterLoop \<Longrightarrow> 0 < n \<Longrightarrow> persist_run n lg = ([], lg\<lparr>lg_thread := Ended\<rparr>)"
  by (cases n) (simp_all add: persist_step_def persist_ended)

lemma persist_inner:
  assumes "lg_stop lg" "lg_thread lg = InnerLoop" "bq_stop (lg_buffer lg)" "length (bq_items (lg_buffer lg)) + 2 \<le> n"
  shows "\<exists>lg'. persist_run n lg = (bq_items (lg_buffer lg), lg') \<and> lg_thread lg' = Ended"
  using assms
proof (induction "length (bq_items (lg_buffer lg))" arbitrary: lg n)
  case 0
  then have p: "bq_pop (lg_buffer lg) = Some (None, lg_buffer lg)" using bq.pop_closed [of "lg_buffer lg"] by simp
  obtain m where m: "n = Suc m" "0 < m" using 0 by (cases n) auto
  then show ?case using 0 p persist_outer [of "lg\<lparr>lg_thread := OuterLoop\<rparr>" m] by (simp add: persist_step_def)
next
  case (Suc k)
  then obtain x xs where x: "bq_items (lg_buffer lg) = x # xs" by (cases "bq_items (lg_buffer lg)") auto
  obtain q where q: "bq_pop (lg_buffer lg) = Some (Some x, q)" "bq_items q = xs" "bq_stop q" using bq.pop_first [OF x] Suc.prems(3) by blast
  obtain m where m: "n = Suc m" using Suc.prems by (cases n) auto
  have "\<exists>lg'. persist_run m (lg\<lparr>lg_buffer := q\<rparr>) = (xs, lg') \<and> lg_thread lg' = Ended"
    using Suc.hyps(1) [of "lg\<lparr>lg_buffer := q\<rparr>" m] Suc.hyps(2) Suc.prems q x m by simp
  then show ?case using q x m Suc.prems by (auto simp: persist_step_def)
qed

text \<open>
  When the logger is destroyed, a thread that is inside its inner loop still writes all queued lines, in order,
  and ends; a thread that has not entered it yet ends at once, and the queued lines are lost.
\<close>

theorem logger_end:
  assumes "length (bq_items (lg_buffer lg)) + 2 \<le> n"
  shows "(lg_thread lg = InnerLoop \<longrightarrow> (\<exists>lg'. persist_run n (Logger_stop lg) = (bq_items (lg_buffer lg), lg') \<and> lg_thread lg' = Ended))
    \<and> (lg_thread lg = OuterLoop \<longrightarrow> (\<exists>lg'. persist_run n (Logger_stop lg) = ([], lg') \<and> lg_thread lg' = Ended \<and> lg_buffer lg' = bq_shut (lg_buffer lg)))"
  using persist_inner [of "Logger_stop lg" n] persist_outer [of "Logger_stop lg" n] assms
  by (auto simp: Logger_stop_def bq_shut_def)

theorem logger_end_witness:
  "\<exists>lg'. persist_run 5 (Logger_stop (Log 0 9 WARN ''db.cpp'' ''Put'' 12 ''full'' [] Logger_init)) = ([], lg')
     \<and> lg_buffer lg' = \<lparr>bq_items = [ex_line], bq_stop = True\<rparr>"
proof -
  have 1: "lg_buffer (Log 0 9 WARN ''db.cpp'' ''Put'' 12 ''full'' [] Logger_init) = \<lparr>bq_items = [ex_line], bq_stop = False\<rparr>"
    "lg_thread (Log 0 9 WARN ''db.cpp'' ''Put'' 12 ''full'' [] Logger_init) = OuterLoop"
    by (simp_all add: Log_def Logger_init_def less_LogLevel_def bq_push_def BlockingQueue_init_def ex_line_def Format_def)
  then show ?thesis using logger_end [of "Log 0 9 WARN ''db.cpp'' ''Put'' 12 ''full'' [] Logger_init" 5] by (auto simp: bq_shut_def)
qed

end
