(* ===== verification/Coroutines.thy ===== *)
theory Coroutines
  imports Prelude
begin

text \<open>
  \<^verbatim>\<open>co/task.h\<close>: tasks own the frame of a coroutine, unless they are detached. Frames live in a store from handles to
  promises; a handle that is not there any more is dangling, and using it is a fault. A frame also has the point at which its
  coroutine is suspended. What is left of a coroutine is its code: the operations of the language that a coroutine
  consists of, between which it computes.
\<close>

section \<open>Frames\<close>

text \<open>
  \<open>co_await c k\<close> awaits a new task for \<open>c\<close> and goes on with its value; \<open>co_suspend\<close> awaits something of the event loop,
  which keeps the handle and resumes it later. An exception leaves the coroutine by \<open>co_throw\<close>.
\<close>

datatype 'v code = co_return 'v | co_throw | co_yield 'v "'v code" | co_suspend "'v code" | co_await "'v code" "'v \<Rightarrow> 'v code"

datatype 'v point = At "'v code" | Awaiting nat "'v \<Rightarrow> 'v code" | Finished

record 'v PromiseBase =
  continuation :: "nat option"
  is_detached :: bool
  thrd_id :: int
  value_set :: "'v option"
  point :: "'v point"

definition Promise_init :: "'v code \<Rightarrow> 'v PromiseBase" where
  "Promise_init c = \<lparr>continuation = None, is_detached = False, thrd_id = - 1, value_set = None, point = At c\<rparr>"

text \<open>The frames, the handle of the next one, and the handles that the event loop keeps.\<close>

record 'v co_heap =
  frames :: "nat \<rightharpoonup> 'v PromiseBase"
  next_frame :: nat
  parked :: "nat list"

definition promise :: "nat \<Rightarrow> 'v co_heap \<Rightarrow> 'v PromiseBase outcome" where
  "promise h s = deref (frames s h)"

definition set_promise :: "nat \<Rightarrow> 'v PromiseBase \<Rightarrow> 'v co_heap \<Rightarrow> 'v co_heap" where
  "set_promise h p s = s\<lparr>frames := (frames s)(h \<mapsto> p)\<rparr>"

definition destroy :: "nat \<Rightarrow> 'v co_heap \<Rightarrow> 'v co_heap" where
  "destroy h s = s\<lparr>frames := (frames s)(h := None)\<rparr>"

text \<open>The value of a promise; reading one that was never set reads an indeterminate value.\<close>

definition Result_result :: "'v \<Rightarrow> 'v PromiseBase \<Rightarrow> 'v" where
  "Result_result indeterminate p = (case value_set p of Some v \<Rightarrow> v | None \<Rightarrow> indeterminate)"

text \<open>\<open>final_suspend\<close>: the coroutine that runs next; \<open>None\<close> is \<open>noop_coroutine\<close>.\<close>

definition final_suspend :: "nat \<Rightarrow> 'v co_heap \<Rightarrow> (nat option \<times> 'v co_heap) outcome" where
  "final_suspend h s = bind_outcome (promise h s) (\<lambda>p.
     Return (continuation p, if is_detached p then destroy h s else s))"

section \<open>Tasks\<close>

text \<open>A task is its handle, or empty.\<close>

definition Task_create :: "'v code \<Rightarrow> 'v co_heap \<Rightarrow> nat option \<times> 'v co_heap" where
  "Task_create c s = (Some (next_frame s), (set_promise (next_frame s) (Promise_init c) s)\<lparr>next_frame := Suc (next_frame s)\<rparr>)"

definition Task_move :: "nat option \<Rightarrow> nat option \<times> nat option" where
  "Task_move other = (other, None)"

definition Task_destroy :: "nat option \<Rightarrow> 'v co_heap \<Rightarrow> 'v co_heap" where
  "Task_destroy t s = (case t of None \<Rightarrow> s | Some h \<Rightarrow> destroy h s)"

definition Task_ready :: "nat option \<Rightarrow> 'v co_heap \<Rightarrow> bool outcome" where
  "Task_ready t s = (case t of None \<Rightarrow> Return True | Some h \<Rightarrow> bind_outcome (promise h s) (\<lambda>p. Return (case point p of Finished \<Rightarrow> True | _ \<Rightarrow> False)))"

definition Task_result :: "'v \<Rightarrow> nat option \<Rightarrow> 'v co_heap \<Rightarrow> 'v outcome" where
  "Task_result indeterminate t s = bind_outcome (deref t) (\<lambda>h. bind_outcome (promise h s) (\<lambda>p. Return (Result_result indeterminate p)))"

definition Task_detach :: "nat option \<Rightarrow> 'v co_heap \<Rightarrow> (nat option \<times> 'v co_heap) outcome" where
  "Task_detach t s = bind_outcome (deref t) (\<lambda>h. bind_outcome (promise h s) (\<lambda>p.
     Return (None, set_promise h (p\<lparr>is_detached := True\<rparr>) s)))"

text \<open>\<open>co_await\<close> of a task by coroutine \<open>c\<close>: whether it does not suspend, and the coroutine that runs next if it does.\<close>

definition await_ready :: "nat option \<Rightarrow> 'v co_heap \<Rightarrow> bool outcome" where
  "await_ready t s = (case t of None \<Rightarrow> Return True | Some h \<Rightarrow> bind_outcome (promise h s) (\<lambda>p. Return (case point p of Finished \<Rightarrow> True | _ \<Rightarrow> False)))"

definition await_suspend :: "nat \<Rightarrow> nat \<Rightarrow> 'v co_heap \<Rightarrow> (nat option \<times> 'v co_heap) outcome" where
  "await_suspend h c s = bind_outcome (promise h s) (\<lambda>p. Return (Some h, set_promise h (p\<lparr>continuation := Some c\<rparr>) s))"

section \<open>Running\<close>

text \<open>
  The running coroutine up to its next operation, with the coroutine that runs next. \<open>Awaiting\<close> is \<open>await_resume\<close>, after which the
  awaited task, a temporary, is destroyed. \<open>unhandled_exception\<close> only logs. Resuming a coroutine that is at its end is undefined.
\<close>

definition co_step :: "'v \<Rightarrow> nat \<Rightarrow> 'v co_heap \<Rightarrow> (nat option \<times> 'v co_heap) outcome" where
  "co_step indeterminate h s = bind_outcome (promise h s) (\<lambda>p.
     case point p of
       Finished \<Rightarrow> Fault Stuck
     | At (co_return v) \<Rightarrow> final_suspend h (set_promise h (p\<lparr>value_set := Some v, point := Finished\<rparr>) s)
     | At co_throw \<Rightarrow> final_suspend h (set_promise h (p\<lparr>point := Finished\<rparr>) s)
     | At (co_yield v k) \<Rightarrow> Return (None, set_promise h (p\<lparr>value_set := Some v, point := At k\<rparr>) s)
     | At (co_suspend k) \<Rightarrow> Return (None, (set_promise h (p\<lparr>point := At k\<rparr>) s)\<lparr>parked := parked s @ [h]\<rparr>)
     | At (co_await c k) \<Rightarrow> (case Task_create c s of (t, s) \<Rightarrow>
         bind_outcome (deref t) (\<lambda>h'.
         bind_outcome (await_ready t s) (\<lambda>ready.
           if ready then Return (Some h, set_promise h (p\<lparr>point := Awaiting h' k\<rparr>) s)
           else await_suspend h' h (set_promise h (p\<lparr>point := Awaiting h' k\<rparr>) s))))
     | Awaiting h' k \<Rightarrow> bind_outcome (Task_result indeterminate (Some h') s) (\<lambda>v.
         Return (Some h, Task_destroy (Some h') (set_promise h (p\<lparr>point := At (k v)\<rparr>) s))))"

text \<open>
  Control passes from coroutine to coroutine until it returns to the one who resumed the first. If this is the
  event loop, it then resumes a handle that it keeps.
\<close>

fun drive :: "'v \<Rightarrow> bool \<Rightarrow> nat \<Rightarrow> nat option \<times> 'v co_heap \<Rightarrow> 'v co_heap outcome" where
  "drive indeterminate event_loop 0 x = Fault Stuck"
| "drive indeterminate event_loop (Suc n) (Some h, s) = bind_outcome (co_step indeterminate h s) (drive indeterminate event_loop n)"
| "drive indeterminate event_loop (Suc n) (None, s) =
     (case parked s of [] \<Rightarrow> Return s
      | h # hs \<Rightarrow> if event_loop then drive indeterminate event_loop n (Some h, s\<lparr>parked := hs\<rparr>) else Return s)"

definition resume :: "'v \<Rightarrow> nat \<Rightarrow> nat \<Rightarrow> 'v co_heap \<Rightarrow> 'v co_heap outcome" where
  "resume indeterminate n h s = drive indeterminate False n (Some h, s)"

definition Task_run :: "'v \<Rightarrow> nat \<Rightarrow> nat option \<Rightarrow> 'v co_heap \<Rightarrow> ('v \<times> 'v co_heap) outcome" where
  "Task_run indeterminate n t s =
     bind_outcome (Task_ready t s) (\<lambda>r.
     if r then bind_outcome (Task_result indeterminate t s) (\<lambda>v. Return (v, s))
     else bind_outcome (deref t) (\<lambda>h.
          bind_outcome (Task_detach t s) (\<lambda>(_, s).
          bind_outcome (resume indeterminate n h s) (\<lambda>s.
          bind_outcome (promise h s) (\<lambda>p. Return (Result_result indeterminate p, s))))))"

section \<open>What a task computes\<close>

text \<open>The value of code, as if every task that it awaits were a function that it calls.\<close>

primrec code_value :: "'v \<Rightarrow> 'v code \<Rightarrow> 'v" where
  "code_value d (co_return v) = v"
| "code_value d co_throw = d"
| "code_value d (co_yield v k) = code_value d k"
| "code_value d (co_suspend k) = code_value d k"
| "code_value d (co_await c k) = (code_value d \<circ> k) (code_value d c)"

text \<open>Code that does not yield, and code that does not suspend either.\<close>

primrec no_yield :: "'v code \<Rightarrow> bool" where
  "no_yield (co_return v) = True"
| "no_yield co_throw = True"
| "no_yield (co_yield v k) = False"
| "no_yield (co_suspend k) = no_yield k"
| "no_yield (co_await c k) = (no_yield c \<and> (\<forall>v. no_yield (k v)))"

primrec no_suspend :: "'v code \<Rightarrow> bool" where
  "no_suspend (co_return v) = True"
| "no_suspend co_throw = True"
| "no_suspend (co_yield v k) = False"
| "no_suspend (co_suspend k) = False"
| "no_suspend (co_await c k) = (no_suspend c \<and> (\<forall>v. no_suspend (k v)))"

lemma no_suspend_no_yield: "no_suspend c \<Longrightarrow> no_yield c"
  by (induction c) auto

definition unused :: "'v co_heap \<Rightarrow> bool" where
  "unused s \<longleftrightarrow> (\<forall>x \<ge> next_frame s. frames s x = None)"

text \<open>A state in which the coroutine is at its end with that value, and nothing else has changed but the next handle.\<close>

definition at_end :: "'v \<Rightarrow> nat \<Rightarrow> 'v PromiseBase \<Rightarrow> 'v \<Rightarrow> 'v co_heap \<Rightarrow> 'v co_heap \<Rightarrow> bool" where
  "at_end d h p v s s' \<longleftrightarrow> (\<exists>r. frames s' = (frames s)(h \<mapsto> p\<lparr>value_set := r, point := Finished\<rparr>) \<and> (case r of Some v \<Rightarrow> v | None \<Rightarrow> d) = v)
     \<and> next_frame s \<le> next_frame s' \<and> parked s' = parked s"

text \<open>The first two steps of an awaiting coroutine, and the step after the awaited one has ended.\<close>

definition awaiting :: "nat \<Rightarrow> 'v PromiseBase \<Rightarrow> 'v code \<Rightarrow> ('v \<Rightarrow> 'v code) \<Rightarrow> 'v co_heap \<Rightarrow> 'v co_heap" where
  "awaiting h p c k s = s\<lparr>frames := (frames s)(h \<mapsto> p\<lparr>point := Awaiting (next_frame s) k\<rparr>,
     next_frame s \<mapsto> (Promise_init c)\<lparr>continuation := Some h\<rparr>), next_frame := Suc (next_frame s)\<rparr>"

lemma step_await:
  assumes "frames s h = Some p" "point p = At (co_await c k)" "h < next_frame s"
  shows "co_step d h s = Return (Some (next_frame s), awaiting h p c k s)"
  using assms
  by (simp add: co_step_def promise_def Task_create_def await_ready_def await_suspend_def set_promise_def Promise_init_def awaiting_def fun_upd_twist)

lemma step_resumed:
  assumes "at_end d (next_frame s) ((Promise_init c)\<lparr>continuation := Some h\<rparr>) v (awaiting h p c k s) s1" and "h < next_frame s" and "unused s"
  shows "\<exists>s2. final_suspend (next_frame s) s1 = Return (Some h, s1) \<and> co_step d h s1 = Return (Some h, s2)
    \<and> frames s2 = (frames s)(h \<mapsto> p\<lparr>point := At (k v)\<rparr>) \<and> next_frame s < next_frame s2 \<and> parked s2 = parked s"
proof -
  let ?h = "next_frame s"
  obtain r where r: "frames s1 = (frames (awaiting h p c k s))(?h \<mapsto> (Promise_init c)\<lparr>continuation := Some h, value_set := r, point := Finished\<rparr>)"
    "(case r of Some v \<Rightarrow> v | None \<Rightarrow> d) = v" "next_frame s < next_frame s1" "parked s1 = parked s"
    using assms(1) by (auto simp: at_end_def awaiting_def)
  have "frames s ?h = None" using assms(3) by (simp add: unused_def)
  then have "((frames s)(h \<mapsto> p\<lparr>point := At (k v)\<rparr>))(?h := None) = (frames s)(h \<mapsto> p\<lparr>point := At (k v)\<rparr>)" using assms(2) by (auto simp: fun_eq_iff)
  then show ?thesis using assms(2) r
    by (simp add: final_suspend_def promise_def co_step_def Task_result_def Result_result_def Task_destroy_def destroy_def set_promise_def
        awaiting_def Promise_init_def fun_upd_twist)
qed

lemma code_runs:
  assumes "frames s h = Some p" "point p = At c" "value_set p = None" "h < next_frame s" "unused s" "no_yield c"
    and "no_suspend c \<or> b \<and> parked s = []"
  shows "\<exists>n s'. at_end d h p (code_value d c) s s' \<and> (\<forall>m. drive d b (n + m) (Some h, s) = bind_outcome (final_suspend h s') (drive d b m))"
  using assms
proof (induction c arbitrary: s h p)
  case (co_return v)
  then show ?case
    by (intro exI [of _ 1] exI [of _ "set_promise h (p\<lparr>value_set := Some v, point := Finished\<rparr>) s"])
      (auto simp: at_end_def co_step_def promise_def set_promise_def)
next
  case co_throw
  then have "p\<lparr>point := Finished\<rparr> = p\<lparr>value_set := None, point := Finished\<rparr>" by simp
  with co_throw show ?case
    by (intro exI [of _ 1] exI [of _ "set_promise h (p\<lparr>point := Finished\<rparr>) s"])
      (auto simp: at_end_def co_step_def promise_def set_promise_def intro!: exI [of _ "None"])
next
  case (co_suspend k)
  let ?p = "p\<lparr>point := At k\<rparr>"
  let ?s = "set_promise h ?p s"
  obtain n s' where n: "at_end d h ?p (code_value d k) ?s s'" "\<forall>m. drive d b (n + m) (Some h, ?s) = bind_outcome (final_suspend h s') (drive d b m)"
    using co_suspend.IH [of ?s h ?p] co_suspend.prems by (auto simp: set_promise_def unused_def)
  have "co_step d h s = Return (None, ?s\<lparr>parked := [h]\<rparr>)" "b" "?s\<lparr>parked := []\<rparr> = ?s"
    using co_suspend.prems by (auto simp: co_step_def promise_def set_promise_def)
  then have "\<forall>m. drive d b (Suc (Suc n) + m) (Some h, s) = bind_outcome (final_suspend h s') (drive d b m)" using n(2) by simp
  moreover have "at_end d h p (code_value d (co_suspend k)) s s'" using n(1) by (auto simp: at_end_def set_promise_def)
  ultimately show ?case by blast
next
  case (co_await c k)
  let ?h = "next_frame s" and ?s = "awaiting h p c k s" and ?q = "(Promise_init c)\<lparr>continuation := Some h\<rparr>" and ?v = "code_value d c"
  have "\<exists>n s'. at_end d ?h ?q ?v ?s s' \<and> (\<forall>m. drive d b (n + m) (Some ?h, ?s) = bind_outcome (final_suspend ?h s') (drive d b m))"
    by (rule co_await.IH(1)) (use co_await.prems in \<open>auto simp: awaiting_def Promise_init_def unused_def\<close>)
  then obtain n1 s1 where 1: "at_end d ?h ?q ?v ?s s1" "\<forall>m. drive d b (n1 + m) (Some ?h, ?s) = bind_outcome (final_suspend ?h s1) (drive d b m)" by blast
  obtain s2 where 2: "final_suspend ?h s1 = Return (Some h, s1)" "co_step d h s1 = Return (Some h, s2)"
    "frames s2 = (frames s)(h \<mapsto> p\<lparr>point := At (k ?v)\<rparr>)" "?h < next_frame s2" "parked s2 = parked s"
    using step_resumed [OF 1(1) co_await.prems(4,5)] by blast
  have "\<exists>n s'. at_end d h (p\<lparr>point := At (k ?v)\<rparr>) (code_value d (k ?v)) s2 s'
      \<and> (\<forall>m. drive d b (n + m) (Some h, s2) = bind_outcome (final_suspend h s') (drive d b m))"
    by (rule co_await.IH(2) [of "k ?v"]) (use co_await.prems 2 in \<open>auto simp: unused_def\<close>)
  then obtain n2 s' where 3: "at_end d h (p\<lparr>point := At (k ?v)\<rparr>) (code_value d (k ?v)) s2 s'"
    "\<forall>m. drive d b (n2 + m) (Some h, s2) = bind_outcome (final_suspend h s') (drive d b m)" by blast
  have "drive d b (Suc (n1 + Suc n2) + m) (Some h, s) = bind_outcome (final_suspend h s') (drive d b m)" for m
    using step_await [OF co_await.prems(1,2,4), of d] 1(2) [rule_format, of "Suc n2 + m"] 2(1,2) 3(2) by (simp add: add.assoc)
  moreover have "at_end d h p (code_value d (co_await c k)) s s'" using 3(1) 2 by (auto simp: at_end_def)
  ultimately show ?case by blast
qed simp

text \<open>A new task, and whether it is detached.\<close>

definition started :: "'v code \<Rightarrow> bool \<Rightarrow> 'v co_heap \<Rightarrow> 'v co_heap" where
  "started c detached s = (case Task_create c s of (t, s) \<Rightarrow>
     if detached then (case Task_detach t s of Return (_, s) \<Rightarrow> s | Fault _ \<Rightarrow> s) else s)"

lemma started_frame:
  assumes "unused s"
  shows "frames (started c a s) = (frames s)(next_frame s \<mapsto> (Promise_init c)\<lparr>is_detached := a\<rparr>)"
    "next_frame (started c a s) = Suc (next_frame s)" "parked (started c a s) = parked s" "unused (started c a s)"
  using assms by (simp_all add: started_def Task_create_def Task_detach_def promise_def set_promise_def Promise_init_def unused_def)

lemma started_ends:
  assumes "unused s" "no_yield c" "no_suspend c \<or> b \<and> parked s = []"
  shows "\<exists>n0 s'. (\<forall>n \<ge> n0. drive d b n (Some (next_frame s), started c a s) = drive d b (n - n0 + 1) (None, s'))
    \<and> parked s' = parked s \<and> (\<forall>x. x \<noteq> next_frame s \<longrightarrow> frames s' x = frames s x)
    \<and> (if a then frames s' (next_frame s) = None else Task_result d (Some (next_frame s)) s' = Return (code_value d c))"
proof -
  let ?h = "next_frame s" and ?p = "(Promise_init c)\<lparr>is_detached := a\<rparr>"
  obtain n s1 where n: "at_end d ?h ?p (code_value d c) (started c a s) s1"
    "\<And>m. drive d b (n + m) (Some ?h, started c a s) = bind_outcome (final_suspend ?h s1) (drive d b m)"
    using code_runs [of "started c a s" ?h ?p c b d] assms by (auto simp: started_frame Promise_init_def)
  obtain r where r: "frames s1 = (frames s)(?h \<mapsto> ?p\<lparr>value_set := r, point := Finished\<rparr>)" "(case r of Some v \<Rightarrow> v | None \<Rightarrow> d) = code_value d c"
    "parked s1 = parked s" using n(1) assms(1) by (auto simp: at_end_def started_frame)
  let ?s = "if a then destroy ?h s1 else s1"
  have "final_suspend ?h s1 = Return (None, ?s)" using r(1) by (simp add: final_suspend_def promise_def Promise_init_def)
  then have "drive d b (Suc n + k) (Some ?h, started c a s) = drive d b (Suc k) (None, ?s)" for k
    using n(2) [of "Suc k"] by (simp del: drive.simps)
  then have "\<forall>m \<ge> Suc n. drive d b m (Some ?h, started c a s) = drive d b (m - Suc n + 1) (None, ?s)" by (metis Suc_eq_plus1 le_add_diff_inverse)
  moreover have "Task_result d (Some ?h) s1 = Return (code_value d c)" using r(1,2) by (simp add: Task_result_def promise_def Result_result_def)
  ultimately show ?thesis using r by (intro exI [of _ "Suc n"] exI [of _ ?s]) (auto simp: destroy_def)
qed

text \<open>
  C40. A new task computes the value of its code: coroutines that await each other, to any depth, and that suspend in between and are resumed by
  the event loop, end after finitely many steps; the task then has the value that the code has when awaiting is read as calling, and no frame is left of
  the tasks that were awaited on the way. If the task was detached, its own frame is not left either. This is for code that does not yield, started while
  the event loop keeps no other coroutine.
\<close>

theorem task_computes:
  assumes "\<forall>x \<ge> next_frame s. frames s x = None" and "parked s = []" and "no_yield c"
  shows "\<exists>n0 s'. (\<forall>n \<ge> n0. drive d True n (Some (next_frame s), started c detached s) = Return s')
    \<and> (\<forall>x. x \<noteq> next_frame s \<longrightarrow> frames s' x = frames s x)
    \<and> (if detached then frames s' (next_frame s) = None else Task_result d (Some (next_frame s)) s' = Return (code_value d c))"
proof -
  have "unused s" using assms(1) by (simp add: unused_def)
  from started_ends [OF this assms(3), of True d detached] assms(2) obtain n0 s' where
    s': "\<And>n. n \<ge> n0 \<Longrightarrow> drive d True n (Some (next_frame s), started c detached s) = drive d True (n - n0 + 1) (None, s')" "parked s' = []"
      "\<forall>x. x \<noteq> next_frame s \<longrightarrow> frames s' x = frames s x"
      "if detached then frames s' (next_frame s) = None else Task_result d (Some (next_frame s)) s' = Return (code_value d c)" by metis
  have "drive d True n (Some (next_frame s), started c detached s) = Return s'" if "n \<ge> n0" for n using s'(1) [OF that] s'(2) by simp
  with s'(3,4) show ?thesis by blast
qed

definition ex_code :: "nat code" where
  "ex_code = co_await (co_suspend (co_return 3)) (\<lambda>x. co_suspend (co_await (co_await (co_return 1) (\<lambda>y. co_return (x + y))) (\<lambda>z. co_return (x * z))))"

theorem task_computes_witness:
  "\<exists>n s'. drive 0 True n (Some 0, started ex_code False \<lparr>frames = Map.empty, next_frame = 0, parked = []\<rparr>) = Return s'
     \<and> Task_result 0 (Some 0) s' = Return 12 \<and> (\<forall>x. x \<noteq> 0 \<longrightarrow> frames s' x = None)"
  using task_computes [of "\<lparr>frames = Map.empty, next_frame = 0, parked = []\<rparr>" ex_code 0 False]
  by (auto simp: ex_code_def)

text \<open>
  \<open>run\<close> of a new task whose coroutine ends without suspending reads the promise of a frame that is already destroyed; for \<open>Task<void>\<close>, of
  which the server runs its tasks, there is no value to be read.
\<close>

lemma run_reads_destroyed_frame:
  assumes "unused s" "no_suspend c"
  shows "\<exists>n0. \<forall>n \<ge> n0. Task_run d n (fst (Task_create c s)) (snd (Task_create c s)) = Fault NullDeref"
proof -
  let ?h = "next_frame s"
  obtain n0 s' where n: "\<And>n. n \<ge> n0 \<Longrightarrow> drive d False n (Some ?h, started c True s) = drive d False (n - n0 + 1) (None, s')" "frames s' ?h = None"
    using started_ends [OF assms(1), of c False d True] no_suspend_no_yield assms(2) by auto
  have "Task_run d n (fst (Task_create c s)) (snd (Task_create c s)) = bind_outcome (resume d n ?h (started c True s)) (\<lambda>s.
      bind_outcome (promise ?h s) (\<lambda>p. Return (Result_result d p, s)))" for n
    by (simp add: Task_run_def started_def Task_create_def Task_ready_def Task_detach_def promise_def set_promise_def Promise_init_def)
  moreover have "drive d False (Suc k) (None, s') = Return s'" for k by (simp split: list.split)
  ultimately show ?thesis using n by (intro exI [of _ n0]) (simp add: resume_def promise_def)
qed

end
