(* ===== verification/Arena.thy ===== *)
theory Arena
  imports Prelude
begin

text \<open>
  \<^verbatim>\<open>utils/arena.cpp\<close>: memory handed out from blocks. Addresses are numbers, a region is its address and its size. Sizes are
  numbers below \<open>2 ^ 64\<close>, and sums of them are taken modulo \<open>2 ^ 64\<close>. \<open>new char[n]\<close> is the parameter \<open>new_block\<close>, given the
  blocks in use; \<open>None\<close> is \<open>std::bad_alloc\<close>, which nothing catches. What is assumed of it is that a new block overlaps
  none of these and starts at an address that is aligned for pointers.
\<close>

section \<open>The arena\<close>

definition K_BLOCK_SIZE :: nat where
  "K_BLOCK_SIZE = 4096"

type_synonym region = "nat \<times> nat"

type_synonym allocator = "region list \<Rightarrow> nat \<Rightarrow> nat option"

abbreviation size_t :: "nat \<Rightarrow> nat" where
  "size_t n \<equiv> n mod 2 ^ 64"

record Arena =
  alloc_ptr :: nat
  alloc_bytes_remaining :: nat
  arena_blocks :: "region list"
  memory_usage :: nat

definition Arena_init :: Arena where
  "Arena_init = \<lparr>alloc_ptr = 0, alloc_bytes_remaining = 0, arena_blocks = [], memory_usage = 0\<rparr>"

definition AllocateNewBlock :: "allocator \<Rightarrow> nat \<Rightarrow> Arena \<Rightarrow> (nat \<times> Arena) outcome" where
  "AllocateNewBlock new_block block_bytes a =
     (case new_block (arena_blocks a) block_bytes of None \<Rightarrow> Fault Uncaught
      | Some b \<Rightarrow> Return (b, a\<lparr>arena_blocks := arena_blocks a @ [(b, block_bytes)],
                              memory_usage := size_t (memory_usage a + size_t (block_bytes + 8))\<rparr>))"

definition AllocateFallback :: "allocator \<Rightarrow> nat \<Rightarrow> Arena \<Rightarrow> (nat \<times> Arena) outcome" where
  "AllocateFallback new_block bytes a =
     (if bytes > K_BLOCK_SIZE div 4 then AllocateNewBlock new_block bytes a
      else bind_outcome (AllocateNewBlock new_block K_BLOCK_SIZE a) (\<lambda>(b, a).
        Return (b, a\<lparr>alloc_ptr := b + bytes, alloc_bytes_remaining := K_BLOCK_SIZE - bytes\<rparr>)))"

definition Allocate :: "allocator \<Rightarrow> nat \<Rightarrow> Arena \<Rightarrow> (nat \<times> Arena) outcome" where
  "Allocate new_block bytes a =
     (if bytes = 0 then Fault AssertFail
      else if bytes \<le> alloc_bytes_remaining a
      then Return (alloc_ptr a, a\<lparr>alloc_ptr := alloc_ptr a + bytes, alloc_bytes_remaining := alloc_bytes_remaining a - bytes\<rparr>)
      else AllocateFallback new_block bytes a)"

definition AllocateAligned :: "allocator \<Rightarrow> nat \<Rightarrow> Arena \<Rightarrow> (nat \<times> Arena) outcome" where
  "AllocateAligned new_block bytes a =
     (let current_mod = alloc_ptr a mod 8;
          slop = (if current_mod = 0 then 0 else 8 - current_mod);
          needed = size_t (bytes + slop)
      in bind_outcome
           (if needed \<le> alloc_bytes_remaining a
            then Return (alloc_ptr a + slop, a\<lparr>alloc_ptr := alloc_ptr a + needed, alloc_bytes_remaining := alloc_bytes_remaining a - needed\<rparr>)
            else AllocateFallback new_block needed a)
           (\<lambda>(result, a). if result mod 8 = 0 then Return (result, a) else Fault AssertFail))"

text \<open>A sequence of requests, with the regions handed out, the last one first.\<close>

datatype request = Plain nat | Aligned nat

fun request_size :: "request \<Rightarrow> nat" where
  "request_size (Plain n) = n"
| "request_size (Aligned n) = n"

fun serve :: "allocator \<Rightarrow> request \<Rightarrow> Arena \<Rightarrow> (nat \<times> Arena) outcome" where
  "serve new_block (Plain n) a = Allocate new_block n a"
| "serve new_block (Aligned n) a = AllocateAligned new_block n a"

fun serve_all :: "allocator \<Rightarrow> request list \<Rightarrow> region list \<times> Arena \<Rightarrow> (region list \<times> Arena) outcome" where
  "serve_all new_block [] st = Return st"
| "serve_all new_block (r # rs) (rg, a) =
     bind_outcome (serve new_block r a) (\<lambda>(p, a). serve_all new_block rs ((p, request_size r) # rg, a))"

section \<open>Regions do not overlap\<close>

definition apart :: "region \<Rightarrow> region \<Rightarrow> bool" where
  "apart = (\<lambda>(a, n) (b, m). n = 0 \<or> m = 0 \<or> a + n \<le> b \<or> b + m \<le> a)"

definition within :: "region \<Rightarrow> region \<Rightarrow> bool" where
  "within = (\<lambda>(a, n) (b, m). b \<le> a \<and> a + n \<le> b + m)"

definition new_apart :: "allocator \<Rightarrow> bool" where
  "new_apart new_block \<longleftrightarrow> (\<forall>bs n p. new_block bs n = Some p \<longrightarrow> (\<forall>b \<in> set bs. apart (p, n) b))"

definition new_aligned :: "allocator \<Rightarrow> bool" where
  "new_aligned new_block \<longleftrightarrow> (\<forall>bs n p. new_block bs n = Some p \<longrightarrow> p mod 8 = 0)"

definition new_fails :: "allocator \<Rightarrow> bool" where
  "new_fails new_block \<longleftrightarrow> (\<exists>bs n. new_block bs n = None)"

definition free_region :: "Arena \<Rightarrow> region" where
  "free_region a = (alloc_ptr a, alloc_bytes_remaining a)"

definition arena_inv :: "region list \<Rightarrow> Arena \<Rightarrow> bool" where
  "arena_inv rg a \<longleftrightarrow> sorted_wrt apart rg \<and> (\<forall>r \<in> set rg. apart r (free_region a) \<and> (\<exists>b \<in> set (arena_blocks a). within r b))
     \<and> (alloc_bytes_remaining a = 0 \<or> (\<exists>b \<in> set (arena_blocks a). within (free_region a) b))"

lemma apart_sym: "apart r s \<Longrightarrow> apart s r"
  by (auto simp: apart_def)

lemma apart_within: "apart b c \<Longrightarrow> within r b \<Longrightarrow> within s c \<Longrightarrow> apart r s"
  by (auto simp: apart_def within_def)

lemma within_trans: "within r s \<Longrightarrow> within s t \<Longrightarrow> within r t"
  by (auto simp: within_def)

lemma within_refl: "within r r"
  by (auto simp: within_def)

text \<open>Cutting a region off the front of the free one.\<close>

lemma inv_cut:
  assumes "arena_inv rg a" and "k + n \<le> alloc_bytes_remaining a" and "0 < n"
  shows "arena_inv ((alloc_ptr a + k, n) # rg)
    (a\<lparr>alloc_ptr := alloc_ptr a + (k + n), alloc_bytes_remaining := alloc_bytes_remaining a - (k + n)\<rparr>)"
    (is "arena_inv (?r # rg) ?a")
proof -
  have w: "within ?r (free_region a)" "within (free_region ?a) (free_region a)"
    using assms(2) by (auto simp: within_def free_region_def)
  have 1: "apart ?r s \<and> apart s (free_region ?a)" if "s \<in> set rg" for s
  proof -
    have "apart s (free_region a)" using assms(1) that by (simp add: arena_inv_def)
    then show ?thesis using apart_within [OF _ within_refl w(1)] apart_within [OF _ within_refl w(2)] apart_sym by blast
  qed
  have 2: "apart ?r (free_region ?a)" using assms(2) by (auto simp: apart_def free_region_def)
  obtain b where b: "b \<in> set (arena_blocks a)" "within (free_region a) b" using assms by (auto simp: arena_inv_def)
  then have "within ?r b" "within (free_region ?a) b" using w within_trans by blast+
  with 1 2 b assms(1) show ?thesis by (auto simp: arena_inv_def)
qed

text \<open>A region at the front of a new block, whose rest stays unused or becomes the free region.\<close>

lemma inv_new:
  assumes "arena_inv rg a" and "new_apart new_block" and "AllocateNewBlock new_block m a = Return (p, a1)" and "n \<le> m"
  shows "arena_inv ((p, n) # rg) (a1\<lparr>alloc_ptr := p + n, alloc_bytes_remaining := m - n\<rparr>)" and "n = m \<Longrightarrow> arena_inv ((p, n) # rg) a1"
proof -
  obtain mu where a1: "a1 = a\<lparr>arena_blocks := arena_blocks a @ [(p, m)], memory_usage := mu\<rparr>" and p: "new_block (arena_blocks a) m = Some p"
    using assms(3) by (auto simp: AllocateNewBlock_def split: option.splits)
  have new: "apart (p, m) b" if "b \<in> set (arena_blocks a)" for b using assms(2) that p by (simp add: new_apart_def)
  have w: "within (p, n) (p, m)" "within (p + n, m - n) (p, m)" using assms(4) by (auto simp: within_def)
  have old: "apart (p, n) r \<and> apart r (p + n, m - n)" if "r \<in> set rg" for r
    using assms(1) that new w apart_within apart_sym by (metis arena_inv_def)
  have "apart (p, n) (p + n, m - n)" by (auto simp: apart_def)
  with old w assms(1) show "arena_inv ((p, n) # rg) (a1\<lparr>alloc_ptr := p + n, alloc_bytes_remaining := m - n\<rparr>)"
    by (auto simp: arena_inv_def a1 free_region_def)
  have "apart (p, m) (free_region a)"
  proof (cases "alloc_bytes_remaining a = 0")
    case False
    then obtain b where "b \<in> set (arena_blocks a)" "within (free_region a) b" using assms(1) by (auto simp: arena_inv_def)
    then show ?thesis using apart_within [OF new within_refl] by blast
  qed (simp add: apart_def free_region_def)
  with old w assms(1) show "n = m \<Longrightarrow> arena_inv ((p, n) # rg) a1"
    by (auto simp: arena_inv_def a1 free_region_def)
qed

lemma inv_fallback:
  assumes "arena_inv rg a" and "new_apart new_block" and "new_aligned new_block" and "AllocateFallback new_block n a = Return (p, a1)"
  shows "arena_inv ((p, n) # rg) a1 \<and> p mod 8 = 0"
proof (cases "n > K_BLOCK_SIZE div 4")
  case True
  then have "AllocateNewBlock new_block n a = Return (p, a1)" using assms(4) by (simp add: AllocateFallback_def)
  then show ?thesis using inv_new(2) [OF assms(1,2)] assms(3) by (auto simp: AllocateNewBlock_def new_aligned_def split: option.splits)
next
  case False
  obtain a2 where a2: "AllocateNewBlock new_block K_BLOCK_SIZE a = Return (p, a2)" "a1 = a2\<lparr>alloc_ptr := p + n, alloc_bytes_remaining := K_BLOCK_SIZE - n\<rparr>"
    using assms(4) False by (auto simp: AllocateFallback_def bind_outcome_Return_iff)
  moreover have "p mod 8 = 0" using a2(1) assms(3) by (auto simp: AllocateNewBlock_def new_aligned_def split: option.splits)
  ultimately show ?thesis using inv_new(1) [OF assms(1,2) a2(1), of n] False by (simp add: K_BLOCK_SIZE_def)
qed

lemma fallback_fails: "AllocateFallback new_block n a = Fault f \<Longrightarrow> f = Uncaught \<and> new_fails new_block"
  by (auto simp: AllocateFallback_def AllocateNewBlock_def new_fails_def bind_outcome_def split: if_splits option.splits)

text \<open>A smaller region in place of one that was handed out.\<close>

lemma inv_shrink: "arena_inv ((p, n) # rg) a \<Longrightarrow> k \<le> n \<Longrightarrow> arena_inv ((p, k) # rg) a"
proof -
  assume a: "arena_inv ((p, n) # rg) a" and k: "k \<le> n"
  have w: "within (p, k) (p, n)" using k by (simp add: within_def)
  have "apart (p, k) s" if "apart (p, n) s" for s by (rule apart_within [OF that w within_refl])
  moreover have "\<exists>b \<in> set (arena_blocks a). within (p, k) b" using a within_trans [OF w] by (fastforce simp: arena_inv_def)
  ultimately show ?thesis using a by (auto simp: arena_inv_def)
qed

lemma slop_aligned: "(p + (if p mod 8 = 0 then 0 else 8 - p mod 8)) mod 8 = (0 :: nat)"
  by presburger

text \<open>The size of a request that is not empty and does not wrap when it is rounded up.\<close>

definition moderate :: "request \<Rightarrow> bool" where
  "moderate r \<longleftrightarrow> 0 < request_size r \<and> request_size r + 7 < 2 ^ 64"

definition served :: "region list \<Rightarrow> request \<Rightarrow> nat \<times> Arena \<Rightarrow> bool" where
  "served rg r = (\<lambda>(p, a). arena_inv ((p, request_size r) # rg) a \<and> (\<forall>n. r = Aligned n \<longrightarrow> p mod 8 = 0))"

lemma serve_plain:
  assumes "arena_inv rg a" and "new_apart new_block" and "new_aligned new_block" and "0 < n"
  shows "case Allocate new_block n a of Return x \<Rightarrow> served rg (Plain n) x | Fault f \<Rightarrow> f = Uncaught \<and> new_fails new_block"
proof (cases "n \<le> alloc_bytes_remaining a")
  case True
  then show ?thesis using assms inv_cut [OF assms(1), of 0 n] by (simp add: Allocate_def served_def)
next
  case False
  then have "Allocate new_block n a = AllocateFallback new_block n a" using assms(4) by (simp add: Allocate_def)
  then show ?thesis using inv_fallback [OF assms(1-3)] fallback_fails by (auto simp: served_def split: outcome.split)
qed

lemma serve_aligned:
  assumes "arena_inv rg a" and "new_apart new_block" and "new_aligned new_block" and "moderate (Aligned n)"
  shows "case AllocateAligned new_block n a of Return x \<Rightarrow> served rg (Aligned n) x | Fault f \<Rightarrow> f = Uncaught \<and> new_fails new_block"
proof -
  define slop where "slop = (if alloc_ptr a mod 8 = 0 then 0 else 8 - alloc_ptr a mod 8)"
  have "slop \<le> 7" by (simp add: slop_def) presburger
  then have "size_t (n + slop) = n + slop" using assms(4) by (simp add: moderate_def)
  then have eq: "AllocateAligned new_block n a = bind_outcome
      (if n + slop \<le> alloc_bytes_remaining a
       then Return (alloc_ptr a + slop, a\<lparr>alloc_ptr := alloc_ptr a + (slop + n), alloc_bytes_remaining := alloc_bytes_remaining a - (slop + n)\<rparr>)
       else AllocateFallback new_block (n + slop) a)
      (\<lambda>(result, a). if result mod 8 = 0 then Return (result, a) else Fault AssertFail)"
    by (simp add: AllocateAligned_def slop_def [symmetric] Let_def add.commute)
  show ?thesis
  proof (cases "n + slop \<le> alloc_bytes_remaining a")
    case True
    have "(alloc_ptr a + slop) mod 8 = 0" unfolding slop_def by (rule slop_aligned)
    then show ?thesis using True assms inv_cut [OF assms(1), of slop n] by (simp add: eq served_def moderate_def)
  next
    case False
    show ?thesis
    proof (cases "AllocateFallback new_block (n + slop) a")
      case (Return x)
      obtain p a1 where x: "x = (p, a1)" by (cases x)
      have "arena_inv ((p, n + slop) # rg) a1 \<and> p mod 8 = 0" using inv_fallback [OF assms(1-3)] Return x by blast
      then show ?thesis using False Return x inv_shrink [of p "n + slop" rg a1 n] by (simp add: eq served_def)
    qed (use False fallback_fails in \<open>auto simp: eq\<close>)
  qed
qed

lemma serve_inv:
  assumes "arena_inv rg a" and "new_apart new_block" and "new_aligned new_block" and "moderate r"
  shows "case serve new_block r a of Return x \<Rightarrow> served rg r x | Fault f \<Rightarrow> f = Uncaught \<and> new_fails new_block"
  using serve_plain [OF assms(1-3)] serve_aligned [OF assms(1-3)] assms(4) by (cases r) (auto simp: moderate_def)

lemma serve_all_inv:
  assumes "arena_inv rg a" and "new_apart new_block" and "new_aligned new_block" and "\<forall>r \<in> set rs. moderate r"
  shows "(\<exists>rg' a'. serve_all new_block rs (rg, a) = Return (rg' @ rg, a') \<and> arena_inv (rg' @ rg) a'
    \<and> list_all2 (\<lambda>r (p, n). n = request_size r \<and> (\<forall>k. r = Aligned k \<longrightarrow> p mod 8 = 0)) rs (rev rg'))
    \<or> serve_all new_block rs (rg, a) = Fault Uncaught \<and> new_fails new_block"
  using assms
proof (induction rs arbitrary: rg a)
  case (Cons r rs)
  have s: "case serve new_block r a of Return x \<Rightarrow> served rg r x | Fault f \<Rightarrow> f = Uncaught \<and> new_fails new_block"
    by (rule serve_inv [OF Cons.prems(1-3)]) (use Cons.prems(4) in simp)
  show ?case
  proof (cases "serve new_block r a")
    case (Return x)
    obtain p a1 where x: "x = (p, a1)" by (cases x)
    have 1: "arena_inv ((p, request_size r) # rg) a1" "\<forall>n. r = Aligned n \<longrightarrow> p mod 8 = 0" using s Return x by (auto simp: served_def)
    from Cons.IH [OF 1(1) Cons.prems(2,3)] Cons.prems(4) consider (more) rg' a' where
      "serve_all new_block rs ((p, request_size r) # rg, a1) = Return (rg' @ (p, request_size r) # rg, a')" "arena_inv (rg' @ (p, request_size r) # rg) a'"
      "list_all2 (\<lambda>r (p, n). n = request_size r \<and> (\<forall>k. r = Aligned k \<longrightarrow> p mod 8 = 0)) rs (rev rg')"
      | (stop) "serve_all new_block rs ((p, request_size r) # rg, a1) = Fault Uncaught" "new_fails new_block" by auto
    then show ?thesis
    proof cases
      case more
      with 1 Return x show ?thesis by (intro disjI1 exI [of _ "rg' @ [(p, request_size r)]"] exI [of _ a']) simp
    qed (use Return x in simp)
  qed (use s in simp)
qed simp

text \<open>
  C19. A sequence of requests for memory, none of them for 0 bytes or for the last seven sizes below \<open>2 ^ 64\<close>, gives each
  request a region of the size it asks for, aligned where that is asked, and no two of these regions overlap, unless
  \<open>new\<close> fails.
\<close>

theorem arena_regions:
  assumes "new_apart new_block" and "new_aligned new_block" and "\<forall>r \<in> set rs. 0 < request_size r \<and> request_size r + 7 < 2 ^ 64"
  shows "(\<exists>rg a. serve_all new_block rs ([], Arena_init) = Return (rg, a) \<and> sorted_wrt apart rg
      \<and> list_all2 (\<lambda>r (p, n). n = request_size r \<and> (\<forall>k. r = Aligned k \<longrightarrow> p mod 8 = 0)) rs (rev rg))
    \<or> serve_all new_block rs ([], Arena_init) = Fault Uncaught \<and> (\<exists>bs n. new_block bs n = None)"
proof -
  have inv: "arena_inv [] Arena_init" by (simp add: arena_inv_def Arena_init_def)
  have "\<forall>r \<in> set rs. moderate r" using assms(3) unfolding moderate_def .
  from serve_all_inv [OF inv assms(1,2) this] show ?thesis unfolding append_Nil2 arena_inv_def new_fails_def by blast
qed

text \<open>A way to place blocks that fulfils the assumptions.\<close>

definition bump :: allocator where
  "bump bs n = Some (8 * Suc (sum_list (map (\<lambda>(b, k). b + k) bs)))"

lemma bump_ok: "new_apart bump" "new_aligned bump"
proof -
  have "b + k \<le> sum_list (map (\<lambda>(b, k). b + k) bs)" if "(b, k) \<in> set bs" for b k and bs :: "region list"
    using member_le_sum_list [of "b + k" "map (\<lambda>(b, k). b + k) bs"] that by force
  then have "b + k \<le> p" if "(b, k) \<in> set bs" "bump bs n = Some p" for b k n p and bs :: "region list" using that by (fastforce simp: bump_def)
  then show "new_apart bump" by (fastforce simp: new_apart_def apart_def)
  show "new_aligned bump" by (simp add: new_aligned_def bump_def)
qed

lemma bump_some: "bump bs n \<noteq> None"
  by (simp add: bump_def)

theorem arena_regions_witness:
  "\<exists>rg a. serve_all bump [Plain 3, Aligned 16, Plain 2000, Aligned 1] ([], Arena_init) = Return (rg, a) \<and> sorted_wrt apart rg"
  using arena_regions [OF bump_ok, of "[Plain 3, Aligned 16, Plain 2000, Aligned 1]"] bump_some by (simp del: serve_all.simps) blast

text \<open>A request for nearly \<open>2 ^ 64\<close> bytes wraps: it succeeds with a region of a few bytes, which the next request overlaps.\<close>

lemma aligned_wraps:
  assumes "alloc_ptr a mod 8 = 5" and "2 \<le> alloc_bytes_remaining a"
  shows "AllocateAligned new_block (2 ^ 64 - 1) a
    = Return (alloc_ptr a + 3, a\<lparr>alloc_ptr := alloc_ptr a + 2, alloc_bytes_remaining := alloc_bytes_remaining a - 2\<rparr>)"
proof -
  have "(alloc_ptr a + 3) mod 8 = 0" using assms(1) by presburger
  then show ?thesis using assms by (simp add: AllocateAligned_def Let_def)
qed

end
