(* ===== verification/Bytes_View.thy ===== *)
theory Bytes_View
  imports Prelude
begin

text \<open>
  \<^verbatim>\<open>utils/bytes.h\<close>: views of bytes that belong to somebody else, or, for deep copies, to the view. Memory is a store of
  blocks; a view is a block, an offset into it and a size. Reading a block that was freed, or behind its end, is a fault. The block
  that \<open>new\<close> gives is the argument \<open>fresh\<close>.
\<close>

section \<open>Views\<close>

type_synonym memory = "nat \<rightharpoonup> bytes"

record Bytes =
  by_block :: nat
  by_offset :: nat
  by_size :: nat
  deep_copy :: bool

definition Bytes_view :: "nat \<Rightarrow> nat \<Rightarrow> nat \<Rightarrow> Bytes" where
  "Bytes_view blk ofs n = \<lparr>by_block = blk, by_offset = ofs, by_size = n, deep_copy = False\<rparr>"

definition read_block :: "nat \<Rightarrow> nat \<Rightarrow> nat \<Rightarrow> memory \<Rightarrow> bytes outcome" where
  "read_block blk ofs n m = bind_outcome (deref (m blk)) (\<lambda>bs.
     if ofs + n \<le> length bs then Return (take n (drop ofs bs)) else Fault OutOfBounds)"

text \<open>From a C string: up to the NUL byte that ends it.\<close>

definition Bytes_cstr :: "nat \<Rightarrow> nat \<Rightarrow> memory \<Rightarrow> Bytes outcome" where
  "Bytes_cstr blk ofs m = bind_outcome (deref (m blk)) (\<lambda>bs.
     if 0 \<in> set (drop ofs bs) then Return (Bytes_view blk ofs (length (cstr (drop ofs bs)))) else Fault OutOfBounds)"

definition DeepCopy :: "nat \<Rightarrow> nat \<Rightarrow> nat \<Rightarrow> nat \<Rightarrow> memory \<Rightarrow> (Bytes \<times> memory) outcome" where
  "DeepCopy fresh blk ofs n m = bind_outcome (read_block blk ofs n m) (\<lambda>bs.
     Return (\<lparr>by_block = fresh, by_offset = 0, by_size = n, deep_copy = True\<rparr>, m(fresh \<mapsto> bs)))"

definition Bytes_copy :: "nat \<Rightarrow> Bytes \<Rightarrow> memory \<Rightarrow> (Bytes \<times> memory) outcome" where
  "Bytes_copy fresh other m =
     (if deep_copy other then DeepCopy fresh (by_block other) (by_offset other) (by_size other) m else Return (other, m))"

text \<open>Assignment drops the block that the target had.\<close>

definition Bytes_assign :: "nat \<Rightarrow> bool \<Rightarrow> Bytes \<Rightarrow> Bytes \<Rightarrow> memory \<Rightarrow> (Bytes \<times> memory) outcome" where
  "Bytes_assign fresh same_object this other m = (if same_object then Return (this, m) else Bytes_copy fresh other m)"

text \<open>The destructor frees the block of a deep copy; a pointer into the middle of a block cannot be freed.\<close>

definition Bytes_destroy :: "Bytes \<Rightarrow> memory \<Rightarrow> memory outcome" where
  "Bytes_destroy b m =
     (if deep_copy b then (if by_offset b = 0 \<and> m (by_block b) \<noteq> None then Return (m(by_block b := None)) else Fault OutOfBounds)
      else Return m)"

definition Bytes_at :: "nat \<Rightarrow> Bytes \<Rightarrow> memory \<Rightarrow> byte outcome" where
  "Bytes_at n b m = (if n < by_size b then bind_outcome (read_block (by_block b) (by_offset b + n) 1 m) (\<lambda>bs. Return (hd bs)) else Fault AssertFail)"

definition Bytes_empty :: "Bytes \<Rightarrow> bool" where
  "Bytes_empty b \<longleftrightarrow> by_size b = 0"

definition RemovePrefix :: "nat \<Rightarrow> Bytes \<Rightarrow> Bytes outcome" where
  "RemovePrefix n b =
     (if n \<le> by_size b then Return (b\<lparr>by_offset := by_offset b + n, by_size := by_size b - n\<rparr>) else Fault AssertFail)"

definition Bytes_ToString :: "Bytes \<Rightarrow> memory \<Rightarrow> bytes outcome" where
  "Bytes_ToString b m = read_block (by_block b) (by_offset b) (by_size b) m"

section \<open>Comparison\<close>

fun memcmp :: "bytes \<Rightarrow> bytes \<Rightarrow> nat \<Rightarrow> int" where
  "memcmp (x # xs) (y # ys) (Suc n) = (if x < y then - 1 else if y < x then 1 else memcmp xs ys n)"
| "memcmp _ _ _ = 0"

definition Bytes_compare :: "Bytes \<Rightarrow> Bytes \<Rightarrow> memory \<Rightarrow> int outcome" where
  "Bytes_compare a b m =
     bind_outcome (Bytes_ToString a m) (\<lambda>x. bind_outcome (Bytes_ToString b m) (\<lambda>y.
       let res = memcmp x y (min (by_size b) (by_size a))
       in Return (if res = 0 then (if by_size a < by_size b then - 1 else 1) else res)))"

definition Bytes_eq :: "Bytes \<Rightarrow> Bytes \<Rightarrow> memory \<Rightarrow> bool outcome" where
  "Bytes_eq a b m =
     (if by_size a \<noteq> by_size b then Return False
      else bind_outcome (Bytes_ToString a m) (\<lambda>x. bind_outcome (Bytes_ToString b m) (\<lambda>y. Return (memcmp x y (by_size a) = 0))))"

definition Bytes_ne :: "Bytes \<Rightarrow> Bytes \<Rightarrow> memory \<Rightarrow> bool outcome" where
  "Bytes_ne a b m = bind_outcome (Bytes_eq a b m) (\<lambda>r. Return (\<not> r))"

definition Bytes_gt :: "Bytes \<Rightarrow> Bytes \<Rightarrow> memory \<Rightarrow> bool outcome" where
  "Bytes_gt a b m = bind_outcome (Bytes_compare a b m) (\<lambda>r. Return (r > 0))"

definition Bytes_ge :: "Bytes \<Rightarrow> Bytes \<Rightarrow> memory \<Rightarrow> bool outcome" where
  "Bytes_ge a b m = bind_outcome (Bytes_compare a b m) (\<lambda>r. Return (r \<ge> 0))"

definition Bytes_lt :: "Bytes \<Rightarrow> Bytes \<Rightarrow> memory \<Rightarrow> bool outcome" where
  "Bytes_lt a b m = bind_outcome (Bytes_compare a b m) (\<lambda>r. Return (r < 0))"

definition Bytes_le :: "Bytes \<Rightarrow> Bytes \<Rightarrow> memory \<Rightarrow> bool outcome" where
  "Bytes_le a b m = bind_outcome (Bytes_compare a b m) (\<lambda>r. Return (r \<le> 0))"

text \<open>The hash of a view is that of its address; \<open>hash_ptr\<close> is the hash of pointers.\<close>

definition Bytes_hash :: "(nat \<times> nat \<Rightarrow> u64) \<Rightarrow> Bytes \<Rightarrow> u64" where
  "Bytes_hash hash_ptr b = hash_ptr (by_block b, by_offset b)"

section \<open>The order\<close>

lemma read_length: "Bytes_ToString b m = Return x \<Longrightarrow> length x = by_size b"
  by (auto simp: Bytes_ToString_def read_block_def bind_outcome_Return_iff split: if_splits)

lemma memcmp_zero: "n \<le> length x \<Longrightarrow> n \<le> length y \<Longrightarrow> memcmp x y n = 0 \<longleftrightarrow> take n x = take n y"
  by (induction x y n rule: memcmp.induct) (auto simp: not_less)

text \<open>The result of \<open>compare\<close> on the contents.\<close>

definition cmp :: "bytes \<Rightarrow> bytes \<Rightarrow> int" where
  "cmp x y = (let res = memcmp x y (min (length y) (length x)) in if res = 0 then (if length x < length y then - 1 else 1) else res)"

lemma cmp_Cons: "cmp (a # x) (b # y) = (if a < b then - 1 else if b < a then 1 else cmp x y)"
  by (simp add: cmp_def Let_def)

lemma cmp_less: "(cmp x y < 0 \<longleftrightarrow> x < y) \<and> cmp x y \<noteq> 0"
proof (induction x arbitrary: y)
  case Nil
  then show ?case by (cases y) (simp_all add: cmp_def)
next
  case (Cons a x)
  show ?case
  proof (cases y)
    case Nil
    then show ?thesis by (simp add: cmp_def)
  next
    case (Cons b z)
    then show ?thesis using Cons.IH [of z] by (auto simp: cmp_Cons)
  qed
qed

lemma compare_cmp:
  "Bytes_ToString a m = Return x \<Longrightarrow> Bytes_ToString b m = Return y \<Longrightarrow> Bytes_compare a b m = Return (cmp x y)"
  using read_length [of a m x] read_length [of b m y] by (simp add: Bytes_compare_def cmp_def Let_def)

text \<open>
  C39. On the contents of two views \<open>==\<close> is equality and \<open><\<close> is the lexicographic order of unsigned bytes, but \<open>>\<close> and
  \<open>>=\<close> both hold whenever \<open><\<close> does not, and \<open><=\<close> is the same as \<open><\<close>: a view is greater than an equal one.
\<close>

theorem bytes_order:
  assumes "Bytes_ToString a m = Return x" and "Bytes_ToString b m = Return y"
  shows "Bytes_eq a b m = Return (x = y) \<and> Bytes_lt a b m = Return (x < y) \<and> Bytes_le a b m = Return (x < y)
    \<and> Bytes_gt a b m = Return (\<not> x < y) \<and> Bytes_ge a b m = Return (\<not> x < y)"
proof -
  have "Bytes_eq a b m = Return (x = y)"
    using assms read_length [OF assms(1)] read_length [OF assms(2)] memcmp_zero [of "by_size a" x y] by (auto simp: Bytes_eq_def)
  then show ?thesis
    using compare_cmp [OF assms] cmp_less [of x y] by (auto simp: Bytes_lt_def Bytes_le_def Bytes_gt_def Bytes_ge_def)
qed

theorem bytes_order_witness: "Bytes_gt (Bytes_view 0 0 2) (Bytes_view 1 1 2) [0 \<mapsto> [7, 8], 1 \<mapsto> [6, 7, 8]] = Return True"
  using bytes_order [of "Bytes_view 0 0 2" "[0 \<mapsto> [7, 8], 1 \<mapsto> [6, 7, 8]]" "[7, 8]" "Bytes_view 1 1 2" "[7, 8]"]
  by (simp add: Bytes_ToString_def Bytes_view_def read_block_def)

text \<open>A deep copy keeps its contents when the block it was made from is freed; a deep copy whose prefix was removed cannot be destroyed.\<close>

lemma deep_copy_keeps:
  assumes "DeepCopy fresh blk ofs n m = Return (b, m')" and "fresh \<noteq> blk" and "m blk = Some bs"
  shows "Bytes_ToString b (m'(blk := None)) = Return (take n (drop ofs bs))"
  using assms by (auto simp: DeepCopy_def Bytes_ToString_def read_block_def bind_outcome_Return_iff split: if_splits)

lemma removed_prefix_not_freed: "deep_copy b \<Longrightarrow> 0 < n \<Longrightarrow> RemovePrefix n b = Return b' \<Longrightarrow> Bytes_destroy b' m = Fault OutOfBounds"
  by (auto simp: RemovePrefix_def Bytes_destroy_def split: if_splits)

end
