(* ===== verification/Spec2Isabelle.thy ===== *)
theory Spec2Isabelle
  imports Store Merge_Store Open_Errors Index_Agree Raft_Progress Blocking_Client Timers Json_Correct Http_Correct Pools Queue_Pools Logger Events Coroutines Arena Bytes_View
begin

text \<open>
  A model of bitdb: an embedded key-value store in the style of Bitcask, with the libraries that its
  repository has around it (a consensus protocol, remote procedure calls, an HTTP server, coroutines, thread
  pools, a logger, JSON). Paths below are relative to \<^verbatim>\<open>src/bitdb\<close>.

  \<^bold>\<open>The storage engine.\<close> A database appends records to the active one of a directory of data files and keeps an
  index in memory from each key to the position of its last record. Opening a database replays the
  files into the index; a batch writes records that carry a transaction number and counts only once
  its last record is there; a merge copies the records the index still refers to into a new directory.

    \<open>Prelude\<close>: bytes, machine words, C strings; \<open>'a outcome\<close>, a value or the fault that ends the process.
    \<open>Status\<close> (\<^verbatim>\<open>status.h\<close>): commands \<open>('s, 'a) cmd\<close> that pass a state and give \<open>Ok\<close>, a status code or a fault;
      \<open>CHECK_OK\<close> and \<open>CHECK_TRUE\<close> are the macros of the same names.
    \<open>File_IO\<close> (\<^verbatim>\<open>io/, utils/os_utils.h\<close>): a world of files and directories with scripts for what \<open>write\<close> and
      \<open>fsync\<close> return and a parameter for the order in which \<open>readdir\<close> lists names.
    \<open>Coding\<close> (\<^verbatim>\<open>utils/coding.cpp\<close>), \<open>Str_Utils\<close> (\<^verbatim>\<open>common/string_utils.cpp, common/format.h\<close>), \<open>Log_Record\<close> (\<^verbatim>\<open>data/log_record.cpp, data/transaction_record.cpp\<close>),
      \<open>Data_File\<close> (\<^verbatim>\<open>data/data_file.cpp\<close>): the encodings with their round trips and the exact range in which they hold.
    \<open>Random_Gen, Skip_List, Skip_List_Correct, Skip_List_Update\<close> (\<^verbatim>\<open>utils/random.h, ds/skiplist.h\<close>): the list on an
      explicit heap of nodes; its invariant says that every level is a chain of the nodes that reach it.
      \<open>Sorted_Map\<close> (\<^verbatim>\<open>ds/treemap.h, ds/hashmap.h\<close>) is the sorted association list it implements.
    \<open>Index\<close> (\<^verbatim>\<open>index/\<close>): the abstract class as the locale \<open>indexer\<close>, interpreted by the three indexers and by the
      dispatch over them; \<open>Index_Agree\<close>: no sequence of operations tells them apart.
    \<open>DB_Core\<close> (\<^verbatim>\<open>db.cpp: Put, Get, Delete, Sync, ...\<close>), \<open>Recovery\<close> (\<^verbatim>\<open>db.cpp: LoadDataFiles, LoadMergenceFiles, LoadIndexFrom...\<close>), \<open>Merge\<close>
      (\<^verbatim>\<open>db.cpp: Open, Merge\<close>), \<open>Batch\<close> (\<^verbatim>\<open>batch.cpp\<close>): one definition per function, on the pair of the database and the world.
    \<open>DB_Inv\<close>: the log is the list of files with their records; \<open>replay\<close> turns it into the index. \<open>DB_Refine\<close>: the
      locale \<open>kv_store\<close> of maps with its interpretation \<open>db\<close>; \<open>models crc s M\<close> says that the state
      \<open>s\<close> stands for the map \<open>M\<close>. \<open>Recovery_Correct, Open_Correct, Batch_Correct, Store\<close>: opening, commits and
      sequences of operations against that map. \<open>Merge_Correct, Merge_Store\<close>: a merge writes a log of one record per key
      for the same map and the hint file of its index, and leaves what \<open>Get\<close> returns alone; \<open>merge_ready\<close> has the
      hypotheses (at least one key, records that fit into a file, a mergence directory that is not there yet).
      \<open>default_open\<close>: \<open>Open\<close> with its default argument is \<open>Open\<close> followed by such a merge.
      \<open>Open_Errors\<close>: two directories that cannot be opened again, one of them that of any merged database.

  \<^bold>\<open>Consensus.\<close> \<open>Serializer\<close> (\<^verbatim>\<open>codec/serializer.h\<close>; locale \<open>codec\<close>), \<open>Raft_Protocol\<close> (\<^verbatim>\<open>raft/raft_protocol.h, raft/raft_storage.h\<close>), \<open>Raft\<close>
    (\<^verbatim>\<open>raft/raft.h\<close>: one definition per handler and background round), \<open>Raft_Network\<close> (all interleavings of handlers,
    replies and rounds of a cluster as a step relation), \<open>Voting\<close> (locale \<open>quorum_system\<close>), \<open>Raft_Elections\<close> (at most one
    leader per term when replies are timely, and a second leader when a late one completes a majority), \<open>Raft_Progress\<close> (every
    read of a log or an array goes through \<open>vec_at\<close>, which is a fault outside its bounds, and no step has one; nothing is ever committed).

  \<^bold>\<open>Network.\<close> \<open>Packets\<close> (\<^verbatim>\<open>net/io_awaiter.cpp, net/tcp/tcp_connection.cpp\<close>; locale \<open>transport\<close>): sockets with scripts of partial
    reads and writes. \<open>Rpc, Blocking_Client\<close> (\<^verbatim>\<open>net/rpc/\<close>): server, both clients and the call over packets. \<open>Http, Http_Correct\<close> (\<^verbatim>\<open>net/http/\<close>):
    parser, router and the loop over a connection. \<open>Events\<close> (\<^verbatim>\<open>net/event_manager.cpp, net/socket.h, net/tcp/\<close>): epoll registration,
    dispatch, connecting and the sub reactors.

  \<^bold>\<open>Concurrency and tools.\<close> \<open>Queues\<close> (\<^verbatim>\<open>common/blocking_queue.h, common/spin_lock.h, common/buffer.h\<close>; locale \<open>queue\<close>), \<open>Pools\<close>
    (\<^verbatim>\<open>common/thread_pool.h\<close>) and \<open>Queue_Pools\<close> (\<^verbatim>\<open>common/blocking_queue_thread_pool.h, co/co_thread_pool.cpp, co/scheduler.cpp\<close>): a step
    is a critical section or a notification, and properties hold for every interleaving. \<open>Coroutines\<close> (\<^verbatim>\<open>co/task.h\<close>): frames
    with the code that is left of their coroutine, awaiting by transfer of control, and the event loop that resumes what it keeps.
    \<open>Timers\<close> (\<^verbatim>\<open>timer/timer.h\<close>; locale \<open>expiry_queue\<close>), \<open>Logger\<close> (\<^verbatim>\<open>common/logger_impl.h\<close>: the logger, its thread and its files in
    every interleaving, with failing calls), \<open>Json, Json_Correct\<close> (\<^verbatim>\<open>common/json/\<close>), \<open>Arena\<close>
    (\<^verbatim>\<open>utils/arena.cpp\<close>), \<open>Bytes_View\<close> (\<^verbatim>\<open>utils/bytes.h\<close>).

  \<^bold>\<open>Parameters.\<close> Code that is not part of the repository is an argument: the checksum \<open>crc\<close> with the law
  \<open>crc_extends\<close> (extending a checksum by more bytes is the checksum of the concatenation), random numbers, the
  clock and the text of times, handlers of requests and remote functions, what \<open>operator new\<close>
  returns (\<open>new_apart\<close>, \<open>new_aligned\<close>; it may fail), and which \<open>try_lock\<close> succeeds.

  \<^bold>\<open>Bounds.\<close> Loops whose number of turns is bounded by data carry that bound: a file is read in at most one turn
  more than it has bytes (\<open>each_record\<close>), a directory is removed to a depth of the number of directories, \<open>Open\<close> and
  \<open>Merge\<close> nest four levels deep. Loops that wait for input carry fuel, and the properties about them say that
  enough fuel gives the result, or that no fuel does.

  Sizes of files are numbers, and where the code narrows them the model does too: results of \<open>FileIO::Read\<close> and \<open>Write\<close> and the
  count of a reply in the blocking client are \<open>int\<close> (\<open>as_int\<close>), so records and replies are below \<open>2 ^ 31\<close> bytes; sizes in the arena are modulo
  \<open>2 ^ 64\<close>. Terms and indexes of the consensus protocol are unbounded integers.

  \<^bold>\<open>Below\<close> are the properties of the storage engine as a whole: durability across a restart, the
  refinement of each operation, and the invisibility of an unfinished batch; \<open>Open\<close> is called with \<open>merge_after_open\<close> false. The hypotheses (\<open>ready\<close>) say that
  write and sync calls succeed, that records are below \<open>2 ^ 31\<close> bytes and fit into a file, that numbers of files and transactions are below the bounds at which the encodings
  break, and that no merge has left files behind.

  \<^bold>\<open>Not modelled.\<close> \<^verbatim>\<open>net/socket.cpp, net/inet_address.h, net/util.h\<close> (wrappers of system calls), \<^verbatim>\<open>utils/reflection.h\<close> (compiler
  macros), \<^verbatim>\<open>common/singleton.h, common/noncopyable.h\<close> (no operations), \<open>QueueBuffer\<close> of \<^verbatim>\<open>common/buffer.h\<close> (cannot be
  instantiated), \<^verbatim>\<open>codec/type_helper.h\<close> (traits evaluated by the compiler), \<open>SaveSnapshot\<close>, \<open>InstallSnapshot\<close> and
  \<open>SendInstallSnapshot\<close> of \<^verbatim>\<open>raft/raft.h\<close> (empty bodies), the earlier versions of the thread pools that their files keep as
  comments, binding threads to cores, and the tests, examples and benchmarks, which only call what is modelled.
  Threads are modelled where they interact (pools, locks, logger, consensus); the operations of a database run
  under its lock and are single steps. The text of log messages is left out.
\<close>

section \<open>Examples\<close>

text \<open>A new database in a directory without data files stands for the empty map.\<close>

lemma models_init:
  assumes "dir_path opts \<in> set (dirs w)" and "tidy (dir_path opts) w"
    and "\<And>f. content w (GetDataFileName (dir_path opts) f) = None"
  shows "models crc (DB_init r opts, w) Map.empty"
proof -
  have "index_holds (NewIndexer r t) Map.empty" for t
    using NewIndexer_rep [of r t] by (simp add: index_holds_def)
  then have "db_inv crc (DB_init r opts, w) [] Map.empty"
    using assms by (simp add: db_inv_def log_inv_def files_inv_def DB_init_def live_def replay_init_def K_NON_TXN_ID_def)
  moreover have "kv crc [] Map.empty = Map.empty" by (simp add: kv_def fun_eq_iff)
  ultimately show ?thesis unfolding models_def by metis
qed

definition ex_opts :: Options where
  "ex_opts = \<lparr>dir_path = ''/db'', data_file_size = 4096, is_sync_write = True, index_type = SkipListIndex\<rparr>"

definition ex_world :: world where
  "ex_world = \<lparr>files = [], dirs = [''/db''], dir_order = rev, wr_script = [], sync_script = []\<rparr>"

definition ex_random :: Random where
  "ex_random = Random_init (\<lambda>s n. s + word_of_nat n) 1 (\<lambda>_. 0) 0 False"

definition ex_db :: st where
  "ex_db = (DB_init ex_random ex_opts, ex_world)"

lemma ex_db_ready: "n < 1000 \<Longrightarrow> ready sum_crc ex_opts n ex_db Map.empty"
proof -
  assume n: "n < 1000"
  have "tidy ''/db'' ex_world"
    by (simp add: tidy_def ex_world_def dirname_def)
  then have "models sum_crc ex_db Map.empty"
    unfolding ex_db_def by (intro models_init) (simp_all add: ex_opts_def ex_world_def content_def)
  moreover have "unmerged ''/db'' ex_world"
    by (simp add: unmerged_def ex_world_def GetMergenceDirectory_def GetHintFileName_def GetMergedFileName_def
        Format_path2 IsFileExist_def content_def)
  ultimately show ?thesis
    using n sum_crc_extends
    by (simp add: ready_def ex_db_def DB_init_def ex_opts_def CheckOptions_def healthy_def ex_world_def listing_def)
qed

section \<open>The database as a map\<close>

text \<open>C1. Durability: after any sequence of \<open>Put\<close>, \<open>Delete\<close> and committed batches, each of
  which succeeds, a database opened anew from the files, with \<open>merge_after_open\<close> false, answers every \<open>Get\<close> with
  what the sequence of updates of a map gives. With the default, true, \<open>Open\<close> also merges: \<open>default_open\<close> has what \<open>Get\<close> then
  returns, and the files that it leaves cannot be opened again (C22).\<close>

theorem durable:
  assumes "ready crc opts (sum_list (map op_cost xs) + n) s M" and "list_all (op_fits opts wo) xs" and "k \<noteq> []"
  shows "\<exists>s1 s2. run_ops (run_op crc wo) xs s = (Ok (), s1) \<and> reopen_db crc r opts False s1 = (Ok (), s2)
    \<and> DB_Get crc k True s2 = (case fold op_effect xs M (cstr k) of None \<Rightarrow> Err kNotFound | Some v \<Rightarrow> Ok v, s2)"
  by (rule db.durable_law [OF assms])

theorem durable_witness:
  "\<exists>s1 s2. run_ops (run_op sum_crc DefaultWriteBatchOptions)
        [OpPut [1] [2], OpBatch [([3], [4]), ([3], [5])], OpDelete [1]] ex_db = (Ok (), s1)
      \<and> reopen_db sum_crc ex_random ex_opts False s1 = (Ok (), s2)
      \<and> DB_Get sum_crc [3] True s2 = (Ok [4], s2)"
  using durable [OF ex_db_ready, where n = 0 and r = ex_random and k = "[3]" and wo = DefaultWriteBatchOptions
      and xs = "[OpPut [1] [2], OpBatch [([3], [4]), ([3], [5])], OpDelete [1]]"]
  by (simp add: entry_fits_def ex_opts_def DefaultWriteBatchOptions_def)

text \<open>C2. \<open>Put\<close> is the update of the map: with room for the record, it
  returns ok and the database then stands for the map with the key, up to its first NUL byte,
  bound to the value, up to its first NUL byte. The files hold the log of all records and the
  index is what a replay of that log gives.\<close>

theorem DB_Put_refines:
  assumes "ready crc opts (1 + n) s M" and "entry_fits opts (key, val)"
  shows "\<exists>s'. DB_Put crc key val s = (Ok (), s') \<and> ready crc opts n s' (M(cstr key \<mapsto> cstr val))"
  by (rule Put_ready [OF assms])

theorem DB_Put_refines_witness:
  "\<exists>s'. DB_Put sum_crc [1, 2] [3] ex_db = (Ok (), s') \<and> ready sum_crc ex_opts 5 s' [[1, 2] \<mapsto> [3]]"
  using DB_Put_refines [OF ex_db_ready, of 5 "[1, 2]" "[3]"] by (simp add: entry_fits_def ex_opts_def)

text \<open>C3. \<open>Get\<close> is the lookup of the map: it returns the value the map has at the key and
  \<open>NotFound\<close> when it has none, and leaves the state alone.\<close>

theorem DB_Get_refines:
  assumes "ready crc opts n s M" and "key \<noteq> []"
  shows "DB_Get crc key True s = (case M (cstr key) of None \<Rightarrow> Err kNotFound | Some v \<Rightarrow> Ok v, s)"
  by (rule get_ready [OF assms])

theorem DB_Get_refines_witness:
  "\<exists>s'. DB_Put sum_crc [1, 2] [3] ex_db = (Ok (), s') \<and> DB_Get sum_crc [1, 2] True s' = (Ok [3], s')
      \<and> DB_Get sum_crc [1] True s' = (Err kNotFound, s')"
proof -
  obtain s' where s': "DB_Put sum_crc [1, 2] [3] ex_db = (Ok (), s')" "ready sum_crc ex_opts 0 s' [[1, 2] \<mapsto> [3]]"
    using Put_ready [OF ex_db_ready, of 0 "[1, 2]" "[3]"] by (auto simp: entry_fits_def ex_opts_def)
  from DB_Get_refines [OF s'(2)] s'(1) show ?thesis by simp
qed

text \<open>C4. \<open>Delete\<close> is the removal of the key from the map, and succeeds whether or not the key
  was there.\<close>

theorem DB_Delete_refines:
  assumes "ready crc opts (1 + n) s M" and "entry_fits opts (key, [])"
  shows "\<exists>s'. DB_Delete crc key s = (Ok (), s') \<and> ready crc opts n s' (M(cstr key := None))"
  by (rule Delete_ready [OF assms])

theorem DB_Delete_refines_witness:
  "\<exists>s'. DB_Delete sum_crc [1, 2] ex_db = (Ok (), s') \<and> ready sum_crc ex_opts 5 s' Map.empty"
  using DB_Delete_refines [OF ex_db_ready, of 5 "[1, 2]"] by (simp add: entry_fits_def ex_opts_def)

text \<open>C5. A batch of puts that is committed is one update of the map by all its entries.\<close>

theorem Commit_refines:
  assumes "ready crc opts (length (pending_writes wb) + 1 + n) s M" and "puts_only (pending_writes wb)"
    and "batch_room (fst s) (pending_writes wb)" and "pending_writes wb \<noteq> []"
    and "length (pending_writes wb) \<le> unat (max_batch_num (wb_options wb))"
  shows "\<exists>wb' s'. WriteBatch_Commit crc (wb, s) = (Ok (), wb', s') \<and> committed wb'
    \<and> ready crc opts n s' (M ++ batch_map (pending_writes wb))"
  by (rule Commit_ready [OF assms])

definition ex_batch :: WriteBatch where
  "ex_batch = (WriteBatch_init DefaultWriteBatchOptions)\<lparr>pending_writes :=
     [([1], \<lparr>lr_key = [1], lr_value = [2], lr_type = NormalLogRecord\<rparr>),
      ([3], \<lparr>lr_key = [3], lr_value = [4], lr_type = NormalLogRecord\<rparr>)]\<rparr>"

lemma ex_batch_ok:
  "puts_only (pending_writes ex_batch)" "batch_room (fst ex_db) (pending_writes ex_batch)" "pending_writes ex_batch \<noteq> []"
  "length (pending_writes ex_batch) \<le> unat (max_batch_num (wb_options ex_batch))"
  "length (pending_writes ex_batch) + 1 + 5 < 1000"
  by (simp_all add: ex_batch_def puts_only_def batch_room_def txn_room_def ex_db_def DB_init_def ex_opts_def
      finish_record_def K_TXN_FINISHED_KEY_def str_def WriteBatch_init_def DefaultWriteBatchOptions_def cstr_def)

theorem Commit_refines_witness:
  "\<exists>wb' s'. WriteBatch_Commit sum_crc (ex_batch, ex_db) = (Ok (), wb', s') \<and> committed wb'
    \<and> ready sum_crc ex_opts 5 s' (batch_map (pending_writes ex_batch))"
  using Commit_refines [OF ex_db_ready, OF ex_batch_ok(5) ex_batch_ok(1-4)] by simp

text \<open>C6. Atomicity: if a commit stops after any number of the records of its batch, before its
  last one, the database still stands for the map from before the batch, and so does a database
  that is then opened from the files with \<open>merge_after_open\<close> false.\<close>

theorem unfinished_batch_invisible:
  assumes "ready crc opts (length (pending_writes wb) + 1 + n) s M" and "puts_only (pending_writes wb)"
    and "batch_room (fst s) (pending_writes wb)"
  shows "\<exists>positions wb' s' s''. commit_writes crc (db_txn_id (fst s) + 1) (take k (pending_writes wb)) []
        (wb, (fst s)\<lparr>db_txn_id := db_txn_id (fst s) + 1\<rparr>, snd s) = (Ok positions, wb', s')
    \<and> ready crc opts n s' M \<and> reopen_db crc r opts False s' = (Ok (), s'') \<and> ready crc opts n s'' M"
  using unfinished_ready [OF assms] reopen_ready by metis

theorem unfinished_batch_invisible_witness:
  "\<exists>positions wb' s' s''. commit_writes sum_crc 1 (take 1 (pending_writes ex_batch)) []
        (ex_batch, (fst ex_db)\<lparr>db_txn_id := 1\<rparr>, snd ex_db) = (Ok positions, wb', s')
    \<and> ready sum_crc ex_opts 5 s' Map.empty \<and> reopen_db sum_crc ex_random ex_opts False s' = (Ok (), s'')
    \<and> ready sum_crc ex_opts 5 s'' Map.empty"
proof -
  have "db_txn_id (fst ex_db) + 1 = 1" by (simp add: ex_db_def DB_init_def)
  with unfinished_batch_invisible [OF ex_db_ready, OF ex_batch_ok(5) ex_batch_ok(1,2), of 1 ex_random]
  show ?thesis by simp
qed

end
